(* ===== verification/Prelude.thy ===== *)
theory Prelude
  imports Complex_Main "HOL-Library.Word"
begin

text \<open>
  Shared vocabulary of the development: the machine-integer type names, the C++ exceptions the
  library throws and the result type that carries them, decimal printing (\<open>std::to_string\<close>),
  ASCII white space, the generic transition-system interface that every state machine of the
  development interprets, the wait on a condition variable, and the list and word lemmas several
  components use.
\<close>

section \<open>Proof collections\<close>

named_theorems tracker_simps \<open>defining equations of the sequence trackers\<close>
named_theorems codec_simps \<open>byte-level encoding and decoding\<close>
named_theorems health_simps \<open>defining equations of the operations on the client's state\<close>
named_theorems queue_simps \<open>defining equations of the delivery queue\<close>

section \<open>Machine integers and time\<close>

type_synonym u8 = "8 word"
type_synonym u16 = "16 word"
type_synonym u32 = "32 word"
type_synonym u64 = "64 word"

text \<open>
  \<open>std::chrono::steady_clock\<close> counts nanoseconds in a signed 64-bit integer. Time points and
  durations are integers here; every place where the source compares with the range of the
  representation does so in the model too.
\<close>

type_synonym time_point = int
type_synonym ticks = int

section \<open>Exceptions and results\<close>

text \<open>
  The exception classes of the library with the text \<open>what()\<close> returns. \<open>InvalidArgument\<close> and
  \<open>LogicError\<close> are the standard ones; \<open>RuntimeError\<close> is a plain \<open>std::runtime_error\<close>, and the
  last three are its subclasses. All of them are \<open>std::exception\<close>s. \<open>UnknownException\<close> is a
  thrown object of some other type.
\<close>

datatype exn =
    InvalidArgument string
  | LogicError string
  | RuntimeError string
  | NotConnectedError string
  | DiscoveryError string
  | ProtocolError string
  | UnknownException

type_synonym 'a res = "exn + 'a"

fun what :: "exn \<Rightarrow> string" where
  "what (InvalidArgument m) = m"
| "what (LogicError m) = m"
| "what (RuntimeError m) = m"
| "what (NotConnectedError m) = m"
| "what (DiscoveryError m) = m"
| "what (ProtocolError m) = m"
| "what UnknownException = []"

fun is_std_exception :: "exn \<Rightarrow> bool" where
  "is_std_exception UnknownException = False"
| "is_std_exception _ = True"

definition res_bind :: "'a res \<Rightarrow> ('a \<Rightarrow> 'b res) \<Rightarrow> 'b res" where
  "res_bind r f = (case r of Inl e \<Rightarrow> Inl e | Inr x \<Rightarrow> f x)"

definition require :: "bool \<Rightarrow> exn \<Rightarrow> unit res" where
  "require b e = (if b then Inr () else Inl e)"

fun is_ok :: "'a res \<Rightarrow> bool" where
  "is_ok (Inl _) = False"
| "is_ok (Inr _) = True"

lemma res_bind_simps [simp]:
  "res_bind (Inl e) f = Inl e"
  "res_bind (Inr x) f = f x"
  by (simp_all add: res_bind_def)

lemma res_bind_Inr_iff:
  "res_bind r f = Inr y \<longleftrightarrow> (\<exists>x. r = Inr x \<and> f x = Inr y)"
  by (cases r) auto

lemma res_bind_Inl_iff:
  "res_bind r f = Inl e \<longleftrightarrow> r = Inl e \<or> (\<exists>x. r = Inr x \<and> f x = Inl e)"
  by (cases r) auto

lemma require_Inr_iff [simp]: "require b e = Inr u \<longleftrightarrow> b"
  by (simp add: require_def)

lemma require_Inl_iff [simp]: "require b e = Inl e' \<longleftrightarrow> \<not> b \<and> e' = e"
  by (auto simp: require_def)

lemma is_ok_iff: "is_ok r \<longleftrightarrow> (\<exists>x. r = Inr x)"
  by (cases r) auto

section \<open>Decimal printing\<close>

text \<open>\<open>std::to_string\<close> of an integer.\<close>

definition digit_char :: "nat \<Rightarrow> char" where
  "digit_char d = char_of (48 + d)"

fun show_nat :: "nat \<Rightarrow> string" where
  "show_nat n = (if n < 10 then [digit_char n] else show_nat (n div 10) @ [digit_char (n mod 10)])"

declare show_nat.simps [simp del]

definition show_int :: "int \<Rightarrow> string" where
  "show_int i = (if i < 0 then CHR ''-'' # show_nat (nat (- i)) else show_nat (nat i))"

section \<open>ASCII white space\<close>

text \<open>
  The six characters blank, tab, newline, carriage return, form feed and vertical tab: the set
  tested by \<open>is_ascii_whitespace\<close>, \<open>is_ascii_blank\<close> and, in the C locale, \<open>std::isspace\<close>.
\<close>

definition ascii_space :: "char \<Rightarrow> bool" where
  "ascii_space c \<longleftrightarrow>
     c = CHR '' '' \<or> c = CHR 0x09 \<or> c = CHR 0x0A \<or> c = CHR 0x0D \<or> c = CHR 0x0C \<or> c = CHR 0x0B"

section \<open>Transition systems\<close>

text \<open>
  Every state machine of the development is a labelled partial step function: \<open>step a s\<close> is
  \<open>None\<close> when action \<open>a\<close> is not enabled in \<open>s\<close>. The locale turns preservation by one step into a
  statement about every run.
\<close>

fun run_steps :: "('a \<Rightarrow> 's \<Rightarrow> 's option) \<Rightarrow> 'a list \<Rightarrow> 's \<Rightarrow> 's option" where
  "run_steps step [] s = Some s"
| "run_steps step (a # as) s = (case step a s of None \<Rightarrow> None | Some s' \<Rightarrow> run_steps step as s')"

lemma run_steps_append:
  "run_steps step (as @ bs) s = Option.bind (run_steps step as s) (run_steps step bs)"
  by (induction as arbitrary: s) (auto split: option.splits)

lemma run_steps_snocD:
  "run_steps step (as @ [a]) s = Some s' \<Longrightarrow> \<exists>s1. run_steps step as s = Some s1 \<and> step a s1 = Some s'"
  by (induction as arbitrary: s) (auto split: option.splits)

locale invariant_system =
  fixes step :: "'a \<Rightarrow> 's \<Rightarrow> 's option"
    and init :: "'s \<Rightarrow> bool"
    and inv :: "'s \<Rightarrow> bool"
  assumes inv_init: "init s \<Longrightarrow> inv s"
    and inv_step: "inv s \<Longrightarrow> step a s = Some s' \<Longrightarrow> inv s'"
begin

lemma inv_run: "inv s \<Longrightarrow> run_steps step as s = Some s' \<Longrightarrow> inv s'"
  by (induction as arbitrary: s) (auto split: option.splits dest: inv_step)

lemma inv_reachable: "init s \<Longrightarrow> run_steps step as s = Some s' \<Longrightarrow> inv s'"
  by (blast intro: inv_init inv_run)

end

section \<open>Waiting on a condition variable\<close>

text \<open>
  \<open>condition_variable::wait_for\<close> and \<open>wait_until\<close> with a predicate. A wake-up is a notification, a
  spurious one or the end of the time (\<open>True\<close>); before it other threads have changed the state. \<open>None\<close>:
  still waiting.
\<close>

type_synonym 's wake = "bool \<times> ('s \<Rightarrow> 's)"

fun wait_for :: "('s \<Rightarrow> bool) \<Rightarrow> 's wake list \<Rightarrow> 's \<Rightarrow> (bool \<times> 's) option" where
  "wait_for ready [] s = (if ready s then Some (True, s) else None)"
| "wait_for ready ((expired, others) # ws) s =
     (if ready s then Some (True, s)
      else if expired then Some (ready (others s), others s)
      else wait_for ready ws (others s))"

lemma wait_for_ready: "ready s \<Longrightarrow> wait_for ready ws s = Some (True, s)"
  by (cases ws) auto

lemma wait_for_ends: "list_ex fst ws \<Longrightarrow> \<exists>b s'. wait_for ready ws s = Some (b, s')"
  by (induction ready ws s rule: wait_for.induct) auto

lemma wait_for_result:
  "wait_for ready ws s = Some (b, s') \<Longrightarrow> b = ready s' \<and> (\<not> b \<longrightarrow> list_ex fst ws)"
  by (induction ready ws s rule: wait_for.induct) (auto split: if_splits)

text \<open>When the states at the wake-ups are given, the wait ends in one of them or where it began.\<close>

lemma wait_for_seen:
  "wait_for ready (map (\<lambda>(b, x). (b, \<lambda>_. f x)) seen) (f e) = Some (b, s') \<Longrightarrow>
     \<exists>x \<in> insert e (snd ` set seen). s' = f x"
proof (induction seen arbitrary: e)
  case (Cons bx seen)
  obtain c x where "bx = (c, x)" by fastforce
  then show ?case using Cons.prems Cons.IH [of x] by (auto split: if_splits)
qed (auto split: if_splits)

section \<open>Lists and words\<close>

fun option_list :: "'a option \<Rightarrow> 'a list" where
  "option_list None = []"
| "option_list (Some x) = [x]"

lemma length_drop_one_append: "xs \<noteq> [] \<Longrightarrow> length (drop 1 xs @ [x]) = length xs"
  by (cases xs) auto

lemma unat_of_nat_small: "n < 2 ^ LENGTH('w::len) \<Longrightarrow> unat (of_nat n :: 'w word) = n"
  by (simp add: unat_of_nat)

lemma unat_diff_of_nat:
  fixes a b :: nat
  assumes "a \<le> b" and "b - a < 2 ^ LENGTH('w::len)"
  shows "unat (of_nat b - of_nat a :: 'w word) = b - a"
proof -
  have "(of_nat b - of_nat a :: 'w word) = of_nat (b - a)"
    using assms(1) by (simp add: of_nat_diff)
  then show ?thesis
    using assms(2) by (simp add: unat_of_nat)
qed

end
