(* ===== verification/Float_Model.thy ===== *)
theory Float_Model
  imports Prelude "HOL-Library.Log_Nat"
begin

text \<open>
  Binary floating point as the sources use it: \<open>double\<close> is IEEE binary64, \<open>long double\<close> is
  binary64, the x87 extended format or binary128 depending on the platform, so every operation
  takes a format, and a rounding mode, because the sources change and rely on the mode. A value is
  a finite rational, an infinity or a NaN. The two zeros are one value: no operation the sources
  apply tells them apart. Operations compute the exact rational result and round it once.
\<close>

section \<open>Formats, modes and values\<close>

datatype rounding = ToNearest | Downward | Upward | TowardZero

record fformat =
  prec :: nat
  emax :: int

definition binary64 :: fformat where
  "binary64 = \<lparr>prec = 53, emax = 1023\<rparr>"

definition x87_extended :: fformat where
  "x87_extended = \<lparr>prec = 64, emax = 16383\<rparr>"

definition binary128 :: fformat where
  "binary128 = \<lparr>prec = 113, emax = 16383\<rparr>"

lemma format_sel [simp]:
  "prec binary64 = 53" "emax binary64 = 1023"
  "prec x87_extended = 64" "emax x87_extended = 16383"
  "prec binary128 = 113" "emax binary128 = 16383"
  by (simp_all add: binary64_def x87_extended_def binary128_def)

text \<open>\<open>Inf True\<close> is minus infinity.\<close>

datatype fl = Fin rat | Inf bool | NaN

fun is_finite :: "fl \<Rightarrow> bool" where
  "is_finite (Fin _) = True"
| "is_finite _ = False"

section \<open>Rounding\<close>

text \<open>The binary exponent of a positive rational: \<open>2 powi ilog2 r \<le> r < 2 powi (ilog2 r + 1)\<close>.\<close>

definition ilog2 :: "rat \<Rightarrow> int" where
  "ilog2 r =
     (if 1 \<le> r then int (floorlog 2 (nat \<lfloor>r\<rfloor>)) - 1
      else - int (floorlog 2 (nat (\<lceil>1 / r\<rceil> - 1))))"

text \<open>The exponent of the unit in the last place at \<open>r\<close>, not below that of the subnormals.\<close>

definition quantum :: "fformat \<Rightarrow> rat \<Rightarrow> int" where
  "quantum F r = max (ilog2 \<bar>r\<bar> - int (prec F) + 1) (2 - emax F - int (prec F))"

definition fmax :: "fformat \<Rightarrow> rat" where
  "fmax F = (2 ^ prec F - 1) * 2 powi (emax F - int (prec F) + 1)"

definition half_even :: "rat \<Rightarrow> int" where
  "half_even m =
     (let f = \<lfloor>m\<rfloor>; d = m - of_int f in
      if d < 1 / 2 then f else if 1 / 2 < d then f + 1 else if even f then f else f + 1)"

text \<open>Rounding the magnitude \<open>m\<close> of a number whose sign is \<open>neg\<close> to an integer.\<close>

fun round_magnitude :: "rounding \<Rightarrow> bool \<Rightarrow> rat \<Rightarrow> int" where
  "round_magnitude ToNearest neg m = half_even m"
| "round_magnitude Downward neg m = (if neg then \<lceil>m\<rceil> else \<lfloor>m\<rfloor>)"
| "round_magnitude Upward neg m = (if neg then \<lfloor>m\<rfloor> else \<lceil>m\<rceil>)"
| "round_magnitude TowardZero neg m = \<lfloor>m\<rfloor>"

fun fl_overflow :: "fformat \<Rightarrow> rounding \<Rightarrow> bool \<Rightarrow> fl" where
  "fl_overflow F ToNearest neg = Inf neg"
| "fl_overflow F Downward neg = (if neg then Inf True else Fin (fmax F))"
| "fl_overflow F Upward neg = (if neg then Fin (- fmax F) else Inf False)"
| "fl_overflow F TowardZero neg = Fin (if neg then - fmax F else fmax F)"

definition fl_round :: "fformat \<Rightarrow> rounding \<Rightarrow> rat \<Rightarrow> fl" where
  "fl_round F R r =
     (if r = 0 then Fin 0
      else let q = quantum F r;
               v = of_int (round_magnitude R (r < 0) (\<bar>r\<bar> / 2 powi q)) * 2 powi q
           in if fmax F < v then fl_overflow F R (r < 0)
              else Fin (if r < 0 then - v else v))"

section \<open>Arithmetic and comparison\<close>

fun fl_neg :: "fl \<Rightarrow> bool" where
  "fl_neg (Fin r) = (r < 0)"
| "fl_neg (Inf n) = n"
| "fl_neg NaN = False"

definition fl_of_int :: "fformat \<Rightarrow> rounding \<Rightarrow> int \<Rightarrow> fl" where
  "fl_of_int F R i = fl_round F R (of_int i)"

text \<open>Conversion between formats.\<close>

fun fl_convert :: "fformat \<Rightarrow> rounding \<Rightarrow> fl \<Rightarrow> fl" where
  "fl_convert F R (Fin r) = fl_round F R r"
| "fl_convert F R x = x"

fun fl_mul :: "fformat \<Rightarrow> rounding \<Rightarrow> fl \<Rightarrow> fl \<Rightarrow> fl" where
  "fl_mul F R (Fin a) (Fin b) = fl_round F R (a * b)"
| "fl_mul F R NaN y = NaN"
| "fl_mul F R x NaN = NaN"
| "fl_mul F R (Inf n) (Fin b) = (if b = 0 then NaN else Inf (n \<noteq> (b < 0)))"
| "fl_mul F R (Fin a) (Inf n) = (if a = 0 then NaN else Inf ((a < 0) \<noteq> n))"
| "fl_mul F R (Inf n) (Inf m) = Inf (n \<noteq> m)"

fun fl_add :: "fformat \<Rightarrow> rounding \<Rightarrow> fl \<Rightarrow> fl \<Rightarrow> fl" where
  "fl_add F R (Fin a) (Fin b) = fl_round F R (a + b)"
| "fl_add F R NaN y = NaN"
| "fl_add F R x NaN = NaN"
| "fl_add F R (Inf n) (Fin b) = Inf n"
| "fl_add F R (Fin a) (Inf n) = Inf n"
| "fl_add F R (Inf n) (Inf m) = (if n = m then Inf n else NaN)"

text \<open>Division; the zero divisor is taken as positive zero.\<close>

fun fl_div :: "fformat \<Rightarrow> rounding \<Rightarrow> fl \<Rightarrow> fl \<Rightarrow> fl" where
  "fl_div F R (Fin a) (Fin b) =
     (if b = 0 then (if a = 0 then NaN else Inf (a < 0)) else fl_round F R (a / b))"
| "fl_div F R NaN y = NaN"
| "fl_div F R x NaN = NaN"
| "fl_div F R (Inf n) (Fin b) = Inf (n \<noteq> (b < 0))"
| "fl_div F R (Fin a) (Inf n) = Fin 0"
| "fl_div F R (Inf n) (Inf m) = NaN"

fun fl_uminus :: "fl \<Rightarrow> fl" where
  "fl_uminus (Fin a) = Fin (- a)"
| "fl_uminus (Inf n) = Inf (\<not> n)"
| "fl_uminus NaN = NaN"

definition fl_sub :: "fformat \<Rightarrow> rounding \<Rightarrow> fl \<Rightarrow> fl \<Rightarrow> fl" where
  "fl_sub F R x y = fl_add F R x (fl_uminus y)"

text \<open>The ordered comparisons are false on a NaN.\<close>

fun fl_less :: "fl \<Rightarrow> fl \<Rightarrow> bool" where
  "fl_less (Fin a) (Fin b) = (a < b)"
| "fl_less (Fin a) (Inf n) = (\<not> n)"
| "fl_less (Inf n) (Fin b) = n"
| "fl_less (Inf n) (Inf m) = (n \<and> \<not> m)"
| "fl_less _ _ = False"

fun fl_eq :: "fl \<Rightarrow> fl \<Rightarrow> bool" where
  "fl_eq NaN _ = False"
| "fl_eq _ NaN = False"
| "fl_eq x y = (x = y)"

definition fl_le :: "fl \<Rightarrow> fl \<Rightarrow> bool" where
  "fl_le x y \<longleftrightarrow> fl_less x y \<or> fl_eq x y"

text \<open>\<open>std::min(x, y)\<close> is \<open>y < x ? y : x\<close>, \<open>std::max(x, y)\<close> is \<open>x < y ? y : x\<close>.\<close>

definition fl_min :: "fl \<Rightarrow> fl \<Rightarrow> fl" where
  "fl_min x y = (if fl_less y x then y else x)"

definition fl_max :: "fl \<Rightarrow> fl \<Rightarrow> fl" where
  "fl_max x y = (if fl_less x y then y else x)"

text \<open>
  \<open>std::ceil\<close>. A finite value above \<open>2 ^ (prec - 1)\<close> is integral, so the ceiling of a value of
  the format is a value of the format and needs no rounding.
\<close>

fun fl_ceil :: "fl \<Rightarrow> fl" where
  "fl_ceil (Fin r) = Fin (of_int \<lceil>r\<rceil>)"
| "fl_ceil x = x"

text \<open>Conversion to an integer type truncates; it is undefined for a value out of range.\<close>

definition rat_trunc :: "rat \<Rightarrow> int" where
  "rat_trunc r = (if r < 0 then - \<lfloor>- r\<rfloor> else \<lfloor>r\<rfloor>)"

text \<open>The finite values of a format are those rounding does not change.\<close>

fun fl_in :: "fformat \<Rightarrow> fl \<Rightarrow> bool" where
  "fl_in F (Fin r) = (fl_round F ToNearest r = Fin r)"
| "fl_in F _ = True"

section \<open>Facts about rounding\<close>

lemma floorlog2_bounds:
  assumes "0 < n"
  shows "0 < floorlog 2 n" "2 ^ (floorlog 2 n - 1) \<le> n" "n < 2 ^ floorlog 2 n"
proof -
  show b: "2 ^ (floorlog 2 n - 1) \<le> n" "n < 2 ^ floorlog 2 n"
    using floorlog_bounds [of n 2] assms by auto
  show "0 < floorlog 2 n"
    using b(2) assms by (cases "floorlog 2 n") auto
qed

lemma ilog2_bounds:
  assumes "0 < r"
  shows "2 powi ilog2 r \<le> r" and "r < 2 powi (ilog2 r + 1)"
proof -
  have "2 powi ilog2 r \<le> r \<and> r < 2 powi (ilog2 r + 1)"
  proof (cases "1 \<le> r")
    case True
    define n where "n = nat \<lfloor>r\<rfloor>"
    have n: "0 < n" and nr: "of_nat n \<le> r" "r < of_nat n + 1"
      using True floor_correct [of r] by (auto simp: n_def le_floor_iff of_nat_nat)
    define L where "L = floorlog 2 n"
    have L: "0 < L" "2 ^ (L - 1) \<le> n" "n < 2 ^ L"
      using floorlog2_bounds [OF n] by (simp_all add: L_def)
    have pw: "(2::rat) ^ (L - 1) \<le> of_nat n" "(of_nat n :: rat) + 1 \<le> 2 ^ L"
      using L(2,3) of_nat_mono [OF L(2), where 'a = rat] of_nat_mono [of "n + 1" "2 ^ L", where 'a = rat]
      by auto
    have "ilog2 r = int L - 1"
      using True by (simp add: ilog2_def L_def n_def)
    moreover have "(2::rat) powi (int L - 1) = 2 ^ (L - 1)" "(2::rat) powi int L = 2 ^ L"
      using L(1) by (simp_all add: power_int_def nat_diff_distrib)
    ultimately show ?thesis
      using order_trans [OF pw(1) nr(1)] less_le_trans [OF nr(2) pw(2)] by simp
  next
    case False
    define k where "k = nat (\<lceil>1 / r\<rceil> - 1)"
    have t: "1 < 1 / r" using assms False by simp
    then have "1 < \<lceil>1 / r\<rceil>" by (simp add: less_ceiling_iff)
    then have k: "0 < k" and kt: "of_nat k < 1 / r" "1 / r \<le> of_nat k + 1"
      unfolding k_def by (auto simp: of_nat_nat) linarith+
    define L where "L = floorlog 2 k"
    have L: "0 < L" "2 ^ (L - 1) \<le> k" "k < 2 ^ L"
      using floorlog2_bounds [OF k] by (simp_all add: L_def)
    have "(2::rat) ^ (L - 1) \<le> of_nat k" "(of_nat k :: rat) + 1 \<le> 2 ^ L"
      using of_nat_mono [OF L(2), where 'a = rat] of_nat_mono [of "k + 1" "2 ^ L", where 'a = rat] L(3)
      by auto
    then have "2 ^ (L - 1) < 1 / r" "1 / r \<le> 2 ^ L"
      using kt by (blast intro: le_less_trans order_trans)+
    then have "1 / 2 ^ L \<le> r" "r < 1 / 2 ^ (L - 1)"
      using assms by (simp_all add: field_simps)
    moreover have "ilog2 r = - int L"
      using False by (simp add: ilog2_def L_def k_def)
    moreover have "(2::rat) powi (- int L) = 1 / 2 ^ L"
      by (simp add: power_int_minus divide_inverse)
    moreover have "(2::rat) powi (- int L + 1) = 1 / 2 ^ (L - 1)"
    proof -
      have e: "- int L + 1 = - int (L - 1)" using L(1) by simp
      show ?thesis unfolding e power_int_minus by (simp add: divide_inverse)
    qed
    ultimately show ?thesis by simp
  qed
  then show "2 powi ilog2 r \<le> r" and "r < 2 powi (ilog2 r + 1)" by auto
qed

lemma powi_less_cancel: "(2::rat) powi a < 2 powi b \<Longrightarrow> a < b"
  by (metis (no_types, lifting) linorder_not_less one_le_numeral power_int_increasing)

lemma ilog2_eqI:
  assumes "2 powi k \<le> r" and "r < 2 powi (k + 1)"
  shows "ilog2 r = k"
proof -
  have "0 < r" using assms(1) by (rule less_le_trans [rotated]) simp
  from ilog2_bounds [OF this] assms
  have "(2::rat) powi ilog2 r < 2 powi (k + 1)" "(2::rat) powi k < 2 powi (ilog2 r + 1)"
    by linarith+
  then have "ilog2 r < k + 1" "k < ilog2 r + 1"
    by (blast dest: powi_less_cancel)+
  then show ?thesis by simp
qed

lemma half_even_between: "\<lfloor>m\<rfloor> \<le> half_even m" "half_even m \<le> \<lceil>m\<rceil>"
proof -
  have "\<lfloor>m\<rfloor> + 1 \<le> \<lceil>m\<rceil>" if "\<not> m - of_int \<lfloor>m\<rfloor> < 1 / 2"
    using that by linarith
  moreover have "\<lfloor>m\<rfloor> \<le> \<lceil>m\<rceil>" by linarith
  ultimately show "\<lfloor>m\<rfloor> \<le> half_even m" "half_even m \<le> \<lceil>m\<rceil>"
    by (auto simp: half_even_def Let_def)
qed

lemma round_magnitude_between:
  "\<lfloor>m\<rfloor> \<le> round_magnitude R neg m" "round_magnitude R neg m \<le> \<lceil>m\<rceil>"
  using half_even_between [of m] floor_le_ceiling [of m]
  by (cases R; auto)+

lemma round_magnitude_le: "m \<le> of_int z \<Longrightarrow> round_magnitude R neg m \<le> z"
  using round_magnitude_between(2) [of R neg m] by (simp add: ceiling_le_iff le_ceiling_iff order_trans)

lemma round_magnitude_ge: "of_int z \<le> m \<Longrightarrow> z \<le> round_magnitude R neg m"
  using round_magnitude_between(1) [of m R neg] by (meson le_floor_iff order_trans)

lemma round_magnitude_int [simp]: "round_magnitude R neg (of_int z) = z"
  by (simp add: antisym round_magnitude_ge round_magnitude_le)

text \<open>A multiple of a power of two at or above the quantum bounds the rounded magnitude.\<close>

definition rounded :: "fformat \<Rightarrow> rounding \<Rightarrow> rat \<Rightarrow> rat" where
  "rounded F R r =
     of_int (round_magnitude R (r < 0) (\<bar>r\<bar> / 2 powi quantum F r)) * 2 powi quantum F r"

lemma fl_round_rounded:
  "r \<noteq> 0 \<Longrightarrow> fl_round F R r =
     (if fmax F < rounded F R r then fl_overflow F R (r < 0)
      else Fin (if r < 0 then - rounded F R r else rounded F R r))"
  by (simp add: fl_round_def rounded_def Let_def)

lemma grid_multiple:
  fixes q k :: int
  assumes "q \<le> k"
  shows "\<exists>z'. (of_int z * 2 powi k :: rat) = of_int z' * 2 powi q"
proof -
  have "(2::rat) powi k = 2 ^ nat (k - q) * 2 powi q"
    using assms power_int_add [of "2::rat" "k - q" q] by (simp add: power_int_def)
  then have "(of_int z * 2 powi k :: rat) = of_int (z * 2 ^ nat (k - q)) * 2 powi q"
    by simp
  then show ?thesis by blast
qed

lemma rounded_le_grid:
  assumes "\<bar>r\<bar> \<le> of_int z * 2 powi k" and "quantum F r \<le> k"
  shows "rounded F R r \<le> of_int z * 2 powi k"
proof -
  obtain z' where z': "(of_int z * 2 powi k :: rat) = of_int z' * 2 powi quantum F r"
    using grid_multiple [OF assms(2)] by blast
  then have "\<bar>r\<bar> / 2 powi quantum F r \<le> of_int z'"
    using assms(1) by (simp add: divide_le_eq)
  then have "round_magnitude R (r < 0) (\<bar>r\<bar> / 2 powi quantum F r) \<le> z'"
    by (rule round_magnitude_le)
  then show ?thesis
    unfolding rounded_def z' by (simp add: mult_right_mono)
qed

lemma rounded_ge_grid:
  assumes "of_int z * 2 powi k \<le> \<bar>r\<bar>" and "quantum F r \<le> k"
  shows "of_int z * 2 powi k \<le> rounded F R r"
proof -
  obtain z' where z': "(of_int z * 2 powi k :: rat) = of_int z' * 2 powi quantum F r"
    using grid_multiple [OF assms(2)] by blast
  then have "of_int z' \<le> \<bar>r\<bar> / 2 powi quantum F r"
    using assms(1) by (simp add: le_divide_eq)
  then have "z' \<le> round_magnitude R (r < 0) (\<bar>r\<bar> / 2 powi quantum F r)"
    by (rule round_magnitude_ge)
  then show ?thesis
    unfolding rounded_def z' by (simp add: mult_right_mono)
qed

lemma rounded_nonneg: "0 \<le> rounded F R r"
  unfolding rounded_def by (auto intro!: mult_nonneg_nonneg round_magnitude_ge)

text \<open>A format as IEEE describes it: at least one significand bit and an exponent range.\<close>

definition sane_format :: "fformat \<Rightarrow> bool" where
  "sane_format F \<longleftrightarrow> 1 \<le> prec F \<and> 1 \<le> emax F"

lemma sane_formats [simp]:
  "sane_format binary64" "sane_format x87_extended" "sane_format binary128"
  by (simp_all add: sane_format_def)

lemma fmax_less: "fmax F < 2 powi (emax F + 1)"
proof -
  have "(2::rat) powi (emax F + 1) = 2 ^ prec F * 2 powi (emax F - int (prec F) + 1)"
    using power_int_add [of "2::rat" "int (prec F)" "emax F - int (prec F) + 1"] by simp
  then show ?thesis by (simp add: fmax_def)
qed

lemma fmax_pos: "sane_format F \<Longrightarrow> 0 < fmax F"
proof -
  assume "sane_format F"
  then have "(1::rat) < 2 ^ prec F" by (simp add: sane_format_def)
  then show ?thesis by (simp add: fmax_def)
qed

lemma quantum_le:
  assumes "r \<noteq> 0" and "\<bar>r\<bar> < 2 powi (k + int (prec F))" and "2 - emax F - int (prec F) \<le> k"
  shows "quantum F r \<le> k"
proof -
  have "(2::rat) powi ilog2 \<bar>r\<bar> < 2 powi (k + int (prec F))"
    using ilog2_bounds(1) [of "\<bar>r\<bar>"] assms(1,2) by simp
  then have "ilog2 \<bar>r\<bar> < k + int (prec F)" by (rule powi_less_cancel)
  then show ?thesis using assms(3) by (simp add: quantum_def)
qed

lemma rounded_le_fmax:
  assumes "sane_format F" and "r \<noteq> 0" and "\<bar>r\<bar> \<le> fmax F"
  shows "rounded F R r \<le> fmax F"
proof -
  let ?k = "emax F - int (prec F) + 1"
  have f: "fmax F = of_int (2 ^ prec F - 1) * 2 powi ?k" by (simp add: fmax_def)
  have "quantum F r \<le> ?k"
  proof (rule quantum_le [OF assms(2)])
    show "\<bar>r\<bar> < 2 powi (?k + int (prec F))"
      using assms(3) fmax_less [of F] by (simp add: add.commute)
    show "2 - emax F - int (prec F) \<le> ?k"
      using assms(1) by (simp add: sane_format_def)
  qed
  with assms(3) show ?thesis unfolding f by (rule rounded_le_grid)
qed

lemma fl_round_0 [simp]: "fl_round F R 0 = Fin 0"
  by (simp add: fl_round_def)

text \<open>No rounding mode turns a number within the format's range into an infinity.\<close>

lemma fl_round_finite:
  assumes "sane_format F" and "\<bar>r\<bar> \<le> fmax F"
  shows "is_finite (fl_round F R r)"
  using rounded_le_fmax [OF assms(1) _ assms(2), of R]
  by (cases "r = 0") (simp_all add: fl_round_rounded)

text \<open>A number the format has is its own rounding.\<close>

lemma fl_round_exact:
  assumes "sane_format F" and r: "r = of_int m * 2 powi e" and m: "\<bar>m\<bar> < 2 ^ prec F"
    and e: "2 - emax F - int (prec F) \<le> e" and "\<bar>r\<bar> \<le> fmax F"
  shows "fl_round F R r = Fin r"
proof (cases "r = 0")
  case False
  have "\<bar>r\<bar> < 2 powi (e + int (prec F))"
  proof -
    have "\<bar>rat_of_int m\<bar> < 2 ^ prec F"
      using m by (metis of_int_abs of_int_less_iff of_int_numeral of_int_power)
    then show ?thesis by (simp add: r abs_mult power_int_add mult.commute)
  qed
  then have q: "quantum F r \<le> e" using False e by (intro quantum_le)
  have "\<bar>r\<bar> = of_int \<bar>m\<bar> * 2 powi e" by (simp add: r abs_mult)
  then have "rounded F R r = \<bar>r\<bar>"
    using rounded_le_grid [OF _ q] rounded_ge_grid [OF _ q] by (metis antisym order_refl)
  then show ?thesis using False assms(5) by (simp add: fl_round_rounded abs_if split: if_splits)
qed simp

lemma pow2_le_fmax:
  assumes "sane_format F" and "k \<le> emax F"
  shows "2 powi k \<le> fmax F"
proof -
  have "(2::rat) powi k \<le> 2 powi emax F"
    using assms(2) by (intro power_int_increasing) auto
  also have "\<dots> = 2 ^ (prec F - 1) * 2 powi (emax F - int (prec F) + 1)"
  proof -
    have "int (prec F - 1) + (emax F - int (prec F) + 1) = emax F"
      using assms(1) by (simp add: sane_format_def of_nat_diff)
    then show ?thesis
      using power_int_add [of "2::rat" "int (prec F - 1)" "emax F - int (prec F) + 1"]
      by (simp only: power_int_of_nat) simp
  qed
  also have "(2::rat) ^ (prec F - 1) \<le> 2 ^ prec F - 1"
    using assms(1) power_increasing [of 0 "prec F - 1" "2::rat"]
    by (cases "prec F") (auto simp: sane_format_def)
  finally show ?thesis by (simp add: fmax_def)
qed

text \<open>Rounding a number between two powers of two stays between them.\<close>

lemma fl_round_between:
  assumes "sane_format F" and "2 powi a \<le> r" and "r \<le> 2 powi b"
    and "2 - emax F - int (prec F) \<le> a" and "b \<le> emax F"
  shows "\<exists>v. fl_round F R r = Fin v \<and> 2 powi a \<le> v \<and> v \<le> 2 powi b"
proof -
  have r: "0 < r" using assms(2) by (rule less_le_trans [rotated]) simp
  note lb = ilog2_bounds [OF r]
  have ra: "a \<le> ilog2 r"
    using powi_less_cancel [of a "ilog2 r + 1"] assms(2) lb(2) by simp
  have rb: "ilog2 r \<le> b"
    using powi_less_cancel [of "ilog2 r" "b + 1"] assms(3) lb(1)
      power_int_strict_increasing [of b "b + 1" "2::rat"] by simp
  have q: "quantum F r \<le> ilog2 r"
    using r ra assms(1,4) by (simp add: quantum_def sane_format_def)
  have "2 powi ilog2 r \<le> rounded F R r"
    using rounded_ge_grid [of 1 "ilog2 r" r F R] lb(1) r q by simp
  moreover have "(2::rat) powi a \<le> 2 powi ilog2 r"
    using ra by (intro power_int_increasing) auto
  ultimately have lo: "2 powi a \<le> rounded F R r" by linarith
  have hi: "rounded F R r \<le> 2 powi b"
    using rounded_le_grid [of r 1 b F R] r assms(3) q rb by simp
  show ?thesis
    using lo hi r pow2_le_fmax [OF assms(1,5)] by (simp add: fl_round_rounded)
qed

lemma fl_round_int:
  assumes "sane_format F" and "\<bar>z\<bar> < 2 ^ prec F" and "int (prec F) \<le> emax F"
  shows "fl_round F R (of_int z) = Fin (of_int z)"
proof (rule fl_round_exact [OF assms(1) _ assms(2), where e = 0])
  have "\<bar>rat_of_int z\<bar> < 2 ^ prec F"
    using assms(2) by (metis of_int_abs of_int_less_iff of_int_numeral of_int_power)
  also have "\<dots> \<le> fmax F"
    using pow2_le_fmax [OF assms(1,3)] by simp
  finally show "\<bar>rat_of_int z\<bar> \<le> fmax F" by simp
qed (use assms(1,3) in \<open>auto simp: sane_format_def\<close>)

text \<open>Rounding a non-negative number never passes a power of two from below.\<close>

lemma fl_round_le_pow2:
  assumes "sane_format F" and "0 \<le> r" and "r \<le> 2 powi k"
    and "2 - emax F - int (prec F) \<le> k" and "k \<le> emax F"
  shows "\<exists>v. fl_round F R r = Fin v \<and> 0 \<le> v \<and> v \<le> 2 powi k"
proof (cases "r = 0")
  case False
  have "\<bar>r\<bar> < 2 powi (k + int (prec F))"
    using assms(1-3) power_int_strict_increasing [of k "k + int (prec F)" "2::rat"]
    by (simp add: sane_format_def)
  then have "quantum F r \<le> k" using False assms(4) by (intro quantum_le)
  then have "rounded F R r \<le> 2 powi k"
    using rounded_le_grid [of r 1 k F R] assms(2,3) by simp
  then show ?thesis
    using assms(2) False rounded_nonneg [of F R r] pow2_le_fmax [OF assms(1,5)]
    by (auto simp: fl_round_rounded)
qed auto

text \<open>A finite result of rounding never falls below a power of two.\<close>

lemma fl_round_ge_pow2:
  assumes "sane_format F" and "2 powi a \<le> r" and "2 - emax F - int (prec F) \<le> a" and "a \<le> emax F"
    and "fl_round F R r = Fin v"
  shows "2 powi a \<le> v"
proof -
  have r: "0 < r" using assms(2) by (rule less_le_trans [rotated]) simp
  note lb = ilog2_bounds [OF r]
  have ra: "a \<le> ilog2 r"
    using powi_less_cancel [of a "ilog2 r + 1"] assms(2) lb(2) by simp
  have "quantum F r \<le> ilog2 r"
    using r ra assms(1,3) by (simp add: quantum_def sane_format_def)
  then have "2 powi ilog2 r \<le> rounded F R r"
    using rounded_ge_grid [of 1 "ilog2 r" r F R] lb(1) r by simp
  moreover have "(2::rat) powi a \<le> 2 powi ilog2 r"
    using ra by (intro power_int_increasing) auto
  ultimately have lo: "2 powi a \<le> rounded F R r" by linarith
  show ?thesis
    using lo r assms(5) pow2_le_fmax [OF assms(1,4)]
    by (cases R) (auto simp: fl_round_rounded split: if_splits)
qed

text \<open>Evaluation of round-to-nearest away from ties.\<close>

text \<open>A number of the format stays one when it is doubled.\<close>

lemma quantum_double: "0 < r \<Longrightarrow> quantum F (r * 2) \<le> quantum F r + 1"
proof -
  assume r: "0 < r"
  have "ilog2 (r * 2) = ilog2 r + 1"
    using ilog2_bounds [OF r] by (intro ilog2_eqI) (simp_all add: power_int_add)
  then show ?thesis using r by (auto simp: quantum_def max_def)
qed

lemma quantum_scaled: "0 < r \<Longrightarrow> quantum F (r * 2 ^ k) \<le> quantum F r + int k"
proof (induction k)
  case (Suc k)
  then show ?case using quantum_double [of "r * 2 ^ k" F] by (simp add: mult_ac)
qed simp

lemma fl_round_scaled:
  assumes "fl_in F (Fin r)" and "0 < r" and "r * 2 ^ k \<le> fmax F"
  shows "fl_round F R (r * 2 ^ k) = Fin (r * 2 ^ k)"
proof -
  have p: "0 < r * 2 ^ k" using assms(2) by simp
  have "rounded F ToNearest r = r"
    using assms(1,2) by (cases "fmax F < rounded F ToNearest r") (simp_all add: fl_round_rounded)
  then obtain z where "r = of_int z * 2 powi quantum F r" unfolding rounded_def by metis
  then have z: "r * 2 ^ k = of_int z * 2 powi (quantum F r + int k)"
    by (metis (no_types) mult.assoc power_int_add power_int_of_nat zero_neq_numeral)
  have q: "quantum F (r * 2 ^ k) \<le> quantum F r + int k" by (rule quantum_scaled [OF assms(2)])
  have "rounded F R (r * 2 ^ k) = r * 2 ^ k"
    using rounded_le_grid [OF _ q, of z R] rounded_ge_grid [OF _ q, of z R] z p by (simp add: antisym)
  moreover have "0 < x \<Longrightarrow> x \<le> fmax F \<Longrightarrow> rounded F R x = x \<Longrightarrow> fl_round F R x = Fin x" for x
    by (simp add: fl_round_rounded)
  ultimately show ?thesis using assms(3) p by blast
qed

lemma half_even_eqI:
  assumes "\<bar>m - of_int z\<bar> < 1 / 2"
  shows "half_even m = z"
proof -
  have "\<lfloor>m\<rfloor> = z \<or> \<lfloor>m\<rfloor> = z - 1" using assms by linarith
  then show ?thesis using assms by (auto simp: half_even_def Let_def)
qed

lemma fl_round_nearest_eqI:
  assumes "2 powi k \<le> r" and "r < 2 powi (k + 1)"
    and "q = max (k - int (prec F) + 1) (2 - emax F - int (prec F))"
    and "\<bar>r / 2 powi q - of_int z\<bar> < 1 / 2" and "of_int z * 2 powi q \<le> fmax F"
  shows "fl_round F ToNearest r = Fin (of_int z * 2 powi q)"
proof -
  have r: "0 < r" using assms(1) by (rule less_le_trans [rotated]) simp
  have "quantum F r = q"
    using r assms(3) ilog2_eqI [OF assms(1,2)] by (simp add: quantum_def)
  then have "rounded F ToNearest r = of_int z * 2 powi q"
    using r half_even_eqI [OF assms(4)] by (simp add: rounded_def)
  then show ?thesis using r assms(5) by (simp add: fl_round_rounded)
qed

end
