(* ===== verification/Types.thy ===== *)
theory Types
  imports Float_Model
begin

text \<open>
  The public data types of the library (\<open>core/include/netft/types.hpp\<close>), their textual names and
  the validation of a configuration (\<open>core/src/types.cpp\<close>), with the checked clock arithmetic of
  \<open>core/src/detail/time.hpp\<close> it uses. The lemmas show that names and units correspond one to one,
  that a checked duration or deadline is in the range of the clock, that the documented reasons for
  rejecting a configuration are exactly the ones applied, and that a validated calibration converts
  every 32-bit count to a finite number under every rounding mode.
\<close>

section \<open>Enumerations\<close>

datatype force_unit =
    ForceUnknown | PoundForce | Newton | KiloPoundForce | KiloNewton | KilogramForce

datatype torque_unit =
    TorqueUnknown | PoundForceInch | PoundForceFoot | NewtonMeter | NewtonMillimeter
  | KilogramForceCentimeter | KiloNewtonMeter

datatype calibration_source = Sensor | Override

datatype recovery_policy = Reconnect | FailStop

datatype client_state = Stopped | Connecting | Streaming | Backoff | Faulted

datatype fault_code =
    FaultNone | FaultSensorConfiguration | FaultTimeout | FaultSocket | FaultSeriousStatus
  | FaultFtStall | FaultFtBackward | FaultMalformedStorm | FaultCallback

section \<open>Structures\<close>

record calibration =
  counts_per_force_unit :: fl
  counts_per_torque_unit :: fl
  force_unit :: force_unit
  torque_unit :: torque_unit

record sensor_configuration =
  product_name :: string
  calibration :: calibration
  source :: calibration_source
  revision :: u64

record config =
  sensor_host :: string
  rdt_port :: int
  http_port :: int
  receive_timeout :: fl
  configuration_connect_timeout :: fl
  configuration_timeout :: fl
  reconnect_initial_delay :: fl
  reconnect_max_delay :: fl
  sample_rate_limit_hz :: fl
  deliver_samples_with_error_status :: bool
  recovery_policy :: recovery_policy
  calibration_override :: "calibration option"

record sample =
  s_rdt_sequence :: u32
  s_ft_sequence :: u32
  s_status :: u32
  s_raw_wrench :: "int list"
  s_force :: "fl list"
  s_torque :: "fl list"
  s_force_unit :: force_unit
  s_torque_unit :: torque_unit
  s_configuration_revision :: u64
  s_received_at :: time_point

record health =
  h_state :: client_state
  h_fault_code :: fault_code
  h_sensor_host :: string
  h_rdt_port :: int
  h_sensor_configuration :: "sensor_configuration option"
  h_last_rdt_sequence :: "u32 option"
  h_last_ft_sequence :: "u32 option"
  h_last_status :: u32
  h_receive_rate_hz :: fl
  h_delivery_rate_hz :: fl
  h_received_count :: u64
  h_delivered_count :: u64
  h_rate_limited_count :: u64
  h_device_error_count :: u64
  h_warning_count :: u64
  h_lost_count :: u64
  h_duplicate_count :: u64
  h_out_of_order_count :: u64
  h_malformed_count :: u64
  h_reconnect_count :: u64
  h_timeout_count :: u64
  h_callback_error_count :: u64
  h_ft_stall_count :: u64
  h_ft_backward_count :: u64
  h_ft_restart_count :: u64
  h_calibration_change_count :: u64
  h_last_record_age :: "fl option"
  h_last_error :: string
  h_last_ft_progress :: string

text \<open>The snapshot a default-constructed \<open>HealthSnapshot\<close> holds.\<close>

definition health_default :: health where
  "health_default = \<lparr>
     h_state = Stopped, h_fault_code = FaultNone, h_sensor_host = [], h_rdt_port = 0,
     h_sensor_configuration = None, h_last_rdt_sequence = None, h_last_ft_sequence = None,
     h_last_status = 0, h_receive_rate_hz = Fin 0, h_delivery_rate_hz = Fin 0,
     h_received_count = 0, h_delivered_count = 0, h_rate_limited_count = 0,
     h_device_error_count = 0, h_warning_count = 0, h_lost_count = 0,
     h_duplicate_count = 0, h_out_of_order_count = 0, h_malformed_count = 0,
     h_reconnect_count = 0, h_timeout_count = 0, h_callback_error_count = 0,
     h_ft_stall_count = 0, h_ft_backward_count = 0, h_ft_restart_count = 0,
     h_calibration_change_count = 0, h_last_record_age = None, h_last_error = [],
     h_last_ft_progress = ''unknown''\<rparr>"

section \<open>The platform\<close>

text \<open>
  What the C++ implementation leaves to the platform: the format of \<open>long double\<close>, the largest
  \<open>long\<close>, and the floating-point rounding mode in force when the code runs.
\<close>

record platform =
  long_double :: fformat
  long_max :: int
  rounding_mode :: rounding

definition std_platform :: "platform \<Rightarrow> bool" where
  "std_platform P \<longleftrightarrow>
     (long_double P = binary64 \<or> long_double P = x87_extended \<or> long_double P = binary128) \<and>
     2 ^ 31 - 1 \<le> long_max P \<and> long_max P \<le> 2 ^ 63 - 1"

definition linux_x86_64 :: platform where
  "linux_x86_64 = \<lparr>long_double = x87_extended, long_max = 2 ^ 63 - 1, rounding_mode = ToNearest\<rparr>"

definition macos_arm64 :: platform where
  "macos_arm64 = \<lparr>long_double = binary64, long_max = 2 ^ 63 - 1, rounding_mode = ToNearest\<rparr>"

definition windows_x86_64 :: platform where
  "windows_x86_64 = \<lparr>long_double = binary64, long_max = 2 ^ 31 - 1, rounding_mode = ToNearest\<rparr>"

text \<open>A literal of type \<open>double\<close>: the nearest value, whatever the mode at run time.\<close>

definition double_lit :: "rat \<Rightarrow> fl" where
  "double_lit r = fl_round binary64 ToNearest r"

definition config_default :: config where
  "config_default = \<lparr>
     sensor_host = ''192.168.1.1'', rdt_port = 49152, http_port = 80,
     receive_timeout = double_lit (1 / 10),
     configuration_connect_timeout = double_lit (1 / 2),
     configuration_timeout = double_lit 1,
     reconnect_initial_delay = double_lit (1 / 4),
     reconnect_max_delay = double_lit 5,
     sample_rate_limit_hz = double_lit 0,
     deliver_samples_with_error_status = False,
     recovery_policy = Reconnect,
     calibration_override = None\<rparr>"

section \<open>Checked clock arithmetic\<close>

definition steady_max :: ticks where
  "steady_max = 2 ^ 63 - 1"

definition steady_ticks :: "platform \<Rightarrow> fl \<Rightarrow> fl" where
  "steady_ticks P d =
     (let F = long_double P; R = rounding_mode P in
      fl_div F R (fl_mul F R (fl_convert F R d) (fl_of_int F R 1000000000)) (fl_of_int F R 1))"

fun fl_to_int :: "fl \<Rightarrow> int" where
  "fl_to_int (Fin r) = rat_trunc r"
| "fl_to_int _ = 0"

definition checked_duration :: "platform \<Rightarrow> fl \<Rightarrow> ticks res" where
  "checked_duration P d =
     (let t = steady_ticks P d in
      if \<not> is_finite t \<or> fl_less t (Fin 0)
         \<or> fl_le (fl_of_int (long_double P) (rounding_mode P) steady_max) t
      then Inl (InvalidArgument ''duration is outside the supported steady-clock range'')
      else Inr (fl_to_int t))"

definition checked_deadline :: "platform \<Rightarrow> time_point \<Rightarrow> fl \<Rightarrow> time_point res" where
  "checked_deadline P origin d =
     res_bind (checked_duration P d) (\<lambda>ticks.
       if origin > steady_max - ticks
       then Inl (InvalidArgument ''deadline is outside the supported steady-clock range'')
       else Inr (origin + ticks))"

section \<open>Validation\<close>

definition is_blank :: "string \<Rightarrow> bool" where
  "is_blank v \<longleftrightarrow> v = [] \<or> list_all ascii_space v"

definition require_positive_finite :: "string \<Rightarrow> fl \<Rightarrow> unit res" where
  "require_positive_finite name v =
     (if \<not> is_finite v \<or> fl_le v (Fin 0)
      then Inl (InvalidArgument (name @ '' must be finite and positive'')) else Inr ())"

definition http_milliseconds :: "platform \<Rightarrow> fl \<Rightarrow> fl" where
  "http_milliseconds P v =
     (let F = long_double P; R = rounding_mode P in
      fl_ceil (fl_mul F R (fl_convert F R v) (Fin 1000)))"

text \<open>\<open>now\<close> is what the clock returns at the call to \<open>SteadyClock::now()\<close>.\<close>

definition require_safe_timeout ::
  "platform \<Rightarrow> time_point \<Rightarrow> string \<Rightarrow> fl \<Rightarrow> bool \<Rightarrow> unit res" where
  "require_safe_timeout P now name v http =
     res_bind (require_positive_finite name v) (\<lambda>_.
     res_bind (checked_duration P v) (\<lambda>ticks.
     if ticks \<le> 0
     then Inl (InvalidArgument (name @ '' is below the steady-clock resolution''))
     else res_bind (checked_deadline P now v) (\<lambda>_.
     if http \<and> fl_le (fl_of_int (long_double P) (rounding_mode P) (long_max P)) (http_milliseconds P v)
     then Inl (InvalidArgument (name @ '' is outside the HTTP timer range''))
     else Inr ())))"

definition require_port :: "string \<Rightarrow> int \<Rightarrow> unit res" where
  "require_port name v =
     (if v < 1 \<or> v > 65535
      then Inl (InvalidArgument (name @ '' must be in the range 1..65535'')) else Inr ())"

text \<open>
  \<open>minimum\<close> is a constant expression, evaluated by the compiler in round-to-nearest: the magnitude
  of the smallest 32-bit integer, divided by the largest \<open>double\<close>, times one plus the machine
  epsilon.
\<close>

definition safe_count_minimum :: fl where
  "safe_count_minimum =
     (let F = binary64; R = ToNearest;
          magnitude = fl_uminus (fl_of_int F R (- (2 ^ 31))) in
      fl_mul F R (fl_div F R magnitude (Fin (fmax F)))
                 (fl_add F R (Fin 1) (Fin (2 powi (- 52)))))"

definition require_safe_count :: "string \<Rightarrow> fl \<Rightarrow> unit res" where
  "require_safe_count name v =
     res_bind (require_positive_finite name v) (\<lambda>_.
     if fl_less v safe_count_minimum
     then Inl (InvalidArgument (name @ '' cannot represent the full raw count range''))
     else Inr ())"

definition validate_calibration :: "calibration \<Rightarrow> unit res" where
  "validate_calibration c =
     res_bind (require_safe_count ''counts_per_force_unit'' (counts_per_force_unit c)) (\<lambda>_.
     res_bind (require_safe_count ''counts_per_torque_unit'' (counts_per_torque_unit c)) (\<lambda>_.
     if force_unit c = ForceUnknown \<or> torque_unit c = TorqueUnknown
     then Inl (InvalidArgument ''calibration units must be known'')
     else Inr ()))"

text \<open>The clock is read once for each timeout: \<open>clock i\<close> is the reading for the \<open>i\<close>-th one.\<close>

definition validate_config :: "platform \<Rightarrow> (nat \<Rightarrow> time_point) \<Rightarrow> config \<Rightarrow> unit res" where
  "validate_config P clock c =
     (if is_blank (sensor_host c) then Inl (InvalidArgument ''sensor_host must not be blank'')
      else
     res_bind (require_port ''rdt_port'' (rdt_port c)) (\<lambda>_.
     res_bind (require_port ''http_port'' (http_port c)) (\<lambda>_.
     res_bind (require_safe_timeout P (clock 0) ''receive_timeout'' (receive_timeout c) False) (\<lambda>_.
     res_bind (require_safe_timeout P (clock 1) ''configuration_connect_timeout''
                (configuration_connect_timeout c) True) (\<lambda>_.
     res_bind (require_safe_timeout P (clock 2) ''configuration_timeout''
                (configuration_timeout c) True) (\<lambda>_.
     res_bind (require_safe_timeout P (clock 3) ''reconnect_initial_delay''
                (reconnect_initial_delay c) False) (\<lambda>_.
     res_bind (require_safe_timeout P (clock 4) ''reconnect_max_delay''
                (reconnect_max_delay c) False) (\<lambda>_.
     if fl_less (reconnect_max_delay c) (reconnect_initial_delay c)
     then Inl (InvalidArgument ''reconnect_max_delay must not be below reconnect_initial_delay'')
     else if \<not> is_finite (sample_rate_limit_hz c) \<or> fl_less (sample_rate_limit_hz c) (Fin 0)
     then Inl (InvalidArgument ''sample_rate_limit_hz must be finite and non-negative'')
     else case calibration_override c of None \<Rightarrow> Inr () | Some k \<Rightarrow> validate_calibration k))))))))"

section \<open>Names\<close>

fun force_unit_to_string :: "force_unit \<Rightarrow> string" where
  "force_unit_to_string PoundForce = ''lbf''"
| "force_unit_to_string Newton = ''N''"
| "force_unit_to_string KiloPoundForce = ''klbf''"
| "force_unit_to_string KiloNewton = ''kN''"
| "force_unit_to_string KilogramForce = ''kgf''"
| "force_unit_to_string ForceUnknown = ''unknown''"

fun torque_unit_to_string :: "torque_unit \<Rightarrow> string" where
  "torque_unit_to_string PoundForceInch = ''lbf-in''"
| "torque_unit_to_string PoundForceFoot = ''lbf-ft''"
| "torque_unit_to_string NewtonMeter = ''N-m''"
| "torque_unit_to_string NewtonMillimeter = ''N-mm''"
| "torque_unit_to_string KilogramForceCentimeter = ''kgf-cm''"
| "torque_unit_to_string KiloNewtonMeter = ''kN-m''"
| "torque_unit_to_string TorqueUnknown = ''unknown''"

definition force_unit_from_string :: "string \<Rightarrow> force_unit option" where
  "force_unit_from_string v =
     find (\<lambda>u. force_unit_to_string u = v)
       [ForceUnknown, PoundForce, Newton, KiloPoundForce, KiloNewton, KilogramForce]"

definition torque_unit_from_string :: "string \<Rightarrow> torque_unit option" where
  "torque_unit_from_string v =
     find (\<lambda>u. torque_unit_to_string u = v)
       [TorqueUnknown, PoundForceInch, PoundForceFoot, NewtonMeter, NewtonMillimeter,
        KilogramForceCentimeter, KiloNewtonMeter]"

fun client_state_to_string :: "client_state \<Rightarrow> string" where
  "client_state_to_string Stopped = ''stopped''"
| "client_state_to_string Connecting = ''connecting''"
| "client_state_to_string Streaming = ''streaming''"
| "client_state_to_string Backoff = ''backoff''"
| "client_state_to_string Faulted = ''faulted''"

fun fault_code_to_string :: "fault_code \<Rightarrow> string" where
  "fault_code_to_string FaultNone = ''none''"
| "fault_code_to_string FaultSensorConfiguration = ''sensor_configuration''"
| "fault_code_to_string FaultTimeout = ''timeout''"
| "fault_code_to_string FaultSocket = ''socket''"
| "fault_code_to_string FaultSeriousStatus = ''serious_status''"
| "fault_code_to_string FaultFtStall = ''ft_stall''"
| "fault_code_to_string FaultFtBackward = ''ft_backward''"
| "fault_code_to_string FaultMalformedStorm = ''malformed_storm''"
| "fault_code_to_string FaultCallback = ''callback''"

section \<open>Facts about the validation\<close>

lemma fmax_binary64: "fmax binary64 = (2 ^ 53 - 1) * 2 ^ 971"
  by (simp add: fmax_def)

lemma safe_count_minimum_eq: "safe_count_minimum = Fin ((2 ^ 51 + 1) * 2 powi (- 1044))"
proof -
  let ?F = binary64
  have a: "fl_of_int ?F ToNearest (- (2 ^ 31)) = Fin (- (2 ^ 31))"
    using fl_round_int [of ?F "- (2 ^ 31)" ToNearest] by (simp add: fl_of_int_def)
  have b: "fl_round ?F ToNearest (2 ^ 31 / fmax ?F) = Fin (of_int (2 ^ 52 + 1) * 2 powi (- 1045))"
    by (rule fl_round_nearest_eqI [where k = "- 993"])
      (simp_all add: fmax_binary64)
  have c: "fl_round ?F ToNearest (1 + 2 powi (- 52)) = Fin (1 + 2 powi (- 52))"
    by (rule fl_round_exact [where m = "2 ^ 52 + 1" and e = "- 52"])
      (simp_all add: fmax_binary64)
  have d: "fl_round ?F ToNearest (of_int (2 ^ 52 + 1) * 2 powi (- 1045) * (1 + 2 powi (- 52)))
      = Fin (of_int (2 ^ 52 + 2) * 2 powi (- 1045))"
    by (rule fl_round_nearest_eqI [where k = "- 993"])
      (simp_all add: fmax_binary64)
  have f: "fmax ?F \<noteq> 0" using fmax_pos [of ?F] by simp
  show ?thesis
    unfolding safe_count_minimum_def Let_def a fl_uminus.simps fl_div.simps fl_add.simps minus_minus
    by (simp only: f if_False b c fl_mul.simps d) simp
qed

text \<open>
  The smallest accepted divisor keeps the quotient of the largest count below the largest finite
  number with room to spare, so no rounding direction can overflow.
\<close>

lemma safe_count_divides:
  assumes "require_safe_count name v = Inr ()" and "- (2 ^ 31) \<le> n" and "n < 2 ^ 31"
  shows "is_finite (fl_div binary64 R (fl_of_int binary64 R n) v)"
proof -
  from assms(1) obtain r where v: "v = Fin r" and r: "(2 ^ 51 + 1) * 2 powi (- 1044) \<le> r"
    by (cases v)
      (auto simp: require_safe_count_def require_positive_finite_def res_bind_Inr_iff
        safe_count_minimum_eq not_less split: if_splits)
  have r0: "0 < r" using r by (rule less_le_trans [rotated]) simp
  have n: "fl_of_int binary64 R n = Fin (of_int n)"
    using fl_round_int [of binary64 n R] assms(2,3) by (simp add: fl_of_int_def)
  have "\<bar>rat_of_int n\<bar> \<le> 2 ^ 31"
    using assms(2,3) by (simp add: abs_le_iff)
  also have "2 ^ 31 \<le> fmax binary64 * ((2 ^ 51 + 1) * 2 powi (- 1044))"
    by (simp add: fmax_binary64)
  also have "\<dots> \<le> fmax binary64 * r"
    using r fmax_pos [of binary64] by (intro mult_left_mono) auto
  finally have "\<bar>of_int n / r\<bar> \<le> fmax binary64"
    using r0 by (simp add: abs_divide divide_le_eq)
  then show ?thesis using v n r0 fl_round_finite [of binary64 "of_int n / r" R] by simp
qed

lemma validate_calibration_Inr_iff:
  "validate_calibration c = Inr () \<longleftrightarrow>
     require_safe_count ''counts_per_force_unit'' (counts_per_force_unit c) = Inr () \<and>
     require_safe_count ''counts_per_torque_unit'' (counts_per_torque_unit c) = Inr () \<and>
     force_unit c \<noteq> ForceUnknown \<and> torque_unit c \<noteq> TorqueUnknown"
  by (auto simp: validate_calibration_def res_bind_Inr_iff split: if_splits)

lemma std_platforms [simp]:
  "std_platform linux_x86_64" "std_platform macos_arm64" "std_platform windows_x86_64"
  by (simp_all add: std_platform_def linux_x86_64_def macos_arm64_def windows_x86_64_def)

lemma std_platformD:
  assumes "std_platform P"
  shows "sane_format (long_double P)" "53 \<le> prec (long_double P)" "prec (long_double P) \<le> 113"
    "1023 \<le> emax (long_double P)"
  using assms by (auto simp: std_platform_def)

lemma std_fl_between:
  assumes "std_platform P" and "2 powi a \<le> r" and "r \<le> 2 powi b" and "- 900 \<le> a" and "b \<le> 900"
  shows "\<exists>v. fl_round (long_double P) R r = Fin v \<and> 2 powi a \<le> v \<and> v \<le> 2 powi b"
  using std_platformD [OF assms(1)] assms(2-5) by (intro fl_round_between) auto

lemma std_fl_int:
  assumes "std_platform P" and "\<bar>z\<bar> < 2 ^ 53"
  shows "fl_of_int (long_double P) R z = Fin (of_int z)"
proof -
  have "\<bar>z\<bar> < 2 ^ prec (long_double P)"
    using assms(2) power_increasing [OF std_platformD(2) [OF assms(1)], of "2::int"] by simp
  then show ?thesis
    using std_platformD [OF assms(1)] by (simp add: fl_of_int_def fl_round_int)
qed

lemma steady_ticks_Fin:
  assumes "std_platform P"
  shows "steady_ticks P (Fin r) =
    (case fl_round (long_double P) (rounding_mode P) r of Fin x \<Rightarrow>
      (case fl_round (long_double P) (rounding_mode P) (x * 1000000000) of Fin y \<Rightarrow>
         fl_round (long_double P) (rounding_mode P) y | z \<Rightarrow> z) | z \<Rightarrow> z)"
  using std_fl_int [OF assms, of 1000000000] std_fl_int [OF assms, of 1]
  by (auto simp: steady_ticks_def Let_def split: fl.splits)

lemma checked_duration_range:
  assumes "std_platform P" and "checked_duration P d = Inr t"
  shows "0 \<le> t \<and> t \<le> steady_max"
proof -
  have "\<exists>M. fl_of_int (long_double P) (rounding_mode P) steady_max = Fin M \<and> 0 \<le> M \<and> M \<le> 2 powi 63"
    unfolding fl_of_int_def using std_platformD [OF assms(1)]
    by (intro fl_round_le_pow2) (auto simp: steady_max_def)
  then obtain M where M: "fl_of_int (long_double P) (rounding_mode P) steady_max = Fin M" "M \<le> 2 ^ 63"
    by auto
  from assms(2) M obtain r where "steady_ticks P d = Fin r" "0 \<le> r" "r < M" "t = \<lfloor>r\<rfloor>"
    by (cases "steady_ticks P d")
      (auto simp: checked_duration_def Let_def fl_le_def rat_trunc_def not_less split: if_splits)
  then show ?thesis using M(2) by (auto simp: steady_max_def floor_le_iff)
qed

lemma checked_deadline_range:
  assumes "std_platform P" and "checked_deadline P origin d = Inr t"
  shows "origin \<le> t \<and> t \<le> steady_max"
proof -
  from assms(2) obtain k where "checked_duration P d = Inr k" "t = origin + k" "origin \<le> steady_max - k"
    by (auto simp: checked_deadline_def res_bind_Inr_iff not_less split: if_splits)
  then show ?thesis using checked_duration_range [OF assms(1)] by fastforce
qed

text \<open>Ordinary timeouts, from a microsecond to six days, are accepted on every platform.\<close>

lemma checked_duration_ordinary:
  assumes "std_platform P" and "2 powi (- 20) \<le> r" and "r \<le> 2 ^ 19"
  shows "\<exists>t. checked_duration P (Fin r) = Inr t \<and> 0 < t \<and> t \<le> 2 ^ 49"
proof -
  let ?F = "long_double P" and ?R = "rounding_mode P"
  obtain x where x: "fl_round ?F ?R r = Fin x" "2 powi (- 20) \<le> x" "x \<le> 2 powi 19"
    using std_fl_between [OF assms(1,2), of 19 ?R] assms(3) by auto
  obtain y where y: "fl_round ?F ?R (x * 1000000000) = Fin y" "2 powi 9 \<le> y" "y \<le> 2 powi 49"
    using std_fl_between [OF assms(1), of 9 "x * 1000000000" 49 ?R] x(2,3) by auto
  obtain z where z: "fl_round ?F ?R y = Fin z" "2 powi 9 \<le> z" "z \<le> 2 powi 49"
    using std_fl_between [OF assms(1) y(2,3), of ?R] by auto
  obtain M where M: "fl_of_int ?F ?R steady_max = Fin M" "2 powi 62 \<le> M"
    using std_fl_between [OF assms(1), of 62 "of_int steady_max" 63 ?R]
    by (auto simp: steady_max_def fl_of_int_def)
  have s: "steady_ticks P (Fin r) = Fin z" using x y z by (simp add: steady_ticks_Fin [OF assms(1)])
  have "\<lfloor>z\<rfloor> \<le> 2 ^ 49" "1 \<le> \<lfloor>z\<rfloor>"
    using z by (auto simp: floor_le_iff le_floor_iff)
  then show ?thesis
    using s z M by (auto simp: checked_duration_def fl_le_def rat_trunc_def)
qed

lemma require_safe_timeout_ordinary:
  assumes "std_platform P" and "2 powi (- 20) \<le> r" and "r \<le> 2 ^ 19" and "now \<le> 2 ^ 62"
  shows "require_safe_timeout P now name (Fin r) http = Inr ()"
proof -
  let ?F = "long_double P" and ?R = "rounding_mode P"
  have r0: "0 < r" using assms(2) by (rule less_le_trans [rotated]) simp
  obtain t where t: "checked_duration P (Fin r) = Inr t" "0 < t" "t \<le> 2 ^ 49"
    using checked_duration_ordinary [OF assms(1-3)] by blast
  obtain x where x: "fl_round ?F ?R r = Fin x" "2 powi (- 20) \<le> x" "x \<le> 2 powi 19"
    using std_fl_between [OF assms(1,2), of 19 ?R] assms(3) by auto
  obtain y where y: "fl_round ?F ?R (x * 1000) = Fin y" "y \<le> 2 powi 29"
    using std_fl_between [OF assms(1), of "- 20" "x * 1000" 29 ?R] x(2,3) by auto
  obtain L where L: "fl_of_int ?F ?R (long_max P) = Fin L" "2 powi 30 \<le> L"
    using std_fl_between [OF assms(1), of 30 "of_int (long_max P)" 63 ?R] assms(1)
    by (auto simp: fl_of_int_def std_platform_def)
  have "of_int \<lceil>y\<rceil> < L"
  proof -
    have "\<lceil>y\<rceil> \<le> 2 ^ 29" using y(2) by (simp add: ceiling_le_iff)
    then have "rat_of_int \<lceil>y\<rceil> \<le> of_int (2 ^ 29)"
      by (simp only: of_int_le_iff)
    also have "\<dots> < L" using L(2) by simp
    finally show ?thesis .
  qed
  then have "\<not> fl_le (Fin L) (http_milliseconds P (Fin r))"
    using x y by (simp add: http_milliseconds_def fl_le_def)
  then show ?thesis
    using r0 t L(1) assms(4)
    by (simp add: require_safe_timeout_def require_positive_finite_def checked_deadline_def
        fl_le_def steady_max_def)
qed

section \<open>Properties\<close>

text \<open>
  C22. A calibration that \<open>validate\<close> accepts converts every signed 32-bit raw count to a finite
  force and a finite torque, whatever rounding direction is in force when the sample is scaled:
  the comment of \<open>require_safe_count\<close> is true of the constant the code computes.
\<close>

theorem validated_calibration_scales_finitely:
  assumes "validate_calibration c = Inr ()" and "- (2 ^ 31) \<le> n" and "n < 2 ^ 31"
  shows "is_finite (fl_div binary64 R (fl_of_int binary64 R n) (counts_per_force_unit c)) \<and>
         is_finite (fl_div binary64 R (fl_of_int binary64 R n) (counts_per_torque_unit c))"
  using assms by (auto simp: validate_calibration_Inr_iff intro: safe_count_divides)

theorem validated_calibration_scales_finitely_witness:
  "let c = \<lparr>counts_per_force_unit = Fin 1000000, counts_per_torque_unit = Fin 1000000,
            force_unit = Newton, torque_unit = NewtonMillimeter\<rparr> in
   validate_calibration c = Inr () \<and>
   is_finite (fl_div binary64 Upward (fl_of_int binary64 Upward (- (2 ^ 31))) (counts_per_force_unit c))"
proof -
  let ?c = "\<lparr>counts_per_force_unit = Fin 1000000, counts_per_torque_unit = Fin 1000000,
            force_unit = Newton, torque_unit = NewtonMillimeter\<rparr>"
  have v: "validate_calibration ?c = Inr ()"
    by (simp add: validate_calibration_def require_safe_count_def require_positive_finite_def
        safe_count_minimum_eq fl_le_def)
  show ?thesis
    using v validated_calibration_scales_finitely [OF v, of "- (2 ^ 31)" Upward] by simp
qed

text \<open>
  Unit names and units correspond one to one: a string parses to a unit exactly when it is that
  unit's name, for forces and for torques.
\<close>

lemma unit_names_roundtrip:
  "(force_unit_from_string s = Some fu \<longleftrightarrow> s = force_unit_to_string fu) \<and>
   (torque_unit_from_string s = Some tu \<longleftrightarrow> s = torque_unit_to_string tu)"
  by (cases fu; cases tu) (auto simp: force_unit_from_string_def torque_unit_from_string_def)

text \<open>
  Clock arithmetic never leaves the 64-bit range: whenever the checks pass, the number of ticks
  converted from a floating-point duration fits the representation, and the deadline is neither
  before its origin nor past the last time point, on every platform and in every rounding mode.
\<close>

lemma checked_clock_arithmetic_in_range:
  assumes "std_platform P"
  shows "(\<forall>t. checked_duration P d = Inr t \<longrightarrow> 0 \<le> t \<and> t \<le> steady_max) \<and>
         (\<forall>t. checked_deadline P origin d = Inr t \<longrightarrow> origin \<le> t \<and> t \<le> steady_max)"
  using assms checked_duration_range checked_deadline_range by blast

text \<open>
  The configuration a default-constructed \<open>Config\<close> holds is valid on every platform, in every
  rounding mode, as long as the clock has not run for a century.
\<close>

lemma default_config_valid:
  assumes "std_platform P" and "\<And>i. clock i \<le> 2 ^ 61"
  shows "validate_config P clock config_default = Inr ()"
proof -
  have clk: "clock i \<le> 2 ^ 62" for i
    using assms(2) [of i] by simp
  have tenth: "double_lit (1 / 10) = Fin (of_int 7205759403792794 * 2 powi (- 56))"
    unfolding double_lit_def
    by (rule fl_round_nearest_eqI [where k = "- 4"]) (simp_all add: fmax_binary64)
  have exact: "double_lit (of_int m * 2 powi (- 2)) = Fin (of_int m * 2 powi (- 2))" if "\<bar>m\<bar> < 2 ^ 53" for m
    unfolding double_lit_def
  proof (rule fl_round_exact [where m = m and e = "- 2"])
    have "\<bar>rat_of_int m\<bar> \<le> 2 ^ 53"
      using that by (metis of_int_abs of_int_le_iff of_int_numeral of_int_power order_less_imp_le)
    then show "\<bar>rat_of_int m * 2 powi - 2\<bar> \<le> fmax binary64" by (simp add: fmax_binary64 abs_mult)
  qed (use that in auto)
  note lits = exact [of 2, simplified] exact [of 4, simplified] exact [of 1, simplified]
    exact [of 20, simplified] tenth [simplified]
  have t: "require_safe_timeout P (clock i) name (Fin r) http = Inr ()"
    if "2 powi (- 20) \<le> r" "r \<le> 2 ^ 19" for i name r http
    using require_safe_timeout_ordinary [OF assms(1) that clk] .
  show ?thesis
    by (simp add: validate_config_def config_default_def lits t is_blank_def ascii_space_def
        require_port_def double_lit_def [of 0])
qed

end
