(* ===== verification/Status.thy ===== *)
theory Status
  imports Types
begin

text \<open>
  Device status words (\<open>core/src/status.cpp\<close>): the table of status bits, the severity of a word
  and its textual decoding. The lemmas show which words are healthy, warnings and errors, and that
  the decoding lists exactly the names of the set bits the table has, in the table's order, so that
  the text determines those bits.
\<close>

unbundle bit_operations_syntax

section \<open>The model\<close>

datatype status_severity = SeverityOk | SeverityWarn | SeverityError

definition kStatusBits :: "(u32 \<times> string) list" where
  "kStatusBits =
    [(0x80000000, ''error summary''),
     (0x40000000, ''CPU or RAM error''),
     (0x20000000, ''digital board error''),
     (0x10000000, ''analog board error''),
     (0x08000000, ''serial link communication error''),
     (0x04000000, ''program memory verification error''),
     (0x02000000, ''halted due to configuration errors''),
     (0x01000000, ''settings validation error''),
     (0x00800000, ''configuration incompatible with calibration''),
     (0x00400000, ''network communication failure''),
     (0x00200000, ''CAN communication error''),
     (0x00100000, ''RDT communication error''),
     (0x00080000, ''EtherNet/IP protocol failure''),
     (0x00040000, ''DeviceNet protocol failure''),
     (0x00020000, ''transducer saturation or A/D error''),
     (0x00010000, ''monitor condition latched''),
     (0x00004000, ''watchdog timeout error''),
     (0x00002000, ''stack check error''),
     (0x00001000, ''serial EEPROM I2C failure''),
     (0x00000800, ''serial flash SPI failure''),
     (0x00000400, ''analog board watchdog timeout''),
     (0x00000200, ''excessive strain gage excitation current''),
     (0x00000100, ''insufficient strain gage excitation current''),
     (0x00000080, ''artificial analog ground out of range''),
     (0x00000040, ''analog board power supply too high''),
     (0x00000020, ''analog board power supply too low''),
     (0x00000010, ''serial link data unavailable''),
     (0x00000008, ''reference voltage or power monitoring error''),
     (0x00000004, ''internal temperature error''),
     (0x00000002, ''HTTP protocol failure'')]"

definition classify_status :: "u32 \<Rightarrow> status_severity" where
  "classify_status status =
     (if status = 0 then SeverityOk
      else if status = 0x80010000 then SeverityWarn else SeverityError)"

text \<open>The loop over the table, with the string built so far.\<close>

fun append_names :: "(u32 \<times> string) list \<Rightarrow> u32 \<Rightarrow> string \<Rightarrow> string" where
  "append_names [] status result = result"
| "append_names ((msk, name) # bits) status result =
     (if status AND msk \<noteq> 0
      then append_names bits status ((if result \<noteq> [] then result @ '', '' else result) @ name)
      else append_names bits status result)"

definition decode_status :: "u32 \<Rightarrow> string" where
  "decode_status status =
     (if status = 0 then ''healthy'' else append_names kStatusBits status [])"

section \<open>A reference decoding\<close>

text \<open>The names of the set bits, in the order of the table, joined by a comma and a blank.\<close>

fun join :: "string \<Rightarrow> string list \<Rightarrow> string" where
  "join sep [] = []"
| "join sep [x] = x"
| "join sep (x # y # xs) = x @ sep @ join sep (y # xs)"

definition set_names :: "u32 \<Rightarrow> string list" where
  "set_names status = map snd (filter (\<lambda>(msk, _). status AND msk \<noteq> 0) kStatusBits)"

definition known_mask :: u32 where
  "known_mask = foldr (\<lambda>(msk, _) m. msk OR m) kStatusBits 0"

text \<open>Splitting a text at its commas, each followed by a blank.\<close>

fun split_names :: "string \<Rightarrow> string \<Rightarrow> string list" where
  "split_names acc [] = [rev acc]"
| "split_names acc (c # cs) =
     (if c = CHR '','' then rev acc # split_names [] (drop 1 cs) else split_names (c # acc) cs)"

section \<open>Lemmas\<close>

lemma join_Cons: "join sep (x # xs) = x @ (if xs = [] then [] else sep @ join sep xs)"
  by (cases xs) auto

lemma join_eq_Nil: "sep \<noteq> [] \<Longrightarrow> [] \<notin> set xs \<Longrightarrow> join sep xs = [] \<longleftrightarrow> xs = []"
  by (induction sep xs rule: join.induct) auto

lemma append_names_join:
  assumes "\<forall>(m, n) \<in> set bits. n \<noteq> []"
  shows "append_names bits status result =
    (let ns = map snd (filter (\<lambda>(msk, _). status AND msk \<noteq> 0) bits) in
     result @ (if result \<noteq> [] \<and> ns \<noteq> [] then '', '' else []) @ join '', '' ns)"
  using assms
  by (induction bits status result rule: append_names.induct) (auto simp: Let_def join_Cons)

lemma table_names: "\<forall>(m, n) \<in> set kStatusBits. n \<noteq> [] \<and> CHR '','' \<notin> set n"
  by (simp add: kStatusBits_def)

lemma decode_status_join: "status \<noteq> 0 \<Longrightarrow> decode_status status = join '', '' (set_names status)"
  using table_names
  by (subst decode_status_def, subst append_names_join) (auto simp: set_names_def Let_def)

lemma set_names_ok: "n \<in> set (set_names status) \<Longrightarrow> n \<noteq> [] \<and> CHR '','' \<notin> set n"
  using table_names by (auto simp: set_names_def)

lemma join_set_names_Nil: "join '', '' (set_names u) = [] \<longleftrightarrow> set_names u = []"
  using set_names_ok [of _ u] by (intro join_eq_Nil) auto

lemma split_names_prefix:
  "CHR '','' \<notin> set n \<Longrightarrow> split_names acc (n @ rest) = split_names (rev n @ acc) rest"
  by (induction n arbitrary: acc) auto

lemma split_names_join:
  "ns \<noteq> [] \<Longrightarrow> \<forall>n \<in> set ns. CHR '','' \<notin> set n \<Longrightarrow> split_names [] (join '', '' ns) = ns"
  by (induction "'', ''" ns rule: join.induct)
    (auto simp: split_names_prefix split_names_prefix [where rest = "[]", simplified])

lemma names_distinct: "distinct (map snd kStatusBits)"
  by (simp add: kStatusBits_def)

text \<open>With distinct names, the selected names determine the selection.\<close>

lemma filtered_names_eq:
  assumes "distinct (map snd bits)"
    and "map snd (filter P bits) = map snd (filter Q bits)" and "b \<in> set bits"
  shows "P b = Q b"
proof -
  have "snd b \<in> snd ` set (filter P bits) \<longleftrightarrow> snd b \<in> snd ` set (filter Q bits)"
    using assms(2) by (metis set_map)
  then show ?thesis
    using assms(1,3) by (auto simp: distinct_map inj_on_def)
qed

lemma set_names_eq_iff:
  "set_names s = set_names t \<longleftrightarrow>
     (\<forall>(msk, _) \<in> set kStatusBits. (s AND msk \<noteq> 0) = (t AND msk \<noteq> 0))"
proof
  assume "set_names s = set_names t"
  then have "\<forall>b \<in> set kStatusBits. (\<lambda>(m, _). s AND m \<noteq> 0) b = (\<lambda>(m, _). t AND m \<noteq> 0) b"
    using filtered_names_eq [OF names_distinct] unfolding set_names_def by blast
  then show "\<forall>(msk, _) \<in> set kStatusBits. (s AND msk \<noteq> 0) = (t AND msk \<noteq> 0)"
    by (simp add: case_prod_beta)
next
  assume "\<forall>(msk, _) \<in> set kStatusBits. (s AND msk \<noteq> 0) = (t AND msk \<noteq> 0)"
  then have "filter (\<lambda>(m, _). s AND m \<noteq> 0) kStatusBits = filter (\<lambda>(m, _). t AND m \<noteq> 0) kStatusBits"
    by (intro filter_cong) auto
  then show "set_names s = set_names t" by (simp add: set_names_def)
qed

lemma and_foldr_or_eq:
  fixes s t :: u32
  assumes "\<forall>(m, n) \<in> set bits. s AND m = t AND m"
  shows "s AND foldr (\<lambda>(m, _) a. m OR a) bits 0 = t AND foldr (\<lambda>(m, _) a. m OR a) bits 0"
  using assms by (induction bits) (auto simp: bit.conj_disj_distrib)

lemma and_foldr_or_mem:
  fixes s t :: u32
  assumes "(m, n) \<in> set bits"
    and "s AND foldr (\<lambda>(m, _) a. m OR a) bits 0 = t AND foldr (\<lambda>(m, _) a. m OR a) bits 0"
  shows "s AND m = t AND m"
proof -
  have "foldr (\<lambda>(m, _) a. m OR a) bits 0 AND m = m"
    using assms(1) by (induction bits) (auto simp: bit.conj_disj_distrib2 word_ao_absorbs)
  then have u: "u AND m = (u AND foldr (\<lambda>(m, _) a. m OR a) bits 0) AND m" for u
    by (simp add: and.assoc)
  show ?thesis
    using assms(2) by (subst (1 2) u) (simp only:)
qed

section \<open>Properties\<close>

text \<open>
  Decoding a status word that is not zero gives the names of exactly the bits it has set in the
  table, in the table's order, separated by a comma and a blank.
\<close>

lemma decode_status_names:
  assumes "status \<noteq> 0"
  shows "decode_status status =
    join '', '' (map snd (filter (\<lambda>(msk, _). status AND msk \<noteq> 0) kStatusBits))"
  using decode_status_join [OF assms] by (simp add: set_names_def)

text \<open>
  The text loses nothing the table knows: two words that are not zero decode to the same
  non-empty text exactly when they agree on every bit the table names, and the text is empty exactly
  when the word has none of them.
\<close>

lemma decode_status_determines_bits:
  assumes "s \<noteq> 0" and "t \<noteq> 0"
  shows "(decode_status s = decode_status t \<longleftrightarrow>
            (\<forall>(msk, _) \<in> set kStatusBits. (s AND msk \<noteq> 0) = (t AND msk \<noteq> 0))) \<and>
         (decode_status s = [] \<longleftrightarrow> s AND known_mask = 0)"
proof
  have "set_names s = set_names t" if d: "decode_status s = decode_status t"
  proof -
    have j: "join '', '' (set_names s) = join '', '' (set_names t)"
      using d assms by (simp add: decode_status_join)
    show ?thesis
    proof (cases "set_names s = []")
      case True
      then show ?thesis using j join_set_names_Nil [of t] by simp
    next
      case False
      then have "set_names t \<noteq> []" using j join_set_names_Nil by metis
      then show ?thesis
        using False j split_names_join [of "set_names s"] split_names_join [of "set_names t"]
          set_names_ok by metis
    qed
  qed
  then show "decode_status s = decode_status t \<longleftrightarrow>
      (\<forall>(msk, _) \<in> set kStatusBits. (s AND msk \<noteq> 0) = (t AND msk \<noteq> 0))"
    using assms unfolding set_names_eq_iff [symmetric] by (auto simp: decode_status_join)
  have "decode_status s = [] \<longleftrightarrow> set_names s = []"
    using assms(1) by (simp add: decode_status_join join_set_names_Nil)
  also have "\<dots> \<longleftrightarrow> (\<forall>(msk, _) \<in> set kStatusBits. s AND msk = 0 AND msk)"
    by (auto simp: set_names_def filter_empty_conv)
  also have "\<dots> \<longleftrightarrow> s AND known_mask = 0 AND known_mask"
  proof
    assume "\<forall>(msk, _) \<in> set kStatusBits. s AND msk = 0 AND msk"
    then show "s AND known_mask = 0 AND known_mask"
      unfolding known_mask_def by (rule and_foldr_or_eq)
  next
    assume "s AND known_mask = 0 AND known_mask"
    then show "\<forall>(msk, _) \<in> set kStatusBits. s AND msk = 0 AND msk"
      unfolding known_mask_def using and_foldr_or_mem [of _ _ kStatusBits s 0] by blast
  qed
  finally show "decode_status s = [] \<longleftrightarrow> s AND known_mask = 0" by simp
qed

text \<open>
  Severity: a word is healthy exactly when it is zero, a warning exactly when it is the error
  summary together with the latched monitor condition and nothing else, and an error otherwise.
\<close>

lemma classify_status_cases:
  "(classify_status s = SeverityOk \<longleftrightarrow> decode_status s = ''healthy'') \<and>
   (classify_status s = SeverityWarn \<longleftrightarrow> s = 0x80000000 OR 0x00010000) \<and>
   (classify_status s = SeverityError \<longleftrightarrow> s \<noteq> 0 \<and> s \<noteq> 0x80000000 OR 0x00010000)"
proof -
  have "decode_status s \<noteq> ''healthy''" if "s \<noteq> 0"
  proof
    assume "decode_status s = ''healthy''"
    then have j: "join '', '' (set_names s) = ''healthy''" using that by (simp add: decode_status_join)
    then have "set_names s \<noteq> []" by auto
    then have "set_names s = split_names [] ''healthy''"
      using split_names_join [of "set_names s"] set_names_ok j by metis
    then have "''healthy'' \<in> set (set_names s)" by simp
    then have "''healthy'' \<in> snd ` set kStatusBits" by (auto simp: set_names_def)
    then show False by (simp add: kStatusBits_def)
  qed
  then show ?thesis by (auto simp: classify_status_def decode_status_def)
qed

end
