(* ===== verification/Sequence_Trackers.thy ===== *)
theory Sequence_Trackers
  imports Prelude
begin

text \<open>
  The RDT packet-sequence tracker and the force/torque sequence tracker
  (\<open>core/src/detail/sequence.cpp\<close>). Sequence numbers are 32-bit words that wrap around. A locale
  states what the two trackers have in common, a baseline that moves to exactly the accepted
  numbers, and both interpret it. The lemmas relate the wrapped comparison to unbounded counters,
  the reported gaps to the number of missing packets, and the flagged fields of the force/torque
  tracker to an abstract machine.
\<close>

section \<open>The model\<close>

datatype sequence_kind = First | Contiguous | Gap | Duplicate | OutOfOrder

record sequence_observation =
  kind :: sequence_kind
  gap :: u32

record rdt_tracker =
  rdt_has_last :: bool
  rdt_previous :: u32

definition rdt_init :: rdt_tracker where
  "rdt_init = \<lparr>rdt_has_last = False, rdt_previous = 0\<rparr>"

definition rdt_observe :: "u32 \<Rightarrow> rdt_tracker \<Rightarrow> sequence_observation \<times> rdt_tracker" where
  "rdt_observe current t =
     (if \<not> rdt_has_last t
      then (\<lparr>kind = First, gap = 0\<rparr>, t\<lparr>rdt_has_last := True, rdt_previous := current\<rparr>)
      else let delta = current - rdt_previous t in
        if delta = 0 then (\<lparr>kind = Duplicate, gap = 0\<rparr>, t)
        else if delta < 0x80000000
        then ((if delta = 1 then \<lparr>kind = Contiguous, gap = 0\<rparr> else \<lparr>kind = Gap, gap = delta - 1\<rparr>),
              t\<lparr>rdt_previous := current\<rparr>)
        else (\<lparr>kind = OutOfOrder, gap = 0\<rparr>, t))"

definition rdt_reset :: "rdt_tracker \<Rightarrow> rdt_tracker" where
  "rdt_reset t = t\<lparr>rdt_has_last := False\<rparr>"

datatype ft_sequence_kind = FtFirst | FtForward | FtStall | FtBackward | FtRestart

record ft_tracker =
  ft_has_last :: bool
  ft_previous :: u32
  ft_has_restart_candidate :: bool
  ft_restart_candidate :: u32

definition ft_init :: ft_tracker where
  "ft_init = \<lparr>ft_has_last = False, ft_previous = 0,
              ft_has_restart_candidate = False, ft_restart_candidate = 0\<rparr>"

definition kRestartLowMax :: u32 where
  "kRestartLowMax = 0x0000ffff"

definition kRestartMinBaseline :: u32 where
  "kRestartMinBaseline = kRestartLowMax + 1"

definition ft_begin_session :: "ft_tracker \<Rightarrow> ft_tracker" where
  "ft_begin_session t = t\<lparr>ft_has_restart_candidate := False\<rparr>"

definition ft_observe :: "u32 \<Rightarrow> ft_tracker \<Rightarrow> ft_sequence_kind \<times> ft_tracker" where
  "ft_observe current t =
     (if \<not> ft_has_last t
      then (FtFirst, t\<lparr>ft_has_last := True, ft_previous := current\<rparr>)
      else if current = ft_previous t
      then (FtStall, t\<lparr>ft_has_restart_candidate := False\<rparr>)
      else let delta = current - ft_previous t in
        if delta < 0x80000000
        then (FtForward, t\<lparr>ft_previous := current, ft_has_restart_candidate := False\<rparr>)
        else if ft_previous t \<ge> kRestartMinBaseline \<and> ft_has_restart_candidate t \<and>
                ft_restart_candidate t \<le> kRestartLowMax \<and> current \<le> kRestartLowMax \<and>
                (let candidate_delta = current - ft_restart_candidate t in
                 candidate_delta > 0 \<and> candidate_delta < 0x80000000)
        then (FtRestart, t\<lparr>ft_previous := current, ft_has_restart_candidate := False\<rparr>)
        else (FtBackward, t\<lparr>ft_restart_candidate := current, ft_has_restart_candidate := True\<rparr>))"

lemmas tracker_defs [tracker_simps] =
  rdt_observe_def rdt_reset_def ft_observe_def ft_begin_session_def

section \<open>Serial-number order\<close>

text \<open>\<open>c\<close> is ahead of \<open>p\<close> when it is reached by fewer than half the numbers.\<close>

definition ahead :: "u32 \<Rightarrow> u32 \<Rightarrow> bool" where
  "ahead p c \<longleftrightarrow> 0 < unat (c - p) \<and> unat (c - p) < 2 ^ 31"

lemma half_word [simp]: "(w :: u32) < 0x80000000 \<longleftrightarrow> unat w < 2 ^ 31"
  by (simp add: word_less_nat_alt)

lemma ahead_word: "ahead p c \<longleftrightarrow> c - p \<noteq> 0 \<and> c - p < 0x80000000"
  by (auto simp: ahead_def unat_gt_0)

lemma ahead_of_nat:
  "a < b \<Longrightarrow> b - a < 2 ^ 31 \<Longrightarrow> ahead (of_nat a) (of_nat b)"
  by (simp add: ahead_def unat_diff_of_nat)

lemma behind_of_nat:
  assumes "b < a" and "a - b < 2 ^ 31"
  shows "2 ^ 31 < unat (of_nat b - of_nat a :: u32)"
proof -
  have "(of_nat b - of_nat a :: u32) = of_nat (2 ^ 32 - (a - b))"
    using assms by (simp add: of_nat_diff)
  moreover have "unat (of_nat (2 ^ 32 - (a - b)) :: u32) = 2 ^ 32 - (a - b)"
    using assms by (intro unat_of_nat_small) simp
  ultimately have "unat (of_nat b - of_nat a :: u32) = 2 ^ 32 - (a - b)" by (simp only:)
  then show ?thesis using assms by simp
qed

section \<open>The interface of a tracker\<close>

fun observe_all :: "(u32 \<Rightarrow> 't \<Rightarrow> 'k \<times> 't) \<Rightarrow> u32 list \<Rightarrow> 't \<Rightarrow> 'k list \<times> 't" where
  "observe_all obs [] t = ([], t)"
| "observe_all obs (c # cs) t =
     (let (k, t') = obs c t; (ks, t'') = observe_all obs cs t' in (k # ks, t''))"

text \<open>The numbers whose observation was accepted, in the order they came.\<close>

definition accepted :: "('k \<Rightarrow> bool) \<Rightarrow> 'k list \<Rightarrow> u32 list \<Rightarrow> u32 list" where
  "accepted acc ks cs = map snd (filter (\<lambda>(k, _). acc k) (zip ks cs))"

lemma accepted_simps [simp]:
  "accepted acc [] cs = []"
  "accepted acc (k # ks) (c # cs) = (if acc k then c # accepted acc ks cs else accepted acc ks cs)"
  by (simp_all add: accepted_def)

lemma length_observe_all: "observe_all obs cs t = (ks, t') \<Longrightarrow> length ks = length cs"
  by (induction cs arbitrary: t ks) (auto split: prod.splits)

locale baseline_tracker =
  fixes observe :: "u32 \<Rightarrow> 't \<Rightarrow> 'k \<times> 't"
    and base :: "'t \<Rightarrow> u32 option"
    and acc :: "'k \<Rightarrow> bool"
    and ok :: "u32 \<Rightarrow> u32 \<Rightarrow> bool"
  assumes base_observe:
      "observe c t = (k, t') \<Longrightarrow> base t' = (if acc k then Some c else base t)"
    and accept_first: "base t = None \<Longrightarrow> acc (fst (observe c t))"
    and accept_ok: "observe c t = (k, t') \<Longrightarrow> acc k \<Longrightarrow> base t = Some p \<Longrightarrow> ok p c"
begin

text \<open>The baseline is always the last number accepted.\<close>

lemma base_run:
  "observe_all observe cs t = (ks, t') \<Longrightarrow>
     base t' = (if accepted acc ks cs = [] then base t else Some (last (accepted acc ks cs)))"
proof (induction cs arbitrary: t ks)
  case (Cons c cs)
  from Cons.prems obtain k u ks' where
    "observe c t = (k, u)" "observe_all observe cs u = (ks', t')" "ks = k # ks'"
    by (auto split: prod.splits)
  with Cons.IH [of u ks'] base_observe [of c t k u] show ?case by auto
qed simp

text \<open>Consecutive accepted numbers are in the tracker's order, from any starting state.\<close>

lemma accepted_chain:
  "observe_all observe cs t = (ks, t') \<Longrightarrow>
     successively ok (case base t of None \<Rightarrow> accepted acc ks cs | Some p \<Rightarrow> p # accepted acc ks cs)"
proof (induction cs arbitrary: t ks)
  case Nil
  then show ?case by (auto split: option.splits)
next
  case (Cons c cs)
  from Cons.prems obtain k u ks' where
    o: "observe c t = (k, u)" "observe_all observe cs u = (ks', t')" "ks = k # ks'"
    by (auto split: prod.splits)
  from Cons.IH [OF o(2)] base_observe [OF o(1)] accept_ok [OF o(1)] accept_first [of t c] o
  show ?case by (cases "acc k"; cases "base t") auto
qed

lemma accepted_nonempty:
  "observe_all observe (c # cs) t = (ks, t') \<Longrightarrow> base t = None \<Longrightarrow> accepted acc ks (c # cs) \<noteq> []"
  using accept_first [of t c] by (auto split: prod.splits)

end

section \<open>The two trackers\<close>

definition rdt_base :: "rdt_tracker \<Rightarrow> u32 option" where
  "rdt_base t = (if rdt_has_last t then Some (rdt_previous t) else None)"

definition rdt_accepts :: "sequence_observation \<Rightarrow> bool" where
  "rdt_accepts ob \<longleftrightarrow> kind ob = First \<or> kind ob = Contiguous \<or> kind ob = Gap"

interpretation rdt: baseline_tracker rdt_observe rdt_base rdt_accepts ahead
  by unfold_locales
    (auto simp: tracker_simps rdt_base_def rdt_accepts_def ahead_word Let_def split: if_splits)

definition ft_base :: "ft_tracker \<Rightarrow> u32 option" where
  "ft_base t = (if ft_has_last t then Some (ft_previous t) else None)"

definition ft_accepts :: "ft_sequence_kind \<Rightarrow> bool" where
  "ft_accepts k \<longleftrightarrow> k = FtFirst \<or> k = FtForward \<or> k = FtRestart"

text \<open>An accepted force/torque number is ahead of the baseline or restarts from a low value.\<close>

definition ft_ok :: "u32 \<Rightarrow> u32 \<Rightarrow> bool" where
  "ft_ok p c \<longleftrightarrow> ahead p c \<or> kRestartMinBaseline \<le> p \<and> c \<le> kRestartLowMax"

interpretation ft: baseline_tracker ft_observe ft_base ft_accepts ft_ok
  by unfold_locales
    (auto simp: tracker_simps ft_base_def ft_accepts_def ft_ok_def ahead_word Let_def split: if_splits)

section \<open>Missing packets\<close>

lemma rdt_observe_ahead:
  assumes "rdt_has_last t" and "rdt_previous t = of_nat a" and "a < b" and "b - a < 2 ^ 31"
  shows "rdt_observe (of_nat b) t =
    ((if b = a + 1 then \<lparr>kind = Contiguous, gap = 0\<rparr> else \<lparr>kind = Gap, gap = of_nat (b - a - 1)\<rparr>),
     t\<lparr>rdt_previous := of_nat b\<rparr>)"
proof -
  have u: "unat (of_nat b - of_nat a :: u32) = b - a"
    using assms(3,4) by (simp add: unat_diff_of_nat)
  have "(of_nat b - of_nat a :: u32) = 1 \<longleftrightarrow> b - a = 1"
    using u by (simp only: word_unat_eq_iff unat_1)
  moreover have "(of_nat b - of_nat a :: u32) \<noteq> 0" "(of_nat b - of_nat a :: u32) - 1 = of_nat (b - a - 1)"
    using u assms(3) by (auto simp: of_nat_diff)
  ultimately show ?thesis
    using assms u by (auto simp: rdt_observe_def Let_def)
qed

text \<open>The gaps reported for packets in order, and the packets received, account for every number.\<close>

lemma rdt_gaps_in_order:
  assumes "successively (\<lambda>a b. a < b \<and> b - a < 2 ^ 31) (a # as)"
    and "rdt_has_last t" and "rdt_previous t = of_nat a"
    and "observe_all rdt_observe (map of_nat as) t = (obs, t')"
  shows "a + length as + sum_list (map (\<lambda>ob. unat (gap ob)) obs) = last (a # as)"
  using assms
proof (induction as arbitrary: a t obs)
  case (Cons b as)
  let ?ob = "fst (rdt_observe (of_nat b) t)" and ?u = "snd (rdt_observe (of_nat b) t)"
  have ab: "a < b" "b - a < 2 ^ 31" using Cons.prems(1) by auto
  note ob = rdt_observe_ahead [OF Cons.prems(2,3) ab]
  obtain obs' where obs: "obs = ?ob # obs'" "observe_all rdt_observe (map of_nat as) ?u = (obs', t')"
    using Cons.prems(4) by (auto split: prod.splits)
  have "b + length as + sum_list (map (\<lambda>ob. unat (gap ob)) obs') = last (b # as)"
    using Cons.prems(1,2) by (intro Cons.IH [OF _ _ _ obs(2)]) (auto simp: ob)
  moreover have "unat (gap ?ob) = b - a - 1"
    using ob ab unat_of_nat_small [of "b - a - 1", where 'w = 32] by (simp del: of_nat_diff)
  ultimately show ?case using obs(1) ab by simp
qed simp

section \<open>The force/torque tracker as an abstract machine\<close>

text \<open>
  Without the flags: no baseline yet, or a baseline with the last number behind it, if the previous
  observation of this session was one.
\<close>

datatype ft_abs = NoBaseline | Baseline u32 "u32 option"

definition ft_abs_of :: "ft_tracker \<Rightarrow> ft_abs" where
  "ft_abs_of t =
     (if ft_has_last t
      then Baseline (ft_previous t)
             (if ft_has_restart_candidate t then Some (ft_restart_candidate t) else None)
      else NoBaseline)"

definition restarts :: "u32 \<Rightarrow> u32 option \<Rightarrow> u32 \<Rightarrow> bool" where
  "restarts p cand c \<longleftrightarrow>
     (case cand of None \<Rightarrow> False | Some q \<Rightarrow> 0xFFFF < p \<and> q < c \<and> c \<le> 0xFFFF)"

fun ft_spec :: "u32 \<Rightarrow> ft_abs \<Rightarrow> ft_sequence_kind \<times> ft_abs" where
  "ft_spec c NoBaseline = (FtFirst, Baseline c None)"
| "ft_spec c (Baseline p cand) =
     (if c = p then (FtStall, Baseline p None)
      else if ahead p c then (FtForward, Baseline c None)
      else if restarts p cand c then (FtRestart, Baseline c None)
      else (FtBackward, Baseline p (Some c)))"

text \<open>A candidate exists only beside a baseline.\<close>

definition ft_wf :: "ft_tracker \<Rightarrow> bool" where
  "ft_wf t \<longleftrightarrow> (ft_has_restart_candidate t \<longrightarrow> ft_has_last t)"

lemma low_increasing:
  fixes q c :: u32
  assumes "q \<le> kRestartLowMax" and "c \<le> kRestartLowMax"
  shows "(c - q > 0 \<and> c - q < 0x80000000) \<longleftrightarrow> q < c"
proof -
  have b: "unat q \<le> 65535" "unat c \<le> 65535"
    using assms by (simp_all add: kRestartLowMax_def word_le_nat_alt)
  show ?thesis
  proof (cases "q \<le> c")
    case True
    then have "unat (c - q) = unat c - unat q" by (simp add: unat_sub)
    then show ?thesis using b by (auto simp: word_less_nat_alt)
  next
    case False
    then have "unat q - unat c < 2 ^ 31" "unat c < unat q" using b by (auto simp: word_le_nat_alt)
    then have "2 ^ 31 < unat (of_nat (unat c) - of_nat (unat q) :: u32)" by (intro behind_of_nat)
    then show ?thesis using False by auto
  qed
qed

lemma restart_baseline: "(p :: u32) \<ge> kRestartMinBaseline \<longleftrightarrow> 0xFFFF < p"
  by (auto simp: kRestartMinBaseline_def kRestartLowMax_def word_le_nat_alt word_less_nat_alt)

lemma ft_observe_refines_spec:
  assumes "ft_wf t" and "ft_observe c t = (k, t')"
  shows "ft_spec c (ft_abs_of t) = (k, ft_abs_of t') \<and> ft_wf t'"
proof (cases "ft_has_last t")
  case True
  have "(ft_restart_candidate t \<le> kRestartLowMax \<and> c \<le> kRestartLowMax \<and>
         0 < c - ft_restart_candidate t \<and> c - ft_restart_candidate t < 0x80000000) \<longleftrightarrow>
        ft_restart_candidate t < c \<and> c \<le> 0xFFFF"
    using low_increasing [of "ft_restart_candidate t" c]
    by (auto simp: kRestartLowMax_def)
  then show ?thesis
    using assms True
    by (auto simp: ft_observe_def ft_abs_of_def ft_wf_def Let_def ahead_word restarts_def
        restart_baseline split: if_splits)
qed (use assms in \<open>auto simp: ft_observe_def ft_abs_of_def ft_wf_def\<close>)

section \<open>Properties\<close>

text \<open>
  C19. The wrapped comparison is the true one: if the baseline is the low 32 bits of counter \<open>a\<close> and
  a packet carries those of counter \<open>b\<close>, less than half the range away, the packet is reported as
  the same, older, next or later one exactly as \<open>b\<close> compares with \<open>a\<close>, with the number of skipped
  packets, and the baseline moves only forward.
\<close>

theorem rdt_observe_true_order:
  assumes "rdt_has_last t" and "rdt_previous t = of_nat a"
    and "b < a + 2 ^ 31" and "a < b + 2 ^ 31"
  shows "rdt_observe (of_nat b) t =
    (if b = a then (\<lparr>kind = Duplicate, gap = 0\<rparr>, t)
     else if b < a then (\<lparr>kind = OutOfOrder, gap = 0\<rparr>, t)
     else if b = a + 1 then (\<lparr>kind = Contiguous, gap = 0\<rparr>, t\<lparr>rdt_previous := of_nat b\<rparr>)
     else (\<lparr>kind = Gap, gap = of_nat (b - a - 1)\<rparr>, t\<lparr>rdt_previous := of_nat b\<rparr>))"
proof -
  consider "b = a" | "b < a" | "a < b" by linarith
  then show ?thesis
  proof cases
    case 2
    then have "2 ^ 31 < unat (of_nat b - of_nat a :: u32)" using assms(4) by (intro behind_of_nat) auto
    then show ?thesis using assms 2 by (auto simp: rdt_observe_def Let_def)
  next
    case 3
    then show ?thesis using assms rdt_observe_ahead [OF assms(1,2) 3] by simp
  qed (use assms in \<open>simp add: rdt_observe_def\<close>)
qed

theorem rdt_observe_true_order_witness:
  "rdt_observe (of_nat (2 ^ 32 + 4)) \<lparr>rdt_has_last = True, rdt_previous = of_nat (2 ^ 32 - 1)\<rparr> =
     (\<lparr>kind = Gap, gap = 4\<rparr>, \<lparr>rdt_has_last = True, rdt_previous = 4\<rparr>)"
  using rdt_observe_true_order [of "\<lparr>rdt_has_last = True, rdt_previous = of_nat (2 ^ 32 - 1)\<rparr>"
      "2 ^ 32 - 1" "2 ^ 32 + 4"]
  by simp

text \<open>
  C9. Losses are counted exactly: when packets arrive in order, each less than half the range after
  the one before, the gaps reported over the whole stream, across any number of wrap-arounds, sum to
  the number of packets that are missing.
\<close>

theorem rdt_gaps_count_missing:
  assumes "successively (\<lambda>a b. a < b \<and> b - a < 2 ^ 31) (a # as)"
  shows "sum_list (map (\<lambda>ob. unat (gap ob)) (fst (observe_all rdt_observe (map of_nat (a # as)) rdt_init)))
         = (last (a # as) - a + 1) - length (a # as)"
proof -
  let ?u = "\<lparr>rdt_has_last = True, rdt_previous = of_nat a\<rparr>"
  obtain obs t' where o: "observe_all rdt_observe (map of_nat as) ?u = (obs, t')" by fastforce
  have "a + length as + sum_list (map (\<lambda>ob. unat (gap ob)) obs) = last (a # as)"
    by (rule rdt_gaps_in_order [OF assms _ _ o]) auto
  then show ?thesis using o by (auto simp: rdt_observe_def rdt_init_def)
qed

theorem rdt_gaps_count_missing_witness:
  "sum_list (map (\<lambda>ob. unat (gap ob))
     (fst (observe_all rdt_observe (map of_nat [2 ^ 32 - 2, 2 ^ 32, 2 ^ 32 + 5]) rdt_init))) = 5"
  using rdt_gaps_count_missing [of "2 ^ 32 - 2" "[2 ^ 32, 2 ^ 32 + 5]"] by simp

text \<open>
  Whatever arrives, in whatever order and however often, the packets that are not reported as
  duplicates or out of order form a chain in which each is strictly ahead of the one before, the
  first one after a reset is always among them, and the tracker's baseline is the last of them.
\<close>

lemma rdt_accepted_strictly_forward:
  assumes "observe_all rdt_observe (c # cs) (rdt_reset t) = (obs, t')"
  shows "successively ahead (accepted rdt_accepts obs (c # cs)) \<and>
         hd (accepted rdt_accepts obs (c # cs)) = c \<and>
         rdt_base t' = Some (last (accepted rdt_accepts obs (c # cs)))"
proof -
  have b: "rdt_base (rdt_reset t) = None" by (simp add: rdt_base_def rdt_reset_def)
  have "hd (accepted rdt_accepts obs (c # cs)) = c"
    using assms by (auto simp: rdt_observe_def rdt_reset_def rdt_accepts_def split: prod.splits)
  then show ?thesis
    using rdt.accepted_chain [OF assms] rdt.base_run [OF assms] rdt.accepted_nonempty [OF assms b] b
    by simp
qed

text \<open>
  C34. The force/torque tracker implements the abstract machine that has no flags: from any
  well-formed state, over any sequence of observations, the reported kinds and the state are the
  abstract machine's.
\<close>

theorem ft_tracker_refines_machine:
  assumes "ft_wf t" and "observe_all ft_observe cs t = (ks, t')"
  shows "observe_all ft_spec cs (ft_abs_of t) = (ks, ft_abs_of t') \<and> ft_wf t'"
  using assms
proof (induction cs arbitrary: t ks)
  case (Cons c cs)
  from Cons.prems obtain k u ks' where
    o: "ft_observe c t = (k, u)" "observe_all ft_observe cs u = (ks', t')" "ks = k # ks'"
    by (auto split: prod.splits)
  from ft_observe_refines_spec [OF Cons.prems(1) o(1)] Cons.IH [OF _ o(2)] o(3)
  show ?case by simp
qed simp

theorem ft_tracker_refines_machine_witness:
  "\<exists>ks t'. observe_all ft_observe [0x20000, 3, 9, 10] ft_init = (ks, t') \<and>
     observe_all ft_spec [0x20000, 3, 9, 10] NoBaseline = (ks, ft_abs_of t')"
proof -
  obtain ks t' where o: "observe_all ft_observe [0x20000, 3, 9, 10] ft_init = (ks, t')" by fastforce
  have w: "ft_wf ft_init" "ft_abs_of ft_init = NoBaseline"
    by (simp_all add: ft_wf_def ft_init_def ft_abs_of_def)
  show ?thesis using ft_tracker_refines_machine [OF w(1) o] o w(2) by auto
qed

text \<open>
  A restart of the device's counter is believed only on evidence: it is reported for the second
  of two consecutive records of one session that are both behind a baseline above 16 bits, both in
  the low 16-bit range, and increasing. The first record of a session never reports one.
\<close>

lemma ft_restart_needs_two_low_records:
  assumes "ft_wf t" and "ft_observe q t = (k, t1)" and "ft_observe c t1 = (FtRestart, t2)"
  shows "k = FtBackward \<and> 0xFFFF < ft_previous t \<and> ft_previous t1 = ft_previous t \<and>
         q < c \<and> c \<le> 0xFFFF \<and> ft_base t2 = Some c \<and>
         fst (ft_observe c (ft_begin_session t1)) \<noteq> FtRestart"
proof -
  have r: "ft_spec q (ft_abs_of t) = (k, ft_abs_of t1)" "ft_spec c (ft_abs_of t1) = (FtRestart, ft_abs_of t2)"
    using ft_observe_refines_spec [OF assms(1,2)] ft_observe_refines_spec [OF _ assms(3)] by auto
  from r(2) obtain p q' where a1: "ft_abs_of t1 = Baseline p (Some q')" "0xFFFF < p" "q' < c" "c \<le> 0xFFFF"
    by (cases "ft_abs_of t1") (auto simp: restarts_def split: if_splits option.splits)
  with r(1) have "k = FtBackward \<and> q' = q \<and> (\<exists>m. ft_abs_of t = Baseline p m)"
    by (cases "ft_abs_of t") (auto split: if_splits)
  moreover have "fst (ft_observe c (ft_begin_session t1)) \<noteq> FtRestart"
    by (auto simp: ft_observe_def ft_begin_session_def Let_def)
  moreover have "ft_base t2 = Some c"
    using ft.base_observe [OF assms(3)] by (simp add: ft_accepts_def)
  ultimately show ?thesis
    using a1 by (auto simp: ft_abs_of_def split: if_splits)
qed

end
