(* ===== verification/Fault_Latch.thy ===== *)
theory Fault_Latch
  imports Types
begin

text \<open>
  The fault latch (\<open>core/src/detail/fault_latch.cpp\<close>): the first fault published after a reset
  wins. The latch is an atomic variable and the health snapshot is guarded by a mutex the caller
  passes in, so \<open>publish\<close> and \<open>reset\<close> are atomic steps. The contract the client relies on is a
  locale, interpreted here on the model.
\<close>

section \<open>The model\<close>

record fault_latch =
  code :: fault_code

definition latch_init :: fault_latch where
  "latch_init = \<lparr>code = FaultNone\<rparr>"

text \<open>
  \<open>publish\<close> on the latch and the health snapshot. \<open>lock_ok\<close> is false when locking the mutex throws,
  which the function turns into \<open>false\<close>.
\<close>

definition publish ::
  "bool \<Rightarrow> fault_code \<Rightarrow> string \<Rightarrow> fault_latch \<times> health \<Rightarrow> bool \<times> fault_latch \<times> health" where
  "publish lock_ok c message = (\<lambda>(l, h).
     if \<not> lock_ok then (False, l, h)
     else if code l \<noteq> FaultNone then (False, l, h)
     else (True, l\<lparr>code := c\<rparr>, h\<lparr>h_state := Faulted, h_fault_code := c, h_last_error := message\<rparr>))"

definition latch_reset :: "fault_latch \<Rightarrow> fault_latch" where
  "latch_reset l = l\<lparr>code := FaultNone\<rparr>"

definition latch_faulted :: "fault_latch \<Rightarrow> bool" where
  "latch_faulted l \<longleftrightarrow> code l \<noteq> FaultNone"

section \<open>The contract\<close>

fun publish_all :: "('c \<Rightarrow> 'm \<Rightarrow> 's \<Rightarrow> bool \<times> 's) \<Rightarrow> ('c \<times> 'm) list \<Rightarrow> 's \<Rightarrow> bool list \<times> 's" where
  "publish_all pub [] s = ([], s)"
| "publish_all pub ((c, m) # fs) s =
     (let (b, s') = pub c m s; (bs, s'') = publish_all pub fs s' in (b # bs, s''))"

locale latch =
  fixes pub :: "'c \<Rightarrow> 'm \<Rightarrow> 's \<Rightarrow> bool \<times> 's"
    and code_of :: "'s \<Rightarrow> 'c"
    and none :: 'c
    and shown :: "'c \<Rightarrow> 'm \<Rightarrow> 's \<Rightarrow> bool"
  assumes pub_set: "code_of s \<noteq> none \<Longrightarrow> pub c m s = (False, s)"
    and pub_unset: "code_of s = none \<Longrightarrow> pub c m s = (b, s') \<Longrightarrow> b \<and> code_of s' = c \<and> shown c m s'"
begin

lemma pub_all_set:
  "code_of s \<noteq> none \<Longrightarrow> publish_all pub fs s = (replicate (length fs) False, s)"
  by (induction fs) (auto simp: pub_set)

text \<open>Of any sequence of faults the first is latched, and only its publisher is told so.\<close>

lemma first_wins:
  assumes "code_of s = none" and "c \<noteq> none"
  shows "\<exists>s'. publish_all pub ((c, m) # fs) s = (True # replicate (length fs) False, s') \<and>
              code_of s' = c \<and> shown c m s'"
proof -
  obtain b s' where p: "pub c m s = (b, s')" by fastforce
  from pub_unset [OF assms(1) p] assms(2) show ?thesis by (auto simp: p pub_all_set)
qed

end

definition fault_shown :: "fault_code \<Rightarrow> string \<Rightarrow> fault_latch \<times> health \<Rightarrow> bool" where
  "fault_shown c m = (\<lambda>(l, h). h_state h = Faulted \<and> h_fault_code h = c \<and> h_last_error h = m)"

interpretation fault: latch "publish True" "code \<circ> fst" FaultNone fault_shown
  by unfold_locales (auto simp: publish_def fault_shown_def)

lemma latch_faulted_reset [simp]: "\<not> latch_faulted (latch_reset l)"
  by (simp add: latch_faulted_def latch_reset_def)

lemma publish_cases:
  "publish ok c m (l, h) =
     (if ok \<and> \<not> latch_faulted l
      then (True, l\<lparr>code := c\<rparr>, h\<lparr>h_state := Faulted, h_fault_code := c, h_last_error := m\<rparr>)
      else (False, l, h))"
  by (simp add: publish_def latch_faulted_def)

section \<open>Properties\<close>

text \<open>
  The first fault of a run wins: after a reset, of any sequence of published faults only the
  first publication succeeds, the latch keeps its code, the health snapshot shows its code and its
  message in state faulted, and every later publication changes nothing.
\<close>

lemma first_fault_wins:
  assumes "c \<noteq> FaultNone"
  shows "\<exists>l' h'. publish_all (publish True) ((c, m) # fs) (latch_reset l, h) =
                   (True # replicate (length fs) False, l', h') \<and>
                 latch_faulted l' \<and> code l' = c \<and>
                 h_state h' = Faulted \<and> h_fault_code h' = c \<and> h_last_error h' = m"
  using fault.first_wins [of "(latch_reset l, h)" c m fs] assms
  by (auto simp: latch_reset_def fault_shown_def latch_faulted_def)

end
