(* ===== verification/Xml_Config.thy ===== *)
theory Xml_Config
  imports Types
begin

text \<open>
  The parser of the sensor's configuration document (\<open>core/src/detail/xml_config.cpp\<close>): the scanner
  that extracts five fields from a small XML dialect, the number and unit parsers, and the guard
  that makes number parsing independent of the rounding mode. Positions are natural numbers into
  the document, as in the source. The lemmas show that the scanner always makes progress, that what
  it returns is trimmed, non-empty and bounded, that the rounding mode is restored on every path,
  that a parsed configuration is a valid one, and that a document printed from fields parses back
  to them exactly when each mandatory field appears once.
\<close>

section \<open>String views\<close>

text \<open>\<open>substr\<close>, \<open>find\<close> of a character and of a string from a position; \<open>None\<close> is \<open>npos\<close>.\<close>

definition substr :: "string \<Rightarrow> nat \<Rightarrow> nat \<Rightarrow> string" where
  "substr s pos n = take n (drop pos s)"

fun index_of :: "(string \<Rightarrow> bool) \<Rightarrow> nat \<Rightarrow> string \<Rightarrow> nat option" where
  "index_of P i [] = None"
| "index_of P i (c # cs) = (if P (c # cs) then Some i else index_of P (Suc i) cs)"

definition find_char :: "char \<Rightarrow> string \<Rightarrow> nat \<Rightarrow> nat option" where
  "find_char c s pos = index_of (\<lambda>r. hd r = c) pos (drop pos s)"

definition find_str :: "string \<Rightarrow> string \<Rightarrow> nat \<Rightarrow> nat option" where
  "find_str pat s pos = index_of (\<lambda>r. take (length pat) r = pat) pos (drop pos s)"

section \<open>The scanner\<close>

definition kMaximumFieldLength :: nat where
  "kMaximumFieldLength = 128"

definition kRequiredTags :: "string list" where
  "kRequiredTags = [''prodname'', ''cfgcpf'', ''cfgcpt'', ''scfgfu'', ''scfgtu'']"

definition is_ascii_whitespace :: "char \<Rightarrow> bool" where
  "is_ascii_whitespace c \<longleftrightarrow> ascii_space c"

definition trim_ascii_whitespace :: "string \<Rightarrow> string" where
  "trim_ascii_whitespace v =
     rev (dropWhile is_ascii_whitespace (rev (dropWhile is_ascii_whitespace v)))"

text \<open>\<open>None\<close> stands for the index \<open>-1\<close>.\<close>

definition required_tag_index :: "string \<Rightarrow> nat option" where
  "required_tag_index name = find (\<lambda>i. name = kRequiredTags ! i) [0..<length kRequiredTags]"

text \<open>The scan for the end of a tag, from \<open>position\<close> on; \<open>quote\<close> is the open quotation mark, if any.\<close>

fun tag_end_loop :: "nat \<Rightarrow> char option \<Rightarrow> string \<Rightarrow> nat res" where
  "tag_end_loop position quote [] =
     Inl (DiscoveryError ''sensor configuration contains unterminated markup'')"
| "tag_end_loop position quote (character # rest) =
     (case quote of
        Some q \<Rightarrow> tag_end_loop (Suc position) (if character = q then None else Some q) rest
      | None \<Rightarrow>
          if character = CHR 0x27 \<or> character = CHR 0x22
          then tag_end_loop (Suc position) (Some character) rest
          else if character = CHR ''>'' then Inr position
          else tag_end_loop (Suc position) None rest)"

definition find_tag_end :: "string \<Rightarrow> nat \<Rightarrow> nat res" where
  "find_tag_end xml start = tag_end_loop start None (drop start xml)"

record open_element =
  name :: string
  required_index :: "nat option"

type_synonym required_fields = "string list"

definition append_required_text ::
  "open_element list \<Rightarrow> required_fields \<Rightarrow> string \<Rightarrow> required_fields" where
  "append_required_text elements fs text =
     (if elements \<noteq> []
      then case required_index (last elements) of
             Some i \<Rightarrow> fs[i := fs ! i @ text] | None \<Rightarrow> fs
      else fs)"

text \<open>The locals of \<open>extract_required_fields\<close>; the back of the vector is the end of the list.\<close>

record scan =
  scan_fields :: required_fields
  seen :: "bool list"
  elements :: "open_element list"

definition malformed_nesting :: exn where
  "malformed_nesting = DiscoveryError ''sensor configuration contains malformed element nesting''"

definition malformed_markup :: exn where
  "malformed_markup = DiscoveryError ''sensor configuration contains malformed markup''"

definition must_appear_once :: "nat \<Rightarrow> exn" where
  "must_appear_once i =
     DiscoveryError (''sensor configuration field '' @ [CHR 0x27] @ kRequiredTags ! i @ [CHR 0x27] @
                     '' must appear exactly once'')"

text \<open>A closing tag: \<open>tag\<close> is the trimmed text between the angle brackets, starting with a slash.\<close>

definition close_tag :: "string \<Rightarrow> scan \<Rightarrow> scan res" where
  "close_tag tag st =
     (let nm = trim_ascii_whitespace (tl tag) in
      if nm = [] \<or> list_ex (\<lambda>c. is_ascii_whitespace c \<or> c = CHR ''/'') nm
         \<or> elements st = [] \<or> name (last (elements st)) \<noteq> nm
      then Inl malformed_nesting
      else Inr (st\<lparr>elements := butlast (elements st)\<rparr>))"

text \<open>An opening or self-closing tag.\<close>

definition open_tag :: "string \<Rightarrow> scan \<Rightarrow> scan res" where
  "open_tag tag0 st =
     (let self_closing = (last tag0 = CHR ''/'');
          tag = (if self_closing then trim_ascii_whitespace (butlast tag0) else tag0);
          nm = takeWhile (\<lambda>c. \<not> is_ascii_whitespace c) tag in
      if nm = [] \<or> hd nm = CHR ''/'' then Inl malformed_markup
      else
        let idx = required_tag_index nm in
        if elements st \<noteq> [] \<and> required_index (last (elements st)) \<noteq> None
        then Inl (DiscoveryError ''sensor configuration fields must contain text only'')
        else
          res_bind (case idx of
                      None \<Rightarrow> Inr (seen st)
                    | Some i \<Rightarrow> if seen st ! i then Inl (must_appear_once i)
                                else Inr ((seen st)[i := True])) (\<lambda>sn.
          Inr (st\<lparr>seen := sn,
                   elements := (if self_closing then elements st
                                else elements st @ [\<lparr>name = nm, required_index = idx\<rparr>])\<rparr>)))"

text \<open>One iteration of the loop at a position before the end.\<close>

definition scan_step :: "string \<Rightarrow> nat \<Rightarrow> scan \<Rightarrow> (nat \<times> scan) res" where
  "scan_step xml position st0 =
     (case find_char (CHR ''<'') xml position of
        None \<Rightarrow> Inr (length xml,
          st0\<lparr>scan_fields := append_required_text (elements st0) (scan_fields st0) (drop position xml)\<rparr>)
      | Some markup \<Rightarrow>
          let st = st0\<lparr>scan_fields := append_required_text (elements st0) (scan_fields st0)
                                  (substr xml position (markup - position))\<rparr> in
          if substr xml markup 4 = ''<!--'' then
            (case find_str ''-->'' xml (markup + 4) of
               None \<Rightarrow> Inl (DiscoveryError ''sensor configuration contains an unterminated comment'')
             | Some e \<Rightarrow> Inr (e + 3, st))
          else if substr xml markup 9 = ''<![CDATA['' then
            (case find_str '']]>'' xml (markup + 9) of
               None \<Rightarrow> Inl (DiscoveryError ''sensor configuration contains unterminated CDATA'')
             | Some e \<Rightarrow> Inr (e + 3,
                 st\<lparr>scan_fields := append_required_text (elements st) (scan_fields st)
                                (substr xml (markup + 9) (e - markup - 9))\<rparr>))
          else if substr xml markup 2 = ''<?'' then
            (case find_str ''?>'' xml (markup + 2) of
               None \<Rightarrow> Inl (DiscoveryError ''sensor configuration contains unterminated markup'')
             | Some e \<Rightarrow> Inr (e + 2, st))
          else if substr xml markup 2 = ''<!'' then
            Inl (DiscoveryError ''sensor configuration contains unsupported markup'')
          else
            res_bind (find_tag_end xml (markup + 1)) (\<lambda>e.
              let tag = trim_ascii_whitespace (substr xml (markup + 1) (e - markup - 1)) in
              if tag = [] then Inl malformed_markup
              else map_sum id (\<lambda>st'. (e + 1, st'))
                     (if hd tag = CHR ''/'' then close_tag tag st else open_tag tag st)))"

text \<open>Progress: an iteration that does not throw moves the position forward.\<close>

lemma index_of_bounds: "index_of P i s = Some j \<Longrightarrow> i \<le> j \<and> j < i + length s"
  by (induction P i s rule: index_of.induct) (auto split: if_splits)

lemma find_bounds:
  "find_char c s pos = Some j \<Longrightarrow> pos \<le> j \<and> j < length s"
  "find_str pat s pos = Some j \<Longrightarrow> pos \<le> j \<and> j < length s"
  unfolding find_char_def find_str_def by (auto dest!: index_of_bounds)

lemma tag_end_loop_bounds: "tag_end_loop i q s = Inr j \<Longrightarrow> i \<le> j \<and> j < i + length s"
  by (induction i q s rule: tag_end_loop.induct) (fastforce split: option.splits if_splits)+

lemma scan_step_progress:
  assumes "position < length xml" and "scan_step xml position st = Inr (position', st')"
  shows "position < position'"
proof (cases "find_char (CHR ''<'') xml position")
  case (Some markup)
  then have "position \<le> markup" by (auto dest: find_bounds)
  with assms(2) Some show ?thesis
    by (auto simp: scan_step_def Let_def res_bind_Inr_iff map_sum_def find_tag_end_def
        split: if_splits option.splits sum.splits dest!: find_bounds tag_end_loop_bounds)
qed (use assms in \<open>auto simp: scan_step_def\<close>)

function scan_loop :: "string \<Rightarrow> nat \<Rightarrow> scan \<Rightarrow> scan res" where
  "scan_loop xml position st =
     (if position < length xml
      then case scan_step xml position st of
             Inl e \<Rightarrow> Inl e | Inr (position', st') \<Rightarrow> scan_loop xml position' st'
      else Inr st)"
  by pat_completeness auto
termination
proof (relation "measure (\<lambda>(xml, position, st). length xml - position)")
  fix xml position st p position' st'
  assume "position < length xml" and "scan_step xml position st = Inr p" and "(position', st') = p"
  then have "position < position'" using scan_step_progress by metis
  then show "((xml, position', st'), xml, position, st)
      \<in> measure (\<lambda>(xml, position, st). length xml - position)"
    using \<open>position < length xml\<close> by simp
qed simp

declare scan_loop.simps [simp del]

text \<open>The loop over the required fields after the scan.\<close>

definition field_error :: "nat \<Rightarrow> string \<Rightarrow> exn" where
  "field_error i m =
     DiscoveryError (''sensor configuration field '' @ [CHR 0x27] @ kRequiredTags ! i @ [CHR 0x27] @ m)"

fun check_fields :: "bool list \<Rightarrow> required_fields \<Rightarrow> nat list \<Rightarrow> required_fields res" where
  "check_fields sn fs [] = Inr fs"
| "check_fields sn fs (i # is) =
     (if \<not> sn ! i
      then if i = 0 then check_fields sn (fs[i := ''ATI Net F/T'']) is
           else Inl (must_appear_once i)
      else let v = trim_ascii_whitespace (fs ! i) in
        if v = [] then Inl (field_error i '' is empty'')
        else if length v > kMaximumFieldLength then Inl (field_error i '' is too long'')
        else check_fields sn (fs[i := v]) is)"

definition scan_init :: scan where
  "scan_init = \<lparr>scan_fields = replicate 5 [], seen = replicate 5 False, elements = []\<rparr>"

definition extract_required_fields :: "string \<Rightarrow> required_fields res" where
  "extract_required_fields xml =
     res_bind (scan_loop xml 0 scan_init) (\<lambda>st.
       if elements st \<noteq> [] then Inl malformed_nesting
       else check_fields (seen st) (scan_fields st) [0..<length kRequiredTags])"

section \<open>Numbers\<close>

text \<open>
  Extraction of a \<open>double\<close> from a stream in the classic locale, as \<open>std::num_get\<close> does it for
  decimal numbers: an optional sign, digits with at most one point, at least one digit, and an
  exponent that has at least one digit if its letter is there. The value is the decimal one, rounded
  in the current mode; a value out of range sets the fail bit. \<open>None\<close> is the fail bit; otherwise the
  value and the characters left in the stream.
\<close>

definition is_digit :: "char \<Rightarrow> bool" where
  "is_digit c \<longleftrightarrow> 48 \<le> (of_char c :: nat) \<and> (of_char c :: nat) \<le> 57"

definition digits_value :: "string \<Rightarrow> nat" where
  "digits_value ds = foldl (\<lambda>n c. 10 * n + (of_char c - 48)) 0 ds"

fun take_sign :: "string \<Rightarrow> bool \<times> string" where
  "take_sign (c # cs) =
     (if c = CHR ''-'' then (True, cs) else if c = CHR ''+'' then (False, cs) else (False, c # cs))"
| "take_sign [] = (False, [])"

definition take_fraction :: "string \<Rightarrow> string \<times> string" where
  "take_fraction s =
     (case s of
        c # cs \<Rightarrow> if c = CHR ''.'' then (takeWhile is_digit cs, dropWhile is_digit cs) else ([], s)
      | [] \<Rightarrow> ([], []))"

text \<open>The exponent: \<open>None\<close> if the letter is there without digits.\<close>

definition take_exponent :: "string \<Rightarrow> (int \<times> string) option" where
  "take_exponent s =
     (case s of
        c # cs \<Rightarrow>
          if c = CHR ''e'' \<or> c = CHR ''E''
          then let (neg, cs') = take_sign cs; ds = takeWhile is_digit cs' in
               if ds = [] then None
               else Some (if neg then - int (digits_value ds) else int (digits_value ds),
                          dropWhile is_digit cs')
          else Some (0, s)
      | [] \<Rightarrow> Some (0, []))"

definition decimal_value :: "bool \<Rightarrow> string \<Rightarrow> string \<Rightarrow> int \<Rightarrow> rat" where
  "decimal_value neg ip fp e =
     (if neg then - 1 else 1) * of_nat (digits_value (ip @ fp)) * 10 powi (e - int (length fp))"

definition extract_double :: "rounding \<Rightarrow> string \<Rightarrow> (fl \<times> string) option" where
  "extract_double R s =
     (let (neg, s1) = take_sign s;
          ip = takeWhile is_digit s1;
          (fp, s2) = take_fraction (dropWhile is_digit s1) in
      if ip = [] \<and> fp = [] then None
      else case take_exponent s2 of
        None \<Rightarrow> None
      | Some (e, rest) \<Rightarrow>
          (case fl_round binary64 R (decimal_value neg ip fp e) of
             Fin r \<Rightarrow> Some (Fin r, rest) | _ \<Rightarrow> None))"

text \<open>
  The guard object. The four flags say whether the calls of the floating-point environment succeed.
  The result is the value or exception of the guarded code with the rounding mode in force
  afterwards; \<open>None\<close> is \<open>std::terminate\<close>.
\<close>

record fenv_calls =
  feholdexcept_ok :: bool
  fegetround_ok :: bool
  fesetround_ok :: bool
  fesetenv_ok :: bool

definition scoped_round_to_nearest ::
  "fenv_calls \<Rightarrow> rounding \<Rightarrow> (rounding \<Rightarrow> 'a res) \<Rightarrow> ('a res \<times> rounding) option" where
  "scoped_round_to_nearest calls mode body =
     (let restore = (\<lambda>r. if fesetenv_ok calls then Some (r, mode) else None) in
      if \<not> feholdexcept_ok calls
      then Some (Inl (DiscoveryError ''failed to hold the floating-point environment''), mode)
      else if \<not> fegetround_ok calls
      then restore (Inl (DiscoveryError ''failed to inspect the floating-point rounding mode''))
      else if mode \<noteq> ToNearest \<and> \<not> fesetround_ok calls
      then restore (Inl (DiscoveryError ''failed to select round-to-nearest floating-point parsing''))
      else restore (body ToNearest))"

definition parse_positive_count ::
  "fenv_calls \<Rightarrow> rounding \<Rightarrow> string \<Rightarrow> string \<Rightarrow> (fl res \<times> rounding) option" where
  "parse_positive_count calls mode v tag =
     scoped_round_to_nearest calls mode (\<lambda>R.
       let bad = Inl (DiscoveryError (''sensor configuration field '' @ [CHR 0x27] @ tag @ [CHR 0x27] @
                                      '' must be a finite positive number'')) in
       if v = [] \<or> hd v = CHR ''+'' then bad
       else case extract_double R v of
         None \<Rightarrow> bad
       | Some (result, rest) \<Rightarrow>
           if rest \<noteq> [] \<or> \<not> is_finite result \<or> fl_le result (Fin 0) then bad else Inr result)"

section \<open>Units and the whole document\<close>

definition normalize_torque_spelling :: "string \<Rightarrow> string" where
  "normalize_torque_spelling v =
     (if v = ''Nm'' then ''N-m'' else if v = ''Nmm'' then ''N-mm''
      else if v = ''kg-cm'' then ''kgf-cm'' else v)"

definition parse_force_unit :: "string \<Rightarrow> force_unit res" where
  "parse_force_unit v =
     (case force_unit_from_string v of
        None \<Rightarrow> Inl (DiscoveryError ''sensor configuration contains an unknown force unit'')
      | Some u \<Rightarrow> if u = ForceUnknown
          then Inl (DiscoveryError ''sensor configuration contains an unknown force unit'') else Inr u)"

definition parse_torque_unit :: "string \<Rightarrow> torque_unit res" where
  "parse_torque_unit v =
     (case torque_unit_from_string (normalize_torque_spelling v) of
        None \<Rightarrow> Inl (DiscoveryError ''sensor configuration contains an unknown torque unit'')
      | Some u \<Rightarrow> if u = TorqueUnknown
          then Inl (DiscoveryError ''sensor configuration contains an unknown torque unit'') else Inr u)"

text \<open>\<open>catch (const std::invalid_argument &)\<close> around the validation of the calibration.\<close>

definition validate_discovered :: "calibration \<Rightarrow> unit res" where
  "validate_discovered c =
     (case validate_calibration c of
        Inl (InvalidArgument m) \<Rightarrow> Inl (DiscoveryError m) | r \<Rightarrow> r)"

definition build_configuration ::
  "required_fields \<Rightarrow> fl \<Rightarrow> fl \<Rightarrow> sensor_configuration res" where
  "build_configuration fs cpf cpt =
     res_bind (parse_force_unit (fs ! 3)) (\<lambda>fu.
     res_bind (parse_torque_unit (fs ! 4)) (\<lambda>tu.
     let c = \<lparr>counts_per_force_unit = cpf, counts_per_torque_unit = cpt,
              force_unit = fu, torque_unit = tu\<rparr> in
     res_bind (validate_discovered c) (\<lambda>_.
     Inr \<lparr>product_name = fs ! 0, calibration = c, source = Sensor, revision = 1\<rparr>)))"

text \<open>The environment calls of the first and the second number are \<open>calls 0\<close> and \<open>calls 1\<close>.\<close>

definition parse_sensor_configuration ::
  "(nat \<Rightarrow> fenv_calls) \<Rightarrow> rounding \<Rightarrow> string \<Rightarrow> (sensor_configuration res \<times> rounding) option" where
  "parse_sensor_configuration calls mode xml =
     (case extract_required_fields xml of
        Inl e \<Rightarrow> Some (Inl e, mode)
      | Inr fs \<Rightarrow>
          Option.bind (parse_positive_count (calls 0) mode (fs ! 1) ''cfgcpf'') (\<lambda>(r1, m1).
            case r1 of Inl e \<Rightarrow> Some (Inl e, m1)
            | Inr cpf \<Rightarrow>
                Option.bind (parse_positive_count (calls 1) m1 (fs ! 2) ''cfgcpt'') (\<lambda>(r2, m2).
                  case r2 of Inl e \<Rightarrow> Some (Inl e, m2)
                  | Inr cpt \<Rightarrow> Some (build_configuration fs cpf cpt, m2))))"

section \<open>Trimming and field checks\<close>

definition field_ok :: "string \<Rightarrow> bool" where
  "field_ok v \<longleftrightarrow> v \<noteq> [] \<and> length v \<le> kMaximumFieldLength \<and> trim_ascii_whitespace v = v"

lemma dropWhile_hd: "dropWhile P v = c # cs \<Longrightarrow> \<not> P c"
  by (induction v) (auto split: if_splits)

lemma trim_id:
  "(v = [] \<or> \<not> is_ascii_whitespace (hd v) \<and> \<not> is_ascii_whitespace (last v)) \<Longrightarrow>
     trim_ascii_whitespace v = v"
proof -
  assume "v = [] \<or> \<not> is_ascii_whitespace (hd v) \<and> \<not> is_ascii_whitespace (last v)"
  then have "dropWhile is_ascii_whitespace v = v" "dropWhile is_ascii_whitespace (rev v) = rev v"
    by (auto simp: dropWhile_eq_self_iff hd_rev)
  then show ?thesis by (simp add: trim_ascii_whitespace_def)
qed

lemma trim_ends:
  assumes "trim_ascii_whitespace v = c # cs"
  shows "\<not> is_ascii_whitespace c \<and> \<not> is_ascii_whitespace (last (c # cs))"
proof -
  let ?w = "dropWhile is_ascii_whitespace v"
  let ?r = "dropWhile is_ascii_whitespace (rev ?w)"
  have r: "rev ?r = c # cs" using assms by (simp add: trim_ascii_whitespace_def)
  then have ne: "?r \<noteq> []" by auto
  have "last (c # cs) = hd ?r" unfolding r [symmetric] using ne by (simp add: last_rev)
  then have "?r = last (c # cs) # tl ?r" using ne by simp
  then have l: "\<not> is_ascii_whitespace (last (c # cs))" by (rule dropWhile_hd)
  have "rev ?w = takeWhile is_ascii_whitespace (rev ?w) @ ?r" by simp
  then have "?w = rev ?r @ rev (takeWhile is_ascii_whitespace (rev ?w))"
    by (metis rev_append rev_rev_ident)
  then have "?w = c # cs @ rev (takeWhile is_ascii_whitespace (rev ?w))" using r by simp
  then have "\<not> is_ascii_whitespace c" by (rule dropWhile_hd)
  with l show ?thesis by simp
qed

lemma trim_idem [simp]: "trim_ascii_whitespace (trim_ascii_whitespace v) = trim_ascii_whitespace v"
  by (cases "trim_ascii_whitespace v") (auto intro!: trim_id dest: trim_ends)

lemma default_name_ok: "field_ok ''ATI Net F/T''"
  by (simp add: field_ok_def kMaximumFieldLength_def trim_id is_ascii_whitespace_def ascii_space_def)

lemma check_fields_length: "check_fields sn fs is = Inr fs' \<Longrightarrow> length fs' = length fs"
  by (induction sn fs "is" rule: check_fields.induct) (auto simp: Let_def split: if_splits)

lemma check_fields_frame:
  "check_fields sn fs is = Inr fs' \<Longrightarrow> j \<notin> set is \<Longrightarrow> fs' ! j = fs ! j"
  by (induction sn fs "is" rule: check_fields.induct) (auto simp: Let_def split: if_splits)

text \<open>What the final loop establishes for each index it visits.\<close>

lemma check_fields_values:
  assumes "check_fields sn fs is = Inr fs'" and "distinct is" and "\<forall>i \<in> set is. i < length fs"
    and "i \<in> set is"
  shows "(sn ! i \<longrightarrow> fs' ! i = trim_ascii_whitespace (fs ! i) \<and> field_ok (fs' ! i)) \<and>
         (\<not> sn ! i \<longrightarrow> i = 0 \<and> fs' ! i = ''ATI Net F/T'')"
  using assms
proof (induction sn fs "is" rule: check_fields.induct)
  case (2 sn fs k "is")
  then show ?case
    by (cases "i = k")
      (auto simp: Let_def field_ok_def dest: check_fields_frame [of _ _ _ _ k] split: if_splits)
qed simp

lemma check_fields_succeeds:
  assumes "distinct is" and "\<forall>i \<in> set is. i < length fs"
    and "\<forall>i \<in> set is. (if sn ! i then field_ok (trim_ascii_whitespace (fs ! i)) else i = 0)"
  shows "\<exists>fs'. check_fields sn fs is = Inr fs'"
  using assms
proof (induction sn fs "is" rule: check_fields.induct)
  case (2 sn fs k "is")
  have u: "\<forall>i \<in> set is. fs[k := w] ! i = fs ! i" for w
    using "2.prems"(1) by (metis distinct.simps(2) nth_list_update_neq)
  have c: "\<forall>i \<in> set is. if sn ! i then field_ok (trim_ascii_whitespace (fs[k := w] ! i)) else i = 0" for w
    using "2.prems"(3) u [of w] by simp
  show ?case
  proof (cases "sn ! k")
    case True
    then show ?thesis
      using "2.prems" "2.IH"(2) [OF _ _ _ _ _ _ c] by (simp add: Let_def field_ok_def)
  next
    case False
    then show ?thesis using "2.prems" "2.IH"(1) [OF _ _ _ _ c] by auto
  qed
qed simp

lemma length_append_required_text [simp]:
  "length (append_required_text els fs t) = length fs"
  by (auto simp: append_required_text_def split: option.splits)

lemma tag_fields:
  "close_tag tag st = Inr st' \<Longrightarrow> scan_fields st' = scan_fields st"
  "open_tag tag st = Inr st' \<Longrightarrow> scan_fields st' = scan_fields st"
  by (auto simp: close_tag_def open_tag_def Let_def res_bind_Inr_iff split: if_splits)

lemma scan_step_length:
  "scan_step xml pos st = Inr (pos', st') \<Longrightarrow> length (scan_fields st') = length (scan_fields st)"
  by (auto simp: scan_step_def Let_def res_bind_Inr_iff map_sum_def
      split: option.splits if_splits sum.splits dest: tag_fields)

lemma scan_loop_length:
  "scan_loop xml pos st = Inr st' \<Longrightarrow> length (scan_fields st') = length (scan_fields st)"
proof (induction xml pos st rule: scan_loop.induct)
  case (1 xml pos st)
  then show ?case
    by (subst (asm) scan_loop.simps)
      (auto split: if_splits sum.splits prod.splits dest: scan_step_length)
qed

lemma extract_required_fields_ok:
  assumes "extract_required_fields xml = Inr fs"
  shows "length fs = 5 \<and> (\<forall>v \<in> set fs. field_ok v)"
proof -
  from assms obtain st where st: "scan_loop xml 0 scan_init = Inr st"
    "check_fields (seen st) (scan_fields st) [0..<length kRequiredTags] = Inr fs"
    by (auto simp: extract_required_fields_def res_bind_Inr_iff split: if_splits)
  have l: "length (scan_fields st) = 5" using scan_loop_length [OF st(1)] by (simp add: scan_init_def)
  have k: "length kRequiredTags = 5" by (simp add: kRequiredTags_def)
  have "length fs = 5" using check_fields_length [OF st(2)] l by simp
  moreover have "field_ok (fs ! i)" if "i < 5" for i
    using check_fields_values [OF st(2), of i] that l k default_name_ok
    by (cases "seen st ! i") auto
  ultimately show ?thesis by (auto simp: in_set_conv_nth)
qed

section \<open>Documents\<close>

text \<open>
  The shape of a configuration document: a root element that holds elements with text. Names have no
  white space, slashes, angle brackets, quotes, exclamation or question marks; text has no opening
  angle bracket.
\<close>

definition plain_name :: "string \<Rightarrow> bool" where
  "plain_name t \<longleftrightarrow> t \<noteq> [] \<and>
     list_all (\<lambda>c. \<not> is_ascii_whitespace c \<and>
       c \<notin> {CHR ''/'', CHR ''<'', CHR ''>'', CHR 0x27, CHR 0x22, CHR ''!'', CHR ''?''}) t"

definition plain_text :: "string \<Rightarrow> bool" where
  "plain_text x \<longleftrightarrow> CHR ''<'' \<notin> set x"

definition tag_element :: "string \<times> string \<Rightarrow> string" where
  "tag_element = (\<lambda>(t, x). ''<'' @ t @ ''>'' @ x @ ''</'' @ t @ ''>'')"

definition document :: "string \<Rightarrow> (string \<times> string) list \<Rightarrow> string" where
  "document rt es = ''<'' @ rt @ ''>'' @ concat (map tag_element es) @ ''</'' @ rt @ ''>''"

text \<open>The effect of one element on the fields and on the set of fields seen.\<close>

fun add_element :: "string \<times> string \<Rightarrow> string list \<times> bool list \<Rightarrow> (string list \<times> bool list) res" where
  "add_element (t, x) (fs, sn) =
     (case required_tag_index t of
        None \<Rightarrow> Inr (fs, sn)
      | Some i \<Rightarrow> if sn ! i then Inl (must_appear_once i)
                  else Inr (fs[i := fs ! i @ x], sn[i := True]))"

fun add_elements ::
  "(string \<times> string) list \<Rightarrow> string list \<times> bool list \<Rightarrow> (string list \<times> bool list) res" where
  "add_elements [] a = Inr a"
| "add_elements (e # es) a = res_bind (add_element e a) (add_elements es)"

lemma index_of_char:
  "c \<notin> set x \<Longrightarrow> index_of (\<lambda>r. hd r = c) i (x @ c # post) = Some (i + length x)"
  by (induction x arbitrary: i) auto

lemma tag_end_loop_plain:
  "list_all (\<lambda>c. c \<notin> {CHR ''>'', CHR 0x27, CHR 0x22}) u \<Longrightarrow>
     tag_end_loop i None (u @ CHR ''>'' # post) = Inr (i + length u)"
  by (induction u arbitrary: i) auto

text \<open>A tag as the scanner sees it: a plain name, or one after a slash.\<close>

definition tag_text :: "string \<Rightarrow> bool" where
  "tag_text u \<longleftrightarrow> u \<noteq> [] \<and> hd u \<noteq> CHR ''!'' \<and> hd u \<noteq> CHR ''?'' \<and>
     list_all (\<lambda>c. \<not> is_ascii_whitespace c \<and> c \<notin> {CHR ''>'', CHR 0x27, CHR 0x22}) u"

lemma plain_tag_text: "plain_name t \<Longrightarrow> tag_text t" "plain_name t \<Longrightarrow> tag_text (CHR ''/'' # t)"
  by (cases t; auto simp: plain_name_def tag_text_def is_ascii_whitespace_def ascii_space_def list_all_iff)+

lemma tag_text_trim: "tag_text u \<Longrightarrow> trim_ascii_whitespace u = u"
  by (intro trim_id) (auto simp: tag_text_def list_all_iff)

lemma scan_step_tag:
  assumes "plain_text x" and "tag_text u"
  shows "scan_step (pre @ x @ ''<'' @ u @ ''>'' @ post) (length pre) st0 =
    map_sum id (\<lambda>st'. (length (pre @ x @ ''<'' @ u @ ''>''), st'))
      (let st = st0\<lparr>scan_fields := append_required_text (elements st0) (scan_fields st0) x\<rparr> in
       if hd u = CHR ''/'' then close_tag u st else open_tag u st)"
proof -
  let ?xml = "pre @ x @ ''<'' @ u @ ''>'' @ post"
  obtain a u' where u: "u = a # u'" "a \<noteq> CHR ''!''" "a \<noteq> CHR ''?''"
    using assms(2) by (cases u) (auto simp: tag_text_def)
  have ne: "u \<noteq> []" using u by simp
  have f: "find_char (CHR ''<'') ?xml (length pre) = Some (length pre + length x)"
    using assms(1) by (simp add: find_char_def plain_text_def index_of_char)
  have d: "drop (length pre + length x) ?xml = CHR ''<'' # a # u' @ ''>'' @ post"
    using u by simp
  have k: "substr ?xml (length pre + length x) 4 \<noteq> ''<!--''"
      "substr ?xml (length pre + length x) 9 \<noteq> ''<![CDATA[''"
      "substr ?xml (length pre + length x) 2 \<noteq> ''<?''"
      "substr ?xml (length pre + length x) 2 \<noteq> ''<!''"
    using u unfolding substr_def d by (simp_all add: numeral_eq_Suc)
  have e: "find_tag_end ?xml (length pre + length x + 1) = Inr (length pre + length x + 1 + length u)"
    using assms(2) tag_end_loop_plain [of u "length pre + length x + 1" post]
    by (simp add: find_tag_end_def tag_text_def list_all_iff)
  have t: "substr ?xml (length pre + length x + 1) (length u) = u" "substr ?xml (length pre) (length x) = x"
    by (simp_all add: substr_def)
  show ?thesis
    unfolding scan_step_def f option.case Let_def
    using k e t ne by (simp add: tag_text_trim [OF assms(2)] add.assoc)
qed

lemma scan_loop_tag:
  assumes "plain_text x" and "tag_text u"
    and "xml = pre @ x @ ''<'' @ u @ ''>'' @ post"
  shows "scan_loop xml (length pre) st0 =
    res_bind (let st = st0\<lparr>scan_fields := append_required_text (elements st0) (scan_fields st0) x\<rparr> in
              if hd u = CHR ''/'' then close_tag u st else open_tag u st)
      (scan_loop xml (length (pre @ x @ ''<'' @ u @ ''>'')))"
  unfolding assms(3)
  by (subst scan_loop.simps, subst scan_step_tag [OF assms(1,2)])
    (auto simp: Let_def map_sum_def res_bind_def split: sum.splits)

lemma open_plain_tag:
  assumes "plain_name t" and "elements st = [] \<or> required_index (last (elements st)) = None"
  shows "open_tag t st =
    res_bind (case required_tag_index t of
                None \<Rightarrow> Inr (seen st)
              | Some i \<Rightarrow> if seen st ! i then Inl (must_appear_once i) else Inr ((seen st)[i := True]))
      (\<lambda>sn. Inr (st\<lparr>seen := sn,
                     elements := elements st @ [\<lparr>name = t, required_index = required_tag_index t\<rparr>]\<rparr>))"
proof -
  have t: "last t \<noteq> CHR ''/''" "t \<noteq> []" "hd t \<noteq> CHR ''/''"
    and tw: "takeWhile (\<lambda>c. \<not> is_ascii_whitespace c) t = t"
    using assms(1) by (auto simp: plain_name_def list_all_iff)
  show ?thesis
    unfolding open_tag_def Let_def using t assms(2) by (auto simp only: tw if_False simp_thms)
qed

lemma close_plain_tag:
  assumes "plain_name t" and "elements st \<noteq> []" and "name (last (elements st)) = t"
  shows "close_tag (CHR ''/'' # t) st = Inr (st\<lparr>elements := butlast (elements st)\<rparr>)"
proof -
  have "trim_ascii_whitespace t = t" using plain_tag_text(1) [OF assms(1)] by (rule tag_text_trim)
  moreover have "\<not> list_ex (\<lambda>c. is_ascii_whitespace c \<or> c = CHR ''/'') t" "t \<noteq> []"
    using assms(1) by (auto simp: plain_name_def list_all_iff list_ex_iff)
  ultimately show ?thesis using assms(2,3) by (simp add: close_tag_def Let_def)
qed

lemma required_tag_index_less: "required_tag_index t = Some i \<Longrightarrow> i < 5"
  by (auto simp: required_tag_index_def kRequiredTags_def split: if_splits)

text \<open>An element inside the root: its tags are consumed and its text is appended to its field.\<close>

lemma scan_loop_element:
  assumes t: "plain_name t" and x: "plain_text x"
    and st: "elements st = [e]" "required_index e = None"
    and xml: "xml = pre @ tag_element (t, x) @ post"
  shows "scan_loop xml (length pre) st =
    res_bind (add_element (t, x) (scan_fields st, seen st))
      (\<lambda>(fs, sn). scan_loop xml (length (pre @ tag_element (t, x))) (st\<lparr>scan_fields := fs, seen := sn\<rparr>))"
proof -
  let ?sl = "CHR ''/''"
  let ?el = "\<lparr>name = t, required_index = required_tag_index t\<rparr>"
  have a0: "append_required_text (elements st) (scan_fields st) [] = scan_fields st"
    using st by (simp add: append_required_text_def)
  have hd: "hd t \<noteq> ?sl" using t by (cases t) (auto simp: plain_name_def)
  have o: "scan_loop xml (length pre) st =
      res_bind (open_tag t st) (scan_loop xml (length (pre @ ''<'' @ t @ ''>'')))"
    using scan_loop_tag [of "[]" t xml pre "x @ ''</'' @ t @ ''>'' @ post" st] a0 hd plain_tag_text(1) [OF t]
    by (simp add: xml tag_element_def plain_text_def)
  have c: "scan_loop xml (length (pre @ ''<'' @ t @ ''>'')) st1 =
      scan_loop xml (length (pre @ tag_element (t, x)))
        (st1\<lparr>scan_fields := append_required_text (elements st1) (scan_fields st1) x,
              elements := butlast (elements st1)\<rparr>)"
    if "elements st1 = [e, ?el]" for st1
    using scan_loop_tag [OF x plain_tag_text(2) [OF t], of xml "pre @ ''<'' @ t @ ''>''" post st1] that t
    by (simp add: xml tag_element_def close_plain_tag)
  show ?thesis
    unfolding o using st
    by (cases st; cases "required_tag_index t")
      (simp_all add: open_plain_tag [OF t] c [simplified] append_required_text_def)
qed

lemma scan_loop_elements:
  assumes "\<forall>(t, x) \<in> set es. plain_name t \<and> plain_text x"
    and "elements st = [e]" "required_index e = None"
    and "xml = pre @ concat (map tag_element es) @ post"
  shows "scan_loop xml (length pre) st =
    res_bind (add_elements es (scan_fields st, seen st))
      (\<lambda>(fs, sn). scan_loop xml (length (pre @ concat (map tag_element es)))
                    (st\<lparr>scan_fields := fs, seen := sn\<rparr>))"
  using assms
proof (induction es arbitrary: pre st)
  case (Cons te es)
  obtain t x where te: "te = (t, x)" by fastforce
  have "scan_loop xml (length pre) st =
    res_bind (add_element te (scan_fields st, seen st))
      (\<lambda>(fs, sn). scan_loop xml (length (pre @ tag_element te)) (st\<lparr>scan_fields := fs, seen := sn\<rparr>))"
    unfolding te using Cons.prems
    by (intro scan_loop_element [where post = "concat (map tag_element es) @ post"]) (auto simp: te)
  then show ?case
    using Cons.IH [of _ "pre @ tag_element te"] Cons.prems
    by (cases "add_element te (scan_fields st, seen st)") (auto simp: split_def)
qed simp

text \<open>Scanning a whole document is adding its elements, then checking the fields.\<close>

lemma extract_document:
  assumes "plain_name rt" and "required_tag_index rt = None"
    and "\<forall>(t, x) \<in> set es. plain_name t \<and> plain_text x"
  shows "extract_required_fields (document rt es) =
    res_bind (add_elements es (replicate 5 [], replicate 5 False))
      (\<lambda>(fs, sn). check_fields sn fs [0..<length kRequiredTags])"
proof -
  let ?xml = "document rt es" and ?e = "\<lparr>name = rt, required_index = None\<rparr>"
  let ?p = "''<'' @ rt @ ''>''"
  let ?q = "?p @ concat (map tag_element es)"
  have hd: "hd rt \<noteq> CHR ''/''" using assms(1) by (cases rt) (auto simp: plain_name_def)
  have o: "scan_loop ?xml 0 scan_init = scan_loop ?xml (length ?p) (scan_init\<lparr>elements := [?e]\<rparr>)"
    using scan_loop_tag [of "[]" rt ?xml "[]" "concat (map tag_element es) @ ''</'' @ rt @ ''>''" scan_init]
      hd plain_tag_text(1) [OF assms(1)] assms(2) open_plain_tag [OF assms(1), of scan_init]
    by (simp add: document_def plain_text_def scan_init_def append_required_text_def)
  have c: "scan_loop ?xml (length ?q) st = Inr (st\<lparr>elements := []\<rparr>)"
    if "elements st = [?e]" for st
  proof -
    have "scan_loop ?xml (length ?q) st =
        res_bind (close_tag (CHR ''/'' # rt) st) (scan_loop ?xml (length ?xml))"
      using scan_loop_tag [OF _ plain_tag_text(2) [OF assms(1)], of "[]" ?xml ?q "[]" st] that
      by (simp add: document_def plain_text_def append_required_text_def)
    then show ?thesis
      using that assms(1) by (simp add: close_plain_tag scan_loop.simps [of _ "length ?xml"])
  qed
  have "scan_loop ?xml 0 scan_init =
    res_bind (add_elements es (replicate 5 [], replicate 5 False))
      (\<lambda>(fs, sn). Inr \<lparr>scan_fields = fs, seen = sn, elements = []\<rparr>)"
    unfolding o using assms(3)
    by (subst scan_loop_elements [where post = "''</'' @ rt @ ''>''" and e = ?e])
      (auto simp: document_def scan_init_def c [unfolded document_def, simplified] split_def)
  then show ?thesis
    by (cases "add_elements es (replicate 5 [], replicate 5 False)")
      (auto simp: extract_required_fields_def)
qed

lemma length_kRequiredTags [simp]: "length kRequiredTags = 5"
  by (simp add: kRequiredTags_def)

lemma required_tag_index_iff: "required_tag_index t = Some i \<longleftrightarrow> i < 5 \<and> t = kRequiredTags ! i"
proof
  assume "required_tag_index t = Some i"
  then show "i < 5 \<and> t = kRequiredTags ! i"
    unfolding required_tag_index_def find_Some_iff by auto
next
  assume a: "i < 5 \<and> t = kRequiredTags ! i"
  then consider "i = 0" | "i = 1" | "i = 2" | "i = 3" | "i = 4" by linarith
  then show "required_tag_index t = Some i"
    using a by cases (simp_all add: required_tag_index_def kRequiredTags_def)
qed

text \<open>The texts a document gives for a field.\<close>

definition texts :: "(string \<times> string) list \<Rightarrow> nat \<Rightarrow> string list" where
  "texts es i = map snd (filter (\<lambda>(t, _). t = kRequiredTags ! i) es)"

lemma texts_Nil [simp]: "texts [] i = []"
  by (simp add: texts_def)

lemma texts_Cons:
  "i < 5 \<Longrightarrow> texts ((t, x) # es) i = (if required_tag_index t = Some i then x # texts es i else texts es i)"
  by (simp add: texts_def required_tag_index_iff)

definition once :: "bool list \<Rightarrow> (string \<times> string) list \<Rightarrow> bool" where
  "once sn es \<longleftrightarrow> (\<forall>i < 5. length (texts es i) \<le> (if sn ! i then 0 else 1))"

lemma add_elements_once:
  assumes "length fs = 5" and "length sn = 5" and "once sn es"
  shows "\<exists>fs' sn'. add_elements es (fs, sn) = Inr (fs', sn') \<and> length fs' = 5 \<and> length sn' = 5 \<and>
    (\<forall>i < 5. fs' ! i = fs ! i @ concat (texts es i) \<and> sn' ! i = (sn ! i \<or> texts es i \<noteq> []))"
  using assms
proof (induction es arbitrary: fs sn)
  case (Cons te es)
  obtain t x where te: "te = (t, x)" by fastforce
  show ?case
  proof (cases "required_tag_index t")
    case None
    then have "texts (te # es) i = texts es i" if "i < 5" for i using that by (simp add: te texts_Cons)
    then show ?thesis using Cons.IH [OF Cons.prems(1,2)] Cons.prems(3) None
      by (simp add: te once_def)
  next
    case (Some i)
    then have i: "i < 5" by (simp add: required_tag_index_iff)
    have ti: "texts (te # es) i = x # texts es i" using Some i by (simp add: te texts_Cons)
    have tj: "texts (te # es) j = texts es j" if "j < 5" "j \<noteq> i" for j
      using Some that by (simp add: te texts_Cons)
    have sn: "\<not> sn ! i" and ti': "texts es i = []"
      using Cons.prems(3) i ti by (force simp: once_def split: if_splits)+
    have "length (texts es j) \<le> (if sn[i := True] ! j then 0 else 1)" if "j < 5" for j
      using Cons.prems(2,3) tj [of j] ti' that by (cases "j = i") (auto simp: once_def)
    then have "once (sn[i := True]) es" by (simp add: once_def)
    then obtain fs' sn' where r: "add_elements es (fs[i := fs ! i @ x], sn[i := True]) = Inr (fs', sn')"
      "length fs' = 5" "length sn' = 5"
      "\<forall>j < 5. fs' ! j = fs[i := fs ! i @ x] ! j @ concat (texts es j) \<and>
               sn' ! j = (sn[i := True] ! j \<or> texts es j \<noteq> [])"
      using Cons.IH [of "fs[i := fs ! i @ x]" "sn[i := True]"] Cons.prems(1,2) by auto
    have "fs' ! j = fs ! j @ concat (texts (te # es) j) \<and> sn' ! j = (sn ! j \<or> texts (te # es) j \<noteq> [])"
      if "j < 5" for j
      using r(4) that Cons.prems(1,2) ti ti' tj by (cases "j = i") auto
    then show ?thesis using r sn Some by (simp add: te)
  qed
qed simp

lemma add_elements_twice:
  assumes "length sn = 5" and "\<not> once sn es"
  shows "\<exists>e. add_elements es (fs, sn) = Inl e"
  using assms
proof (induction es arbitrary: fs sn)
  case Nil
  then show ?case by (simp add: once_def)
next
  case (Cons te es)
  obtain t x where te: "te = (t, x)" by fastforce
  show ?case
  proof (cases "required_tag_index t")
    case None
    then show ?thesis using Cons by (simp add: te once_def texts_Cons)
  next
    case (Some i)
    then have i: "i < 5" by (simp add: required_tag_index_iff)
    show ?thesis
    proof (cases "sn ! i")
      case False
      obtain j where j: "j < 5" "\<not> length (texts (te # es) j) \<le> (if sn ! j then 0 else 1)"
        using Cons.prems(2) by (auto simp: once_def)
      have "\<not> length (texts es j) \<le> (if sn[i := True] ! j then 0 else 1)"
        using j Some False Cons.prems(1) i by (cases "j = i") (auto simp: te texts_Cons)
      then have "\<not> once (sn[i := True]) es" using j(1) by (auto simp: once_def)
      then show ?thesis using Cons.IH [of "sn[i := True]"] Cons.prems(1) Some False by (simp add: te)
    qed (use Some in \<open>simp add: te\<close>)
  qed
qed

text \<open>Checking the collected texts.\<close>

definition texts_ok :: "(string \<times> string) list \<Rightarrow> nat \<Rightarrow> bool" where
  "texts_ok es i \<longleftrightarrow> length (texts es i) \<le> 1 \<and> (texts es i = [] \<longrightarrow> i = 0) \<and>
     (\<forall>x \<in> set (texts es i). field_ok (trim_ascii_whitespace x))"

definition field_of :: "(string \<times> string) list \<Rightarrow> nat \<Rightarrow> string" where
  "field_of es i =
     (case texts es i of [] \<Rightarrow> ''ATI Net F/T'' | x # _ \<Rightarrow> trim_ascii_whitespace x)"

lemma check_fields_texts:
  assumes "length fs = 5" and "\<forall>i < 5. length (texts es i) \<le> 1"
    and "\<forall>i < 5. fs ! i = concat (texts es i) \<and> sn ! i = (texts es i \<noteq> [])"
  shows "check_fields sn fs [0..<5] = Inr fs' \<Longrightarrow> i < 5 \<Longrightarrow> texts_ok es i \<and> fs' ! i = field_of es i"
    and "(\<forall>i < 5. texts_ok es i) \<Longrightarrow> \<exists>fs'. check_fields sn fs [0..<5] = Inr fs'"
proof -
  have one: "texts es i = [] \<or> (\<exists>x. texts es i = [x])" if "i < 5" for i
  proof (cases "texts es i")
    case (Cons x xs)
    then show ?thesis using assms(2) that by fastforce
  qed simp
  show "texts_ok es i \<and> fs' ! i = field_of es i" if "check_fields sn fs [0..<5] = Inr fs'" "i < 5"
    using check_fields_values [OF that(1), of i] that(2) assms(1,3) one [of i]
    by (auto simp: texts_ok_def field_of_def)
  show "\<exists>fs'. check_fields sn fs [0..<5] = Inr fs'" if ok: "\<forall>i < 5. texts_ok es i"
  proof (rule check_fields_succeeds)
    show "\<forall>i \<in> set [0..<5]. if sn ! i then field_ok (trim_ascii_whitespace (fs ! i)) else i = 0"
    proof
      fix i :: nat assume "i \<in> set [0..<5]"
      then show "if sn ! i then field_ok (trim_ascii_whitespace (fs ! i)) else i = 0"
        using ok assms(3) one [of i] by (auto simp: texts_ok_def)
    qed
  qed (use assms(1) in auto)
qed

section \<open>Properties\<close>

text \<open>
  C35. A document of a root element with plain text elements parses exactly when every field appears
  at most once, every field but the product name appears, and every text that appears is non-empty
  and at most 128 characters after trimming. The result is then the trimmed texts, with the default
  name where the product name is missing; other elements are ignored, in any order.
\<close>

theorem document_roundtrip:
  assumes "plain_name rt" and "required_tag_index rt = None"
    and "\<forall>(t, x) \<in> set es. plain_name t \<and> plain_text x"
  shows "(is_ok (extract_required_fields (document rt es)) \<longleftrightarrow>
           (\<forall>i < 5. length (texts es i) \<le> 1 \<and> (texts es i = [] \<longrightarrow> i = 0) \<and>
                    (\<forall>x \<in> set (texts es i). field_ok (trim_ascii_whitespace x)))) \<and>
         (\<forall>fs i. extract_required_fields (document rt es) = Inr fs \<longrightarrow> i < 5 \<longrightarrow>
           fs ! i = (case texts es i of [] \<Rightarrow> ''ATI Net F/T'' | x # _ \<Rightarrow> trim_ascii_whitespace x))"
proof -
  let ?F = "replicate 5 []" and ?S = "replicate 5 False"
  note ex = extract_document [OF assms]
  have o: "once ?S es \<longleftrightarrow> (\<forall>i < 5. length (texts es i) \<le> 1)" by (simp add: once_def)
  show ?thesis
    unfolding texts_ok_def [symmetric] field_of_def [symmetric]
  proof (cases "once ?S es")
    case False
    then obtain e where "add_elements es (?F, ?S) = Inl e" using add_elements_twice [of ?S es ?F] by auto
    then show "is_ok (extract_required_fields (document rt es)) = (\<forall>i<5. texts_ok es i) \<and>
        (\<forall>fs i. extract_required_fields (document rt es) = Inr fs \<longrightarrow> i < 5 \<longrightarrow> fs ! i = field_of es i)"
      using False o by (auto simp: ex texts_ok_def)
  next
    case True
    then obtain fs sn where a: "add_elements es (?F, ?S) = Inr (fs, sn)" "length fs = 5"
      "\<forall>i < 5. fs ! i = concat (texts es i) \<and> sn ! i = (texts es i \<noteq> [])"
      using add_elements_once [of ?F ?S es] by auto
    note c = check_fields_texts [OF a(2) _ a(3)]
    show "is_ok (extract_required_fields (document rt es)) = (\<forall>i<5. texts_ok es i) \<and>
        (\<forall>fs i. extract_required_fields (document rt es) = Inr fs \<longrightarrow> i < 5 \<longrightarrow> fs ! i = field_of es i)"
      using True o c a(1) by (auto simp: ex is_ok_iff)
  qed
qed

theorem document_roundtrip_witness:
  "let es = [(''scfgtu'', ''N-mm''), (''cfgcpf'', ''1000000''), (''other'', ''x''), (''cfgcpt'', ''1e6''),
             (''scfgfu'', '' N '')] in
   is_ok (extract_required_fields (document ''netft'' es)) \<and>
   \<not> is_ok (extract_required_fields (document ''netft'' (es @ [(''cfgcpf'', ''2'')])))"
proof -
  let ?es = "[(''scfgtu'', ''N-mm''), (''cfgcpf'', ''1000000''), (''other'', ''x''), (''cfgcpt'', ''1e6''),
             (''scfgfu'', '' N '')]"
  have n: "plain_name ''netft''" "required_tag_index ''netft'' = None"
    by (simp_all add: plain_name_def is_ascii_whitespace_def ascii_space_def required_tag_index_def kRequiredTags_def)
  have p: "\<forall>(t, x) \<in> set (?es @ [(''cfgcpf'', ''2'')]). plain_name t \<and> plain_text x"
    by (simp add: plain_name_def plain_text_def is_ascii_whitespace_def ascii_space_def)
  then have p': "\<forall>(t, x) \<in> set ?es. plain_name t \<and> plain_text x" by simp
  have five: "(\<forall>i < 5. P i) \<longleftrightarrow> P 0 \<and> P 1 \<and> P 2 \<and> P 3 \<and> P (4 :: nat)" for P
    by (auto simp: numeral_eq_Suc less_Suc_eq)
  show ?thesis
    using document_roundtrip [OF n p] document_roundtrip [OF n p']
    unfolding five Let_def
    by (simp add: texts_def kRequiredTags_def field_ok_def trim_ascii_whitespace_def
        is_ascii_whitespace_def ascii_space_def kMaximumFieldLength_def)
qed

section \<open>Outcomes of a parse\<close>

fun is_discovery_error :: "exn \<Rightarrow> bool" where
  "is_discovery_error (DiscoveryError _) = True"
| "is_discovery_error _ = False"

lemma tag_end_loop_error: "tag_end_loop i q s = Inl e \<Longrightarrow> is_discovery_error e"
  by (induction i q s rule: tag_end_loop.induct) (auto split: option.splits if_splits)

lemma tag_error:
  "close_tag tag st = Inl e \<Longrightarrow> is_discovery_error e"
  "open_tag tag st = Inl e \<Longrightarrow> is_discovery_error e"
  by (auto simp: close_tag_def open_tag_def Let_def res_bind_Inl_iff malformed_nesting_def
      malformed_markup_def must_appear_once_def split: if_splits option.splits)

lemma scan_step_error: "scan_step xml pos st = Inl e \<Longrightarrow> is_discovery_error e"
  by (auto simp: scan_step_def Let_def res_bind_Inl_iff map_sum_def malformed_markup_def find_tag_end_def
      split: option.splits if_splits sum.splits dest: tag_error tag_end_loop_error)

lemma scan_loop_error: "scan_loop xml pos st = Inl e \<Longrightarrow> is_discovery_error e"
proof (induction xml pos st rule: scan_loop.induct)
  case (1 xml pos st)
  then show ?case
    by (subst (asm) scan_loop.simps)
      (auto split: if_splits sum.splits prod.splits dest: scan_step_error)
qed

lemma check_fields_error: "check_fields sn fs is = Inl e \<Longrightarrow> is_discovery_error e"
  by (induction sn fs "is" rule: check_fields.induct)
    (auto simp: Let_def must_appear_once_def field_error_def split: if_splits)

lemma extract_required_fields_error: "extract_required_fields xml = Inl e \<Longrightarrow> is_discovery_error e"
  by (auto simp: extract_required_fields_def res_bind_Inl_iff malformed_nesting_def
      split: if_splits dest: scan_loop_error check_fields_error)

lemma scoped_round_to_nearest_cases:
  assumes "scoped_round_to_nearest calls mode body = Some (r, m)"
  shows "m = mode \<and> (r = body ToNearest \<or> (\<exists>t. r = Inl (DiscoveryError t)))"
  using assms by (auto simp: scoped_round_to_nearest_def Let_def split: if_splits)

lemma parse_positive_count_cases:
  assumes "parse_positive_count calls mode v tag = Some (r, m)"
  shows "m = mode \<and> (case r of Inl e \<Rightarrow> is_discovery_error e | Inr x \<Rightarrow> is_finite x \<and> fl_less (Fin 0) x)"
proof -
  have pos: "\<not> fl_le x (Fin 0) \<longleftrightarrow> fl_less (Fin 0) x" if "is_finite x" for x
    using that by (cases x) (auto simp: fl_le_def)
  show ?thesis
    using scoped_round_to_nearest_cases [OF assms [unfolded parse_positive_count_def]]
    by (auto simp: Let_def pos split: if_splits option.splits)
qed

lemma validate_calibration_error: "validate_calibration c = Inl e \<Longrightarrow> \<exists>m. e = InvalidArgument m"
  by (auto simp: validate_calibration_def require_safe_count_def require_positive_finite_def
      res_bind_Inl_iff split: if_splits)

lemma validate_discovered_error: "validate_discovered c = Inl e \<Longrightarrow> is_discovery_error e"
  unfolding validate_discovered_def
  by (cases "validate_calibration c") (auto dest!: validate_calibration_error)

lemma validate_discovered_ok: "validate_discovered c = Inr u \<Longrightarrow> validate_calibration c = Inr ()"
  unfolding validate_discovered_def
  by (cases "validate_calibration c") (auto dest!: validate_calibration_error)

lemma build_configuration_error: "build_configuration fs cpf cpt = Inl e \<Longrightarrow> is_discovery_error e"
  by (auto simp: build_configuration_def parse_force_unit_def parse_torque_unit_def Let_def
      res_bind_Inl_iff dest: validate_discovered_error split: option.splits if_splits)

lemma build_configuration_ok:
  assumes "build_configuration fs cpf cpt = Inr sc"
  shows "validate_calibration (calibration sc) = Inr () \<and> source sc = Sensor \<and> revision sc = 1 \<and>
       product_name sc = fs ! 0 \<and> counts_per_force_unit (calibration sc) = cpf \<and>
       counts_per_torque_unit (calibration sc) = cpt \<and>
       force_unit_to_string (force_unit (calibration sc)) = fs ! 3 \<and>
       torque_unit_to_string (torque_unit (calibration sc)) = normalize_torque_spelling (fs ! 4)"
proof -
  have f: "force_unit_to_string u = v" if "force_unit_from_string v = Some u" for u v
    using that unfolding force_unit_from_string_def by (auto split: if_splits)
  have t: "torque_unit_to_string u = v" if "torque_unit_from_string v = Some u" for u v
    using that unfolding torque_unit_from_string_def by (auto split: if_splits)
  show ?thesis
    using assms
    by (auto simp: build_configuration_def parse_force_unit_def parse_torque_unit_def Let_def
        res_bind_Inr_iff dest: f t validate_discovered_ok split: option.splits if_splits)
qed

text \<open>Decimal counts: what \<open>std::to_string\<close> prints, the stream reads back.\<close>

lemma digit_char_props: "d < 10 \<Longrightarrow> is_digit (digit_char d) \<and> (of_char (digit_char d) :: nat) = 48 + d"
  by (simp add: is_digit_def digit_char_def)

lemma digits_value_snoc: "digits_value (ds @ [c]) = 10 * digits_value ds + (of_char c - 48)"
  by (simp add: digits_value_def)

lemma show_nat_digits: "list_all is_digit (show_nat n) \<and> show_nat n \<noteq> [] \<and> digits_value (show_nat n) = n"
proof (induction n rule: show_nat.induct)
  case (1 n)
  show ?case
  proof (cases "n < 10")
    case True
    then show ?thesis using digit_char_props [of n]
      by (subst show_nat.simps, subst show_nat.simps, subst show_nat.simps) (simp add: digits_value_def)
  next
    case False
    then show ?thesis using 1 digit_char_props [of "n mod 10"]
      by (subst show_nat.simps, subst show_nat.simps, subst show_nat.simps) (simp add: digits_value_snoc)
  qed
qed

lemma extract_double_digits:
  assumes "list_all is_digit ds" and "ds \<noteq> []" and "digits_value ds < 2 ^ 53"
  shows "extract_double R ds = Some (Fin (of_nat (digits_value ds)), [])"
proof -
  have d: "takeWhile is_digit ds = ds" "dropWhile is_digit ds = []"
    using assms(1) by (simp_all add: list_all_iff)
  have "take_sign ds = (False, ds)"
    using assms(1,2) by (cases ds) (auto simp: is_digit_def)
  moreover have "fl_round binary64 R (of_nat (digits_value ds)) = Fin (of_nat (digits_value ds))"
    using fl_round_int [of binary64 "int (digits_value ds)" R] assms(3) by simp
  ultimately show ?thesis
    using assms(2) by (simp add: d extract_double_def take_fraction_def take_exponent_def decimal_value_def)
qed

definition fenv_ok :: fenv_calls where
  "fenv_ok = \<lparr>feholdexcept_ok = True, fegetround_ok = True, fesetround_ok = True, fesetenv_ok = True\<rparr>"

lemma scoped_ok: "scoped_round_to_nearest fenv_ok mode body = Some (body ToNearest, mode)"
  by (simp add: scoped_round_to_nearest_def fenv_ok_def)

lemma parse_sensor_configuration_cases:
  assumes "parse_sensor_configuration calls mode xml = Some (r, m)"
  shows "m = mode \<and>
    (case r of Inl e \<Rightarrow> is_discovery_error e
     | Inr sc \<Rightarrow> validate_calibration (calibration sc) = Inr () \<and> source sc = Sensor \<and> revision sc = 1 \<and>
         field_ok (product_name sc) \<and>
         fl_less (Fin 0) (counts_per_force_unit (calibration sc)) \<and>
         fl_less (Fin 0) (counts_per_torque_unit (calibration sc)))"
proof (cases "extract_required_fields xml")
  case (Inl e)
  then show ?thesis using assms extract_required_fields_error by (auto simp: parse_sensor_configuration_def)
next
  case (Inr fs)
  then have f0: "field_ok (fs ! 0)" using extract_required_fields_ok [of xml fs] by auto
  from assms Inr obtain r1 m1 where p1: "parse_positive_count (calls 0) mode (fs ! 1) ''cfgcpf'' = Some (r1, m1)"
    by (auto simp: parse_sensor_configuration_def bind_eq_Some_conv)
  note c1 = parse_positive_count_cases [OF p1]
  show ?thesis
  proof (cases r1)
    case (Inl e)
    then show ?thesis using assms \<open>extract_required_fields xml = Inr fs\<close> p1 c1
      by (auto simp: parse_sensor_configuration_def)
  next
    case (Inr cpf)
    with assms \<open>extract_required_fields xml = Inr fs\<close> p1 obtain r2 m2 where
      p2: "parse_positive_count (calls 1) m1 (fs ! 2) ''cfgcpt'' = Some (r2, m2)"
      by (auto simp: parse_sensor_configuration_def bind_eq_Some_conv)
    show ?thesis
      using assms \<open>extract_required_fields xml = Inr fs\<close> p1 p2 c1 Inr f0 parse_positive_count_cases [OF p2]
      by (auto simp: parse_sensor_configuration_def split: sum.splits
          dest: build_configuration_error build_configuration_ok)
  qed
qed

section \<open>An example document\<close>

definition example_document :: string where
  "example_document =
     document ''netft'' [(''cfgcpf'', ''1000000''), (''cfgcpt'', ''1000''), (''scfgfu'', ''N''), (''scfgtu'', ''Nmm'')]"

definition example_configuration :: sensor_configuration where
  "example_configuration =
     \<lparr>product_name = ''ATI Net F/T'',
      calibration = \<lparr>counts_per_force_unit = Fin 1000000, counts_per_torque_unit = Fin 1000,
                     force_unit = Newton, torque_unit = NewtonMillimeter\<rparr>,
      source = Sensor, revision = 1\<rparr>"

lemma example_configuration_valid: "validate_calibration (calibration example_configuration) = Inr ()"
  by (simp add: example_configuration_def validate_calibration_def require_safe_count_def
      require_positive_finite_def safe_count_minimum_eq fl_le_def)

lemma extract_example:
  "extract_required_fields example_document = Inr [''ATI Net F/T'', ''1000000'', ''1000'', ''N'', ''Nmm'']"
proof -
  have ws: "trim_ascii_whitespace v = v" if "list_all (\<lambda>c. \<not> is_ascii_whitespace c) v" for v
    by (rule trim_id) (use that hd_in_set [of v] last_in_set [of v] in \<open>auto simp: list_all_iff\<close>)
  show ?thesis
    unfolding example_document_def
    by (subst extract_document)
      (simp_all add: plain_name_def plain_text_def is_ascii_whitespace_def ascii_space_def ws
        required_tag_index_def kRequiredTags_def kMaximumFieldLength_def numeral_eq_Suc)
qed

lemma parse_example:
  "parse_sensor_configuration (\<lambda>_. fenv_ok) mode example_document = Some (Inr example_configuration, mode)"
proof -
  have n: "parse_positive_count fenv_ok mode ''1000000'' tag = Some (Inr (Fin 1000000), mode)"
    "parse_positive_count fenv_ok mode ''1000'' tag = Some (Inr (Fin 1000), mode)" for tag
    by (simp_all add: parse_positive_count_def scoped_ok extract_double_digits is_digit_def digits_value_def fl_le_def)
  have b: "build_configuration [''ATI Net F/T'', ''1000000'', ''1000'', ''N'', ''Nmm''] (Fin 1000000) (Fin 1000) =
    Inr example_configuration"
    by (simp add: build_configuration_def parse_force_unit_def parse_torque_unit_def force_unit_from_string_def
        torque_unit_from_string_def normalize_torque_spelling_def validate_discovered_def Let_def example_configuration_def
        validate_calibration_def require_safe_count_def require_positive_finite_def safe_count_minimum_eq fl_le_def)
  show ?thesis by (simp add: parse_sensor_configuration_def extract_example n b)
qed

section \<open>Properties of the whole parse\<close>

text \<open>
  Whatever the document and whatever the floating-point environment does, a parse that returns
  leaves the rounding mode as it found it. It either throws a \<open>DiscoveryError\<close>, or returns a
  configuration read from the sensor whose calibration passes \<open>validate\<close>, whose revision is 1, whose
  product name is a trimmed text of 1 to 128 characters, and whose scale factors are finite and
  positive.
\<close>

lemma parse_sensor_configuration_outcome:
  assumes "parse_sensor_configuration calls mode xml = Some (r, m)"
  shows "m = mode \<and>
    (case r of Inl e \<Rightarrow> is_discovery_error e
     | Inr sc \<Rightarrow> validate_calibration (calibration sc) = Inr () \<and> source sc = Sensor \<and> revision sc = 1 \<and>
         field_ok (product_name sc) \<and>
         fl_less (Fin 0) (counts_per_force_unit (calibration sc)) \<and>
         fl_less (Fin 0) (counts_per_torque_unit (calibration sc)))"
  using assms by (rule parse_sensor_configuration_cases)

text \<open>
  C36. The ambient rounding mode has no influence: when the calls that hold, set and restore the
  floating-point environment succeed, the parse always returns, and its result is the same in every
  mode. A count printed in decimal digits is read back exactly, up to \<open>2 ^ 53\<close>.
\<close>

theorem parse_independent_of_rounding_mode:
  "(\<exists>r. \<forall>mode. parse_sensor_configuration (\<lambda>_. fenv_ok) mode xml = Some (r, mode)) \<and>
   (\<forall>mode n tag. 0 < n \<longrightarrow> n < 2 ^ 53 \<longrightarrow>
      parse_positive_count fenv_ok mode (show_nat n) tag = Some (Inr (Fin (of_nat n)), mode))"
proof (intro conjI allI impI)
  have "parse_positive_count fenv_ok mode v tag =
      Some (fst (the (parse_positive_count fenv_ok ToNearest v tag)), mode)" for mode v tag
    by (simp add: parse_positive_count_def scoped_ok)
  then obtain g where g: "\<And>mode v tag. parse_positive_count fenv_ok mode v tag = Some (g v tag, mode)"
    by (rule that)
  show "\<exists>r. \<forall>mode. parse_sensor_configuration (\<lambda>_. fenv_ok) mode xml = Some (r, mode)"
    unfolding parse_sensor_configuration_def g
    by (cases "extract_required_fields xml"; (cases "g (projr (extract_required_fields xml) ! 1) ''cfgcpf''")?;
        (cases "g (projr (extract_required_fields xml) ! 2) ''cfgcpt''")?) auto
next
  fix mode tag and n :: nat assume n: "0 < n" "n < 2 ^ 53"
  have "hd (show_nat n) \<noteq> CHR ''+''"
    using show_nat_digits [of n] by (cases "show_nat n") (auto simp: is_digit_def)
  then show "parse_positive_count fenv_ok mode (show_nat n) tag = Some (Inr (Fin (of_nat n)), mode)"
    using show_nat_digits [of n] n extract_double_digits [of "show_nat n" ToNearest]
    by (simp add: parse_positive_count_def scoped_ok Let_def fl_le_def)
qed


theorem parse_independent_of_rounding_mode_witness:
  "parse_positive_count fenv_ok Upward (show_nat 1000000) ''cfgcpf'' = Some (Inr (Fin 1000000), Upward)"
  using parse_independent_of_rounding_mode by fastforce

end
