(* ===== verification/Discovery.thy ===== *)
theory Discovery
  imports Xml_Config
begin

text \<open>
  Sensor discovery over HTTP (\<open>core/src/discovery.cpp\<close>): the checks of the options, the request the
  code sets up, the bounded response buffer and the order in which the outcome of the transfer is
  examined. libcurl is not part of the program: what its calls return is a parameter, the record
  \<open>curl\<close>. The lemmas show that the buffer never passes its bound, that a response is parsed whole or
  refused, that every failure is a \<open>DiscoveryError\<close> and every result valid, and for which platforms
  the millisecond timers are in the range of \<open>long\<close>.
\<close>

section \<open>Options\<close>

definition kMaximumResponseBytes :: nat where
  "kMaximumResponseBytes = 65536"

definition kAtiConfigurationProtocol :: string where
  "kAtiConfigurationProtocol = ''http''"

record discovery_options =
  o_sensor_host :: string
  o_http_port :: int
  o_connect_timeout :: fl
  o_total_timeout :: fl

definition discovery_options_default :: discovery_options where
  "discovery_options_default =
     \<lparr>o_sensor_host = ''192.168.1.1'', o_http_port = 80,
      o_connect_timeout = double_lit (1 / 2), o_total_timeout = double_lit 1\<rparr>"

definition is_ascii_blank :: "string \<Rightarrow> bool" where
  "is_ascii_blank v \<longleftrightarrow> (if v = [] then True else list_all ascii_space v)"

definition timeout_milliseconds :: "platform \<Rightarrow> fl \<Rightarrow> string \<Rightarrow> int res" where
  "timeout_milliseconds P seconds nm =
     (let F = long_double P; R = rounding_mode P;
          bad = Inl (DiscoveryError (nm @ '' must be finite, positive, and representable'')) in
      if \<not> is_finite seconds \<or> fl_le seconds (Fin 0) then bad
      else let rounded_milliseconds = fl_ceil (fl_mul F R (fl_convert F R seconds) (Fin 1000)) in
        if \<not> is_finite rounded_milliseconds
           \<or> fl_less (fl_of_int F R (long_max P)) rounded_milliseconds then bad
        else Inr (fl_to_int rounded_milliseconds))"

definition validate_options :: "platform \<Rightarrow> discovery_options \<Rightarrow> unit res" where
  "validate_options P opts =
     (if is_ascii_blank (o_sensor_host opts) then Inl (DiscoveryError ''sensor_host must not be blank'')
      else if o_http_port opts < 1 \<or> o_http_port opts > 65535
      then Inl (DiscoveryError ''http_port must be in the range 1..65535'')
      else res_bind (timeout_milliseconds P (o_connect_timeout opts) ''connect_timeout'') (\<lambda>_.
           res_bind (timeout_milliseconds P (o_total_timeout opts) ''total_timeout'') (\<lambda>_.
           Inr ())))"

section \<open>The HTTP library\<close>

datatype url_part = CURLUPART_SCHEME | CURLUPART_HOST | CURLUPART_PORT | CURLUPART_PATH

datatype curl_option =
    CURLOPT_CURLU | CURLOPT_PROTOCOLS_STR | CURLOPT_PROTOCOLS | CURLOPT_FOLLOWLOCATION
  | CURLOPT_MAXREDIRS | CURLOPT_NOSIGNAL | CURLOPT_PROXY | CURLOPT_CONNECTTIMEOUT_MS
  | CURLOPT_TIMEOUT_MS | CURLOPT_WRITEFUNCTION | CURLOPT_WRITEDATA

type_synonym url = "(url_part \<times> string) list"

datatype option_value =
    UrlValue url | StringValue string | LongValue int | WriteFunction | ResponseTarget

type_synonym request = "(curl_option \<times> option_value) list"

text \<open>
  What libcurl answers. \<open>write_calls\<close> are the blocks it hands to the write function for a request,
  each with the two factors of its size; \<open>can_store\<close> says whether there is memory to append it. As
  documented, a transfer ends with \<open>CURLE_WRITE_ERROR\<close> once the write function returns a different
  number than it was given.
\<close>

record write_call =
  data :: string
  sz :: u64
  cnt :: u64
  can_store :: bool

record curl =
  global_init_ok :: bool
  easy_init_ok :: bool
  url_init_ok :: bool
  url_set_ok :: "url_part \<Rightarrow> string \<Rightarrow> bool"
  setopt_ok :: "curl_option \<Rightarrow> option_value \<Rightarrow> bool"
  protocols_str :: bool
  write_calls :: "request \<Rightarrow> write_call list"
  transfer_code :: "request \<Rightarrow> nat"
  strerror :: "nat \<Rightarrow> string"
  response_code :: "request \<Rightarrow> int option"

definition CURLE_OK :: nat where "CURLE_OK = 0"

definition CURLE_WRITE_ERROR :: nat where "CURLE_WRITE_ERROR = 23"

text \<open>\<open>std::call_once\<close>: the flag and the result it guards are one optional value.\<close>

definition initialize_curl_once :: "curl \<Rightarrow> bool option \<Rightarrow> bool \<times> bool option" where
  "initialize_curl_once c once_result =
     (case once_result of
        None \<Rightarrow> (global_init_ok c, Some (global_init_ok c)) | Some r \<Rightarrow> (r, Some r))"

definition set_curl_option :: "curl \<Rightarrow> curl_option \<Rightarrow> option_value \<Rightarrow> request \<Rightarrow> request res" where
  "set_curl_option c opt v req =
     (if setopt_ok c opt v then Inr (req @ [(opt, v)])
      else Inl (DiscoveryError ''failed to configure sensor discovery request''))"

definition set_url_part :: "curl \<Rightarrow> url_part \<Rightarrow> string \<Rightarrow> url \<Rightarrow> url res" where
  "set_url_part c part v u =
     (if url_set_ok c part v then Inr (u @ [(part, v)])
      else Inl (DiscoveryError ''invalid sensor discovery URL''))"

section \<open>The response buffer\<close>

record response_buffer =
  body :: string
  too_large :: bool
  write_failed :: bool

definition response_empty :: response_buffer where
  "response_empty = \<lparr>body = [], too_large = False, write_failed = False\<rparr>"

text \<open>Returns the number of bytes taken; all sizes are 64-bit and wrap.\<close>

definition append_response :: "write_call \<Rightarrow> response_buffer \<Rightarrow> u64 \<times> response_buffer" where
  "append_response w response =
     (if sz w \<noteq> 0 \<and> cnt w > (- 1) div sz w then (0, response\<lparr>too_large := True\<rparr>)
      else let byte_count = sz w * cnt w in
        if byte_count > of_nat kMaximumResponseBytes - of_nat (length (body response))
        then (0, response\<lparr>too_large := True\<rparr>)
        else if \<not> can_store w then (0, response\<lparr>write_failed := True\<rparr>)
        else (byte_count, response\<lparr>body := body response @ take (unat byte_count) (data w)\<rparr>))"

text \<open>The write calls of a transfer, up to the first one that is refused.\<close>

fun feed :: "write_call list \<Rightarrow> response_buffer \<Rightarrow> bool \<times> response_buffer" where
  "feed [] response = (True, response)"
| "feed (w # ws) response =
     (let (taken, response') = append_response w response in
      if taken \<noteq> sz w * cnt w then (False, response') else feed ws response')"

definition curl_easy_perform :: "curl \<Rightarrow> request \<Rightarrow> nat \<times> response_buffer" where
  "curl_easy_perform c req =
     (let (accepted, response) = feed (write_calls c req) response_empty in
      (if accepted then transfer_code c req else CURLE_WRITE_ERROR, response))"

section \<open>Discovery\<close>

definition bracketed_host :: "string \<Rightarrow> string" where
  "bracketed_host host =
     (if CHR '':'' \<in> set host \<and> (length host < 2 \<or> hd host \<noteq> CHR ''['' \<or> last host \<noteq> CHR '']'')
      then ''['' @ host @ '']'' else host)"

text \<open>The library is given a pointer to characters that end at the first NUL.\<close>

definition c_str :: "string \<Rightarrow> string" where
  "c_str s = takeWhile (\<lambda>c. c \<noteq> CHR 0x00) s"

definition sensor_url :: "curl \<Rightarrow> discovery_options \<Rightarrow> url res" where
  "sensor_url c opts =
     res_bind (set_url_part c CURLUPART_SCHEME kAtiConfigurationProtocol []) (\<lambda>u.
     res_bind (set_url_part c CURLUPART_HOST (c_str (bracketed_host (o_sensor_host opts))) u) (\<lambda>u.
     res_bind (set_url_part c CURLUPART_PORT (c_str (show_int (o_http_port opts))) u) (\<lambda>u.
     set_url_part c CURLUPART_PATH ''/netftapi2.xml'' u)))"

definition CURLPROTO_HTTP :: int where "CURLPROTO_HTTP = 1"

definition sensor_request :: "platform \<Rightarrow> curl \<Rightarrow> discovery_options \<Rightarrow> url \<Rightarrow> request res" where
  "sensor_request P c opts url =
     res_bind (set_curl_option c CURLOPT_CURLU (UrlValue url) []) (\<lambda>r.
     res_bind (if protocols_str c
               then set_curl_option c CURLOPT_PROTOCOLS_STR (StringValue kAtiConfigurationProtocol) r
               else set_curl_option c CURLOPT_PROTOCOLS (LongValue CURLPROTO_HTTP) r) (\<lambda>r.
     res_bind (set_curl_option c CURLOPT_FOLLOWLOCATION (LongValue 0) r) (\<lambda>r.
     res_bind (set_curl_option c CURLOPT_MAXREDIRS (LongValue 0) r) (\<lambda>r.
     res_bind (set_curl_option c CURLOPT_NOSIGNAL (LongValue 1) r) (\<lambda>r.
     res_bind (set_curl_option c CURLOPT_PROXY (StringValue []) r) (\<lambda>r.
     res_bind (timeout_milliseconds P (o_connect_timeout opts) ''connect_timeout'') (\<lambda>connect_ms.
     res_bind (set_curl_option c CURLOPT_CONNECTTIMEOUT_MS (LongValue connect_ms) r) (\<lambda>r.
     res_bind (timeout_milliseconds P (o_total_timeout opts) ''total_timeout'') (\<lambda>total_ms.
     res_bind (set_curl_option c CURLOPT_TIMEOUT_MS (LongValue total_ms) r) (\<lambda>r.
     res_bind (set_curl_option c CURLOPT_WRITEFUNCTION WriteFunction r) (\<lambda>r.
     set_curl_option c CURLOPT_WRITEDATA ResponseTarget r)))))))))))"

text \<open>The transfer and the examination of its outcome, down to the body to parse.\<close>

definition fetch_configuration :: "curl \<Rightarrow> request \<Rightarrow> string res" where
  "fetch_configuration c req =
     (let (transfer_result, response) = curl_easy_perform c req in
      if too_large response
      then Inl (DiscoveryError ''sensor configuration response exceeds 65536 bytes'')
      else if write_failed response
      then Inl (DiscoveryError ''failed to store sensor configuration response'')
      else if transfer_result \<noteq> CURLE_OK
      then Inl (DiscoveryError (''sensor configuration request failed: '' @ strerror c transfer_result))
      else case response_code c req of
        None \<Rightarrow> Inl (DiscoveryError ''failed to inspect sensor configuration response'')
      | Some status \<Rightarrow>
          if status \<noteq> 200
          then Inl (DiscoveryError (''sensor configuration request returned HTTP '' @ show_int status))
          else Inr (body response))"

text \<open>
  The checks of the options, the library handles, the request and the transfer of
  \<open>discover_sensor\<close>, in order; the flag of \<open>initialize_curl_once\<close> is passed through.
\<close>

definition request_configuration ::
  "platform \<Rightarrow> curl \<Rightarrow> discovery_options \<Rightarrow> bool option \<Rightarrow> string res \<times> bool option" where
  "request_configuration P c opts once_result =
     (case validate_options P opts of
        Inl e \<Rightarrow> (Inl e, once_result)
      | Inr _ \<Rightarrow>
          let (initialized, once_result') = initialize_curl_once c once_result in
          (if \<not> initialized then Inl (DiscoveryError ''failed to initialize HTTP transport'')
           else if \<not> easy_init_ok c then Inl (DiscoveryError ''failed to create HTTP transport'')
           else if \<not> url_init_ok c then Inl (DiscoveryError ''failed to create sensor discovery URL'')
           else res_bind (sensor_url c opts) (\<lambda>url.
                res_bind (sensor_request P c opts url) (\<lambda>req.
                fetch_configuration c req)),
           once_result'))"

text \<open>
  The whole function: the result with the rounding mode afterwards, \<open>None\<close> for \<open>std::terminate\<close>
  inside the parser.
\<close>

definition discover_sensor ::
  "platform \<Rightarrow> (nat \<Rightarrow> fenv_calls) \<Rightarrow> curl \<Rightarrow> discovery_options \<Rightarrow> bool option \<Rightarrow>
     (sensor_configuration res \<times> rounding) option \<times> bool option" where
  "discover_sensor P calls c opts once_result =
     (let (r, once_result') = request_configuration P c opts once_result in
      (case r of
         Inl e \<Rightarrow> Some (Inl e, rounding_mode P)
       | Inr xml \<Rightarrow> parse_sensor_configuration calls (rounding_mode P) xml, once_result'))"

section \<open>Timers\<close>

lemma timeout_milliseconds_range:
  assumes P: "std_platform P" and "2 powi (- 1074) \<le> r"
    and "timeout_milliseconds P (Fin r) nm = Inr ms"
  shows "1 \<le> ms \<and> ms \<le> 2 ^ 63 \<and> (long_max P < 2 ^ prec (long_double P) \<longrightarrow> ms \<le> long_max P)"
proof -
  let ?F = "long_double P" and ?R = "rounding_mode P"
  note F = std_platformD [OF P]
  have lm: "0 \<le> long_max P" "long_max P \<le> 2 ^ 63 - 1" using P by (auto simp: std_platform_def)
  have e: "2 - emax ?F - int (prec ?F) \<le> - 1074" "int (prec ?F) \<le> emax ?F" using F by auto
  obtain x where x: "fl_round ?F ?R r = Fin x"
    using assms(3) by (cases "fl_round ?F ?R r") (auto simp: timeout_milliseconds_def Let_def split: if_splits)
  obtain y where y: "fl_round ?F ?R (x * 1000) = Fin y"
    using assms(3) x
    by (cases "fl_round ?F ?R (x * 1000)") (auto simp: timeout_milliseconds_def Let_def split: if_splits)
  obtain L where L: "fl_of_int ?F ?R (long_max P) = Fin L" "L \<le> 2 powi 63"
    using fl_round_le_pow2 [OF F(1), of "of_int (long_max P)" 63 ?R] lm F
    by (auto simp: fl_of_int_def)
  have "(2::rat) powi (- 1074) \<le> x" using fl_round_ge_pow2 [OF F(1) assms(2) e(1) _ x] F(4) by simp
  then have "(2::rat) powi (- 1074) \<le> x * 1000" by simp
  then have "(2::rat) powi (- 1074) \<le> y" using fl_round_ge_pow2 [OF F(1) _ e(1) _ y] F(4) by simp
  then have y0: "0 < y" by (rule less_le_trans [rotated]) simp
  have ms: "ms = \<lceil>y\<rceil>" "of_int \<lceil>y\<rceil> \<le> L"
    using assms(3) x y y0 L(1)
    by (auto simp: timeout_milliseconds_def Let_def rat_trunc_def not_less split: if_splits)
  have "\<lceil>y\<rceil> \<le> 2 ^ 63"
  proof -
    have "rat_of_int \<lceil>y\<rceil> \<le> of_int (2 ^ 63)"
      by (rule order_trans [OF ms(2)]) (use L(2) in simp)
    then show ?thesis by (simp only: of_int_le_iff)
  qed
  moreover have "\<lceil>y\<rceil> \<le> long_max P" if "long_max P < 2 ^ prec ?F"
    using fl_round_int [OF F(1) _ e(2), of "long_max P" ?R] that lm(1) L(1) ms(2) by (simp add: fl_of_int_def)
  ultimately show ?thesis using y0 ms(1) by (simp add: one_le_ceiling)
qed

section \<open>The response buffer\<close>

definition wf_call :: "write_call \<Rightarrow> bool" where
  "wf_call w \<longleftrightarrow> length (data w) = unat (sz w) * unat (cnt w)"

lemma size_product_overflow:
  fixes s c :: u64
  shows "s \<noteq> 0 \<and> c > (- 1) div s \<longleftrightarrow> 2 ^ 64 \<le> unat s * unat c"
proof (cases "s = 0")
  case False
  have m: "unat (- 1 :: u64) = 2 ^ 64 - 1" by (simp add: unsigned_minus_1_eq_mask mask_eq_exp_minus_1)
  have "c > (- 1) div s \<longleftrightarrow> (2 ^ 64 - 1) div unat s < unat c"
    by (simp only: word_less_nat_alt unat_div m)
  also have "\<dots> \<longleftrightarrow> 2 ^ 64 - 1 < unat c * unat s"
    using False by (intro div_less_iff_less_mult) (simp add: unat_gt_0)
  finally show ?thesis using False by (auto simp: mult.commute)
qed simp

lemma of_nat_length_eq: "unat (x :: u64) = n \<Longrightarrow> x = of_nat n"
  by (auto simp: of_nat_unat)

lemma append_response_cases:
  assumes "wf_call w" and "length (body response) \<le> kMaximumResponseBytes"
  shows "append_response w response =
    (if length (body response) + length (data w) > kMaximumResponseBytes
     then (0, response\<lparr>too_large := True\<rparr>)
     else if \<not> can_store w then (0, response\<lparr>write_failed := True\<rparr>)
     else (of_nat (length (data w)), response\<lparr>body := body response @ data w\<rparr>))"
proof -
  let ?n = "length (body response)"
  have room: "unat (of_nat kMaximumResponseBytes - of_nat ?n :: u64) = kMaximumResponseBytes - ?n"
    using assms(2) by (intro unat_diff_of_nat) (auto simp: kMaximumResponseBytes_def)
  show ?thesis
  proof (cases "2 ^ 64 \<le> length (data w)")
    case True
    then show ?thesis
      using assms by (simp add: append_response_def wf_call_def kMaximumResponseBytes_def
          size_product_overflow [simplified])
  next
    case False
    then have m: "unat (sz w * cnt w) = length (data w)"
      using assms(1) by (simp add: wf_call_def unat_word_ariths)
    then have w: "sz w * cnt w = of_nat (length (data w))"
      by (rule of_nat_length_eq)
    have "(sz w * cnt w > of_nat kMaximumResponseBytes - of_nat ?n) \<longleftrightarrow>
        ?n + length (data w) > kMaximumResponseBytes"
      using assms(2) by (auto simp: word_less_nat_alt room m)
    then show ?thesis
      using False assms(1)
      by (simp only: append_response_def Let_def size_product_overflow m w [symmetric] wf_call_def
          if_False) simp
  qed
qed



lemma append_response_bound:
  assumes "append_response w response = (n, response')" and "wf_call w"
    and "length (body response) \<le> kMaximumResponseBytes"
  shows "length (body response') \<le> kMaximumResponseBytes \<and> (too_large response \<longrightarrow> too_large response')"
  using assms(1) unfolding append_response_cases [OF assms(2,3)]
  using assms(3) by (auto split: if_splits)

lemma feed_bounded:
  assumes "list_all wf_call ws" and "length (body response) \<le> kMaximumResponseBytes"
    and "feed ws response = (ok, response')"
  shows "length (body response') \<le> kMaximumResponseBytes \<and> (too_large response \<longrightarrow> too_large response')"
  using assms
proof (induction ws arbitrary: response)
  case (Cons w ws)
  obtain n r1 where a: "append_response w response = (n, r1)" by fastforce
  have "length (body r1) \<le> kMaximumResponseBytes \<and> (too_large response \<longrightarrow> too_large r1)"
    using append_response_bound [OF a] Cons.prems by simp
  then show ?case using Cons.IH [of r1] Cons.prems a by (auto split: if_splits)
qed simp

lemma feed_whole:
  assumes "list_all wf_call ws" and "list_all can_store ws"
    and "length (body response) + length (concat (map data ws)) \<le> kMaximumResponseBytes"
  shows "feed ws response = (True, response\<lparr>body := body response @ concat (map data ws)\<rparr>)"
  using assms
proof (induction ws arbitrary: response)
  case (Cons w ws)
  have "unat (sz w * cnt w) = length (data w)"
    using Cons.prems(1,3) by (simp add: wf_call_def unat_word_ariths kMaximumResponseBytes_def)
  then have w: "sz w * cnt w = of_nat (length (data w))" by (rule of_nat_length_eq)
  have a: "append_response w response = (of_nat (length (data w)), response\<lparr>body := body response @ data w\<rparr>)"
    using Cons.prems by (subst append_response_cases) auto
  show ?case using Cons.prems Cons.IH [of "response\<lparr>body := body response @ data w\<rparr>"]
    by (simp add: a w)
qed simp

lemma feed_too_large:
  assumes "list_all wf_call ws" and "list_all can_store ws"
    and "length (body response) \<le> kMaximumResponseBytes"
    and "kMaximumResponseBytes < length (body response) + length (concat (map data ws))"
  shows "too_large (snd (feed ws response))"
  using assms
proof (induction ws arbitrary: response)
  case (Cons w ws)
  show ?case
  proof (cases "length (body response) + length (data w) \<le> kMaximumResponseBytes")
    case True
    then have "unat (sz w * cnt w) = length (data w)"
      using Cons.prems(1) by (simp add: wf_call_def unat_word_ariths kMaximumResponseBytes_def)
    then have w: "sz w * cnt w = of_nat (length (data w))" by (rule of_nat_length_eq)
    have a: "append_response w response = (of_nat (length (data w)), response\<lparr>body := body response @ data w\<rparr>)"
      using Cons.prems True by (subst append_response_cases) auto
    show ?thesis
      using Cons.prems True Cons.IH [of "response\<lparr>body := body response @ data w\<rparr>"] by (simp add: a w)
  next
    case False
    let ?r = "response\<lparr>too_large := True\<rparr>"
    have a: "append_response w response = (0, ?r)"
      using Cons.prems False by (subst append_response_cases) auto
    have "too_large (snd (feed ws ?r))"
      using feed_bounded [of ws ?r "fst (feed ws ?r)" "snd (feed ws ?r)"] Cons.prems by simp
    then show ?thesis by (simp add: a)
  qed
qed simp

section \<open>Outcomes\<close>

lemma timeout_milliseconds_error: "timeout_milliseconds P t nm = Inl e \<Longrightarrow> is_discovery_error e"
  by (auto simp: timeout_milliseconds_def Let_def split: if_splits)

lemma set_error:
  "set_curl_option c opt v req = Inl e \<Longrightarrow> is_discovery_error e"
  "set_url_part c part w u = Inl e \<Longrightarrow> is_discovery_error e"
  by (auto simp: set_curl_option_def set_url_part_def split: if_splits)

lemma request_configuration_error:
  assumes "request_configuration P c opts st = (Inl e, st')"
  shows "is_discovery_error e"
proof (cases "validate_options P opts")
  case (Inl e')
  then show ?thesis using assms timeout_milliseconds_error
    by (auto simp: request_configuration_def validate_options_def res_bind_Inl_iff split: if_splits)
next
  case (Inr u)
  have u: "sensor_url c opts = Inl e' \<Longrightarrow> is_discovery_error e'" for e'
    by (auto simp: sensor_url_def res_bind_Inl_iff dest: set_error)
  have r: "sensor_request P c opts url = Inl e' \<Longrightarrow> is_discovery_error e'" for url e'
    unfolding sensor_request_def
    by (auto simp: res_bind_Inl_iff dest: set_error timeout_milliseconds_error split: if_splits)
  have f: "fetch_configuration c req = Inl e' \<Longrightarrow> is_discovery_error e'" for req e'
    by (auto simp: fetch_configuration_def Let_def split: if_splits prod.splits option.splits)
  show ?thesis using assms Inr u r f
    by (auto simp: request_configuration_def Let_def res_bind_Inl_iff split: if_splits prod.splits)
qed

lemma discover_sensor_cases:
  assumes "discover_sensor P calls c opts st = (Some (r, m), st')"
  shows "m = rounding_mode P \<and>
    (case r of Inl e \<Rightarrow> is_discovery_error e
     | Inr sc \<Rightarrow> validate_calibration (calibration sc) = Inr () \<and> source sc = Sensor \<and> revision sc = 1 \<and>
         field_ok (product_name sc))"
proof -
  obtain b s1 where q: "request_configuration P c opts st = (b, s1)" by fastforce
  show ?thesis
  proof (cases b)
    case (Inl e)
    then show ?thesis using assms q request_configuration_error [of P c opts st e s1]
      by (auto simp: discover_sensor_def)
  next
    case (Inr xml)
    then have "parse_sensor_configuration calls (rounding_mode P) xml = Some (r, m)"
      using assms q by (simp add: discover_sensor_def)
    from parse_sensor_configuration_cases [OF this] show ?thesis by (cases r) auto
  qed
qed

lemma set_ok:
  "set_curl_option c opt v req = Inr req' \<Longrightarrow> req' = req @ [(opt, v)]"
  "set_url_part c part w u = Inr u' \<Longrightarrow> u' = u @ [(part, w)]"
  by (auto simp: set_curl_option_def set_url_part_def split: if_splits)

lemma one_second: "timeout_milliseconds linux_x86_64 (Fin 1) nm = Inr 1000"
proof -
  have i: "fl_round x87_extended ToNearest (of_int k) = Fin (of_int k)" if "\<bar>k\<bar> < 2 ^ 64" for k
    using fl_round_int [of x87_extended k ToNearest] that by simp
  show ?thesis
    using i [of 1] i [of 1000] i [of "2 ^ 63 - 1"]
    by (simp add: timeout_milliseconds_def linux_x86_64_def fl_of_int_def fl_le_def rat_trunc_def)
qed

text \<open>A library that accepts every setting and serves the given blocks.\<close>

definition serving :: "write_call list \<Rightarrow> curl" where
  "serving ws =
     \<lparr>global_init_ok = True, easy_init_ok = True, url_init_ok = True,
      url_set_ok = (\<lambda>_ _. True), setopt_ok = (\<lambda>_ _. True), protocols_str = True,
      write_calls = (\<lambda>_. ws), transfer_code = (\<lambda>_. 0), strerror = (\<lambda>_. []),
      response_code = (\<lambda>_. Some 200)\<rparr>"

definition one_block :: "string \<Rightarrow> write_call" where
  "one_block d = \<lparr>data = d, sz = 1, cnt = of_nat (length d), can_store = True\<rparr>"

definition example_options :: discovery_options where
  "example_options =
     \<lparr>o_sensor_host = ''fe80::1'', o_http_port = 80, o_connect_timeout = Fin 1, o_total_timeout = Fin 1\<rparr>"

lemma one_block_wf: "length d < 2 ^ 64 \<Longrightarrow> wf_call (one_block d)"
  by (simp add: wf_call_def one_block_def unat_of_nat_small)

section \<open>Properties\<close>

text \<open>
  The timers handed to the HTTP library are at least one millisecond (zero would mean no limit)
  and fit the type \<open>long\<close> whenever \<open>long double\<close> has more significant bits than \<open>long\<close>. The
  argument is any positive \<open>double\<close>.
\<close>

lemma discovery_timer_range:
  assumes "std_platform P" and "2 powi (- 1074) \<le> r" and "long_max P < 2 ^ prec (long_double P)"
    and "timeout_milliseconds P (Fin r) nm = Inr ms"
  shows "1 \<le> ms \<and> ms \<le> long_max P"
  using timeout_milliseconds_range [OF assms(1,2,4)] assms(3) by simp

text \<open>
  C40. Where \<open>long double\<close> is no wider than \<open>double\<close> and \<open>long\<close> has 64 bits, the comparison with
  \<open>>\<close> lets one value through: 9223372036854776 seconds become \<open>2 ^ 63\<close> milliseconds, which the
  conversion to \<open>long\<close> cannot hold. The client's own \<open>validate\<close> refuses the same timeout.
\<close>

theorem discovery_timer_overflow:
  "timeout_milliseconds macos_arm64 (Fin 9223372036854776) nm = Inr (2 ^ 63) \<and>
   long_max macos_arm64 < 2 ^ 63 \<and>
   \<not> is_ok (require_safe_timeout macos_arm64 now nm (Fin 9223372036854776) True)"
proof -
  have a: "fl_round binary64 ToNearest 9223372036854776 = Fin 9223372036854776"
    using fl_round_exact [of binary64 9223372036854776 4611686018427388 1 ToNearest]
    by (simp add: fmax_binary64)
  have b: "fl_round binary64 ToNearest 9223372036854776000 = Fin (of_int (2 ^ 52) * 2 powi 11)"
    by (rule fl_round_nearest_eqI [where k = 63]) (simp_all add: fmax_binary64)
  have c: "fl_round binary64 ToNearest 9223372036854775807 = Fin (of_int (2 ^ 53) * 2 powi 10)"
    by (rule fl_round_nearest_eqI [where k = 62]) (simp_all add: fmax_binary64)
  have e: "fl_of_int binary64 ToNearest 1000000000 = Fin 1000000000" "fl_of_int binary64 ToNearest 1 = Fin 1"
    using fl_round_int [of binary64 1000000000 ToNearest] fl_round_int [of binary64 1 ToNearest]
    by (simp_all add: fl_of_int_def)
  show ?thesis
    using a b c
    by (auto simp: timeout_milliseconds_def macos_arm64_def fl_of_int_def fl_le_def rat_trunc_def
        require_safe_timeout_def require_positive_finite_def checked_deadline_def is_ok_iff res_bind_Inr_iff
        http_milliseconds_def)
qed

text \<open>
  C37. Discovery has two outcomes. Whatever the network, the HTTP library and the options do, a call
  that returns either throws a \<open>DiscoveryError\<close>, or returns a configuration marked as read from the
  sensor, with revision 1, a well-formed product name and a calibration \<open>validate\<close> accepts. The
  rounding mode is left as it was.
\<close>

theorem discover_sensor_outcome:
  assumes "discover_sensor P calls c opts st = (Some (r, m), st')"
  shows "m = rounding_mode P \<and>
    (case r of Inl e \<Rightarrow> is_discovery_error e
     | Inr sc \<Rightarrow> validate_calibration (calibration sc) = Inr () \<and> source sc = Sensor \<and> revision sc = 1 \<and>
         field_ok (product_name sc))"
  using assms by (rule discover_sensor_cases)

theorem discover_sensor_outcome_witness:
  "discover_sensor linux_x86_64 (\<lambda>_. fenv_ok) (serving [one_block example_document]) example_options None =
     (Some (Inr example_configuration, ToNearest), Some True) \<and>
   validate_calibration (calibration example_configuration) = Inr ()"
proof -
  have w: "wf_call (one_block example_document)" "can_store (one_block example_document)"
    "length (data (one_block example_document)) \<le> kMaximumResponseBytes"
    by (simp_all add: wf_call_def one_block_def example_document_def document_def tag_element_def kMaximumResponseBytes_def)
  have f: "feed [one_block example_document] response_empty =
      (True, response_empty\<lparr>body := example_document\<rparr>)"
    using feed_whole [of "[one_block example_document]" response_empty] w
    by (simp add: response_empty_def one_block_def)
  have g: "fetch_configuration (serving [one_block example_document]) req = Inr example_document" for req
    using f by (simp add: fetch_configuration_def curl_easy_perform_def serving_def CURLE_OK_def response_empty_def
        del: feed.simps)
  have d: "discover_sensor linux_x86_64 (\<lambda>_. fenv_ok) (serving [one_block example_document]) example_options None =
     (Some (Inr example_configuration, rounding_mode linux_x86_64), Some True)"
    using parse_example [of "rounding_mode linux_x86_64"]
    by (simp add: discover_sensor_def request_configuration_def validate_options_def example_options_def
        is_ascii_blank_def ascii_space_def one_second serving_def initialize_curl_once_def sensor_url_def
        set_url_part_def sensor_request_def set_curl_option_def g [unfolded serving_def])
  show ?thesis using d discover_sensor_outcome [OF d] by (simp add: linux_x86_64_def)
qed

text \<open>
  A response is used whole or not at all. For write calls that carry the bytes they announce and
  find memory, more than 65536 bytes in total is the error that says so, however the bytes are
  divided into blocks and whatever the library reports; otherwise the error reported is the first of
  transfer failure, missing status and status other than 200, and without one the text parsed is
  the concatenation of all the blocks.
\<close>

lemma response_whole_or_refused:
  assumes "list_all wf_call (write_calls c req)" and "list_all can_store (write_calls c req)"
  shows "fetch_configuration c req =
    (let xml = concat (map data (write_calls c req)); code = transfer_code c req in
     if length xml > 65536 then Inl (DiscoveryError ''sensor configuration response exceeds 65536 bytes'')
     else if code \<noteq> 0
     then Inl (DiscoveryError (''sensor configuration request failed: '' @ strerror c code))
     else case response_code c req of
       None \<Rightarrow> Inl (DiscoveryError ''failed to inspect sensor configuration response'')
     | Some status \<Rightarrow> if status = 200 then Inr xml
         else Inl (DiscoveryError (''sensor configuration request returned HTTP '' @ show_int status)))"
proof (cases "length (concat (map data (write_calls c req))) \<le> kMaximumResponseBytes")
  case True
  then show ?thesis
    using feed_whole [OF assms, of response_empty]
    by (simp add: fetch_configuration_def curl_easy_perform_def response_empty_def kMaximumResponseBytes_def
        CURLE_OK_def Let_def split: option.split)
next
  case False
  then show ?thesis
    using feed_too_large [OF assms, of response_empty]
    by (cases "feed (write_calls c req) response_empty")
      (auto simp: fetch_configuration_def curl_easy_perform_def response_empty_def kMaximumResponseBytes_def)
qed

text \<open>
  Whatever the library accepts, the request that is sent names the configuration document of the
  given host over plain HTTP, follows no redirect and uses no proxy, and carries both timers.
\<close>

lemma request_confined:
  assumes "sensor_url c opts = Inr url" and "sensor_request P c opts url = Inr req"
  shows "map_of req CURLOPT_CURLU = Some (UrlValue url) \<and>
    map_of url CURLUPART_SCHEME = Some ''http'' \<and> map_of url CURLUPART_PATH = Some ''/netftapi2.xml'' \<and>
    map_of url CURLUPART_HOST = Some (c_str (bracketed_host (o_sensor_host opts))) \<and>
    map_of url CURLUPART_PORT = Some (c_str (show_int (o_http_port opts))) \<and>
    (map_of req CURLOPT_PROTOCOLS_STR = Some (StringValue ''http'') \<or>
     map_of req CURLOPT_PROTOCOLS = Some (LongValue CURLPROTO_HTTP)) \<and>
    map_of req CURLOPT_FOLLOWLOCATION = Some (LongValue 0) \<and>
    map_of req CURLOPT_PROXY = Some (StringValue []) \<and>
    (\<exists>ms. timeout_milliseconds P (o_connect_timeout opts) ''connect_timeout'' = Inr ms \<and>
          map_of req CURLOPT_CONNECTTIMEOUT_MS = Some (LongValue ms)) \<and>
    (\<exists>ms. timeout_milliseconds P (o_total_timeout opts) ''total_timeout'' = Inr ms \<and>
          map_of req CURLOPT_TIMEOUT_MS = Some (LongValue ms))"
proof -
  have u: "url = [(CURLUPART_SCHEME, ''http''), (CURLUPART_HOST, c_str (bracketed_host (o_sensor_host opts))),
      (CURLUPART_PORT, c_str (show_int (o_http_port opts))), (CURLUPART_PATH, ''/netftapi2.xml'')]"
    using assms(1) by (auto simp: sensor_url_def res_bind_Inr_iff kAtiConfigurationProtocol_def dest!: set_ok)
  from assms(2) show ?thesis
    unfolding sensor_request_def
    by (auto simp: u res_bind_Inr_iff kAtiConfigurationProtocol_def dest!: set_ok split: if_splits)
qed

end
