(* ===== verification/Protocol.thy ===== *)
theory Protocol
  imports Types
begin

text \<open>
  The RDT wire format (\<open>core/src/detail/protocol.cpp\<close>): requests of eight bytes and records of
  thirty-six, both big-endian. The lemmas show the layout, that a record survives the wire, that
  signed fields are the two's-complement reading of their four bytes, and which buffers are
  rejected.
\<close>

unbundle bit_operations_syntax

section \<open>The model\<close>

datatype command =
  StopStreaming | StartRealtime | StartBuffered | ResetConditionLatch | SetSoftwareBias

fun command_code :: "command \<Rightarrow> u16" where
  "command_code StopStreaming = 0x0000"
| "command_code StartRealtime = 0x0002"
| "command_code StartBuffered = 0x0003"
| "command_code ResetConditionLatch = 0x0041"
| "command_code SetSoftwareBias = 0x0042"

record raw_record =
  r_rdt_sequence :: u32
  r_ft_sequence :: u32
  r_status :: u32
  fx :: int
  fy :: int
  fz :: int
  tx :: int
  ty :: int
  tz :: int

definition read_u32 :: "u8 list \<Rightarrow> u32" where
  "read_u32 data =
     push_bit 24 (ucast (data ! 0)) OR push_bit 16 (ucast (data ! 1)) OR
     push_bit 8 (ucast (data ! 2)) OR ucast (data ! 3)"

text \<open>\<open>std::int32_t\<close> values are integers; the two casts are applied to values below \<open>2 ^ 31\<close> only.\<close>

definition read_i32 :: "u8 list \<Rightarrow> int" where
  "read_i32 data =
     (let value = read_u32 data in
      if value \<le> 0x7fffffff then uint value else - uint (NOT value) - 1)"

definition encode_request :: "command \<Rightarrow> u32 \<Rightarrow> u8 list" where
  "encode_request command count =
     (let value = command_code command in
      [0x12, 0x34, ucast (drop_bit 8 value), ucast value,
       ucast (drop_bit 24 count), ucast (drop_bit 16 count), ucast (drop_bit 8 count), ucast count])"

text \<open>
  The buffer is \<open>None\<close> for a null pointer, and \<open>sz\<close> says how many of its bytes the datagram
  filled; only the first \<open>sz\<close> bytes are read.
\<close>

definition decode_record :: "u8 list option \<Rightarrow> nat \<Rightarrow> raw_record res" where
  "decode_record data sz =
     (if sz \<noteq> 36
      then Inl (ProtocolError (''RDT record must be exactly 36 bytes, received '' @ show_nat sz))
      else case data of
        None \<Rightarrow> Inl (ProtocolError ''RDT record data must not be null'')
      | Some d \<Rightarrow> Inr \<lparr>r_rdt_sequence = read_u32 d,
                       r_ft_sequence = read_u32 (drop 4 d),
                       r_status = read_u32 (drop 8 d),
                       fx = read_i32 (drop 12 d), fy = read_i32 (drop 16 d), fz = read_i32 (drop 20 d),
                       tx = read_i32 (drop 24 d), ty = read_i32 (drop 28 d), tz = read_i32 (drop 32 d)\<rparr>)"

section \<open>The wire format, as a specification\<close>

text \<open>Big-endian bytes of a word, most significant first, and the layout of a record.\<close>

definition be_u32 :: "u32 \<Rightarrow> u8 list" where
  "be_u32 w = [ucast (drop_bit 24 w), ucast (drop_bit 16 w), ucast (drop_bit 8 w), ucast w]"

definition be_i32 :: "int \<Rightarrow> u8 list" where
  "be_i32 i = be_u32 (word_of_int i)"

definition wire_record :: "raw_record \<Rightarrow> u8 list" where
  "wire_record r =
     be_u32 (r_rdt_sequence r) @ be_u32 (r_ft_sequence r) @ be_u32 (r_status r) @
     be_i32 (fx r) @ be_i32 (fy r) @ be_i32 (fz r) @ be_i32 (tx r) @ be_i32 (ty r) @ be_i32 (tz r)"

definition int32 :: "int \<Rightarrow> bool" where
  "int32 i \<longleftrightarrow> - (2 ^ 31) \<le> i \<and> i < 2 ^ 31"

definition raw_record_ok :: "raw_record \<Rightarrow> bool" where
  "raw_record_ok r \<longleftrightarrow>
     int32 (fx r) \<and> int32 (fy r) \<and> int32 (fz r) \<and> int32 (tx r) \<and> int32 (ty r) \<and> int32 (tz r)"

definition parse_request :: "u8 list \<Rightarrow> (u16 \<times> u32) option" where
  "parse_request bs =
     (if length bs = 8 \<and> bs ! 0 = 0x12 \<and> bs ! 1 = 0x34
      then Some (push_bit 8 (ucast (bs ! 2)) OR ucast (bs ! 3), read_u32 (drop 4 bs)) else None)"

section \<open>Lemmas\<close>

lemma read_be_u32 [codec_simps]: "read_u32 (be_u32 w @ rest) = w"
proof (rule bit_word_eqI)
  fix n assume "n < LENGTH(32)"
  then show "bit (read_u32 (be_u32 w @ rest)) n = bit w n"
    by (cases "n < 8"; cases "n < 16"; cases "n < 24")
      (auto simp: read_u32_def be_u32_def bit_simps)
qed

lemma read_i32_sint: "read_i32 data = sint (read_u32 data)"
proof -
  let ?v = "read_u32 data"
  have n: "uint (NOT ?v) = 2 ^ 32 - 1 - uint ?v"
  proof -
    have "uint ?v \<le> uint (- 1 :: u32)"
      using uint_bounded [of ?v] by (simp add: unsigned_minus_1_eq_mask mask_eq_exp_minus_1)
    then have "uint (- 1 - ?v) = uint (- 1 :: u32) - uint ?v"
      by (simp only: uint_sub_lem)
    moreover have "NOT ?v = - 1 - ?v" by (simp add: not_eq_complement)
    ultimately show ?thesis by (simp add: unsigned_minus_1_eq_mask mask_eq_exp_minus_1)
  qed
  have "sint ?v = (uint ?v + 2 ^ 31) mod 2 ^ 32 - 2 ^ 31"
    using int_word_sint [of "uint ?v", where 'a = 32] by simp
  moreover have "(uint ?v + 2 ^ 31) mod 2 ^ 32 = uint ?v - 2 ^ 31" if "2 ^ 31 \<le> uint ?v"
    using that uint_bounded [of ?v] mod_add_self2 [of "uint ?v - 2 ^ 31" "2 ^ 32 :: int"]
    by (simp add: add.commute)
  ultimately show ?thesis
    using n uint_bounded [of ?v] uint_nonnegative [of ?v]
    by (auto simp: read_i32_def Let_def word_le_def)
qed

lemma sint_word_of_int32: "int32 i \<Longrightarrow> sint (word_of_int i :: u32) = i"
  by (simp add: int32_def sint_sbintrunc' signed_take_bit_int_eq_self_iff)

lemma read_be_i32 [codec_simps]: "int32 i \<Longrightarrow> read_i32 (be_i32 i @ rest) = i"
  by (simp add: read_i32_sint be_i32_def read_be_u32 sint_word_of_int32)

lemma length_be [simp]: "length (be_u32 w) = 4" "length (be_i32 i) = 4"
  by (simp_all add: be_u32_def be_i32_def)

lemma drop_be [codec_simps]:
  "drop (Suc (Suc (Suc (Suc n)))) (be_u32 w @ rest) = drop n rest"
  "drop (Suc (Suc (Suc (Suc n)))) (be_i32 i @ rest) = drop n rest"
  by (simp_all add: be_u32_def be_i32_def)

lemma u8_bit_beyond: "8 \<le> k \<Longrightarrow> \<not> bit (w :: u8) (k + n)"
  using bit_imp_le_length [of w "k + n"] by auto

lemma be_read_u32 [codec_simps]:
  assumes "4 \<le> length d"
  shows "be_u32 (read_u32 d) = take 4 d"
proof -
  obtain a b c e rest where d: "d = a # b # c # e # rest"
    using assms by (auto simp: Suc_le_length_iff numeral_eq_Suc)
  show ?thesis
    unfolding d be_u32_def read_u32_def by (auto intro!: bit_word_eqI simp: bit_simps u8_bit_beyond)
qed

lemma be_read_i32 [codec_simps]: "4 \<le> length d \<Longrightarrow> be_i32 (read_i32 d) = take 4 d"
  by (simp add: read_i32_sint be_i32_def be_read_u32)

lemma int32_read_i32: "int32 (read_i32 d)"
  using sint_range_size [of "read_u32 d"] by (simp add: read_i32_sint int32_def word_size)

lemma take_split4: "take (Suc (Suc (Suc (Suc n)))) d = take 4 d @ take n (drop 4 d)"
  using take_add [of 4 n d] by (simp add: numeral_eq_Suc)

lemma wire_of_decode:
  assumes "36 \<le> length d" and "decode_record (Some d) 36 = Inr r"
  shows "wire_record r = take 36 d"
proof -
  have "take 36 d = take 4 d @ take 4 (drop 4 d) @ take 4 (drop 8 d) @ take 4 (drop 12 d) @
      take 4 (drop 16 d) @ take 4 (drop 20 d) @ take 4 (drop 24 d) @ take 4 (drop 28 d) @ take 4 (drop 32 d)"
    using take_add [of 4 32 d] take_add [of 4 28 "drop 4 d"] take_add [of 4 24 "drop 8 d"]
      take_add [of 4 20 "drop 12 d"] take_add [of 4 16 "drop 16 d"] take_add [of 4 12 "drop 20 d"]
      take_add [of 4 8 "drop 24 d"] take_add [of 4 4 "drop 28 d"]
    by simp
  then show ?thesis
    using assms by (auto simp: decode_record_def wire_record_def be_read_u32 be_read_i32)
qed

lemma decode_of_wire:
  assumes "raw_record_ok r"
  shows "decode_record (Some (wire_record r @ rest)) 36 = Inr r"
  using assms
  by (cases r)
    (simp add: decode_record_def wire_record_def raw_record_ok_def codec_simps numeral_eq_Suc)

section \<open>Properties\<close>

text \<open>
  C20. Decoding inverts the wire format. The 36-byte big-endian image of a record decodes to the record,
  for every 32-bit value of every field and whatever follows it in the receive buffer. Decoding accepts
  exactly the 36-byte datagrams and loses nothing: what it returns has all its signed fields in the
  32-bit range and encodes back to the bytes received; any other size is a protocol error that names
  the size.
\<close>

theorem decode_record_roundtrip:
  assumes "sz \<le> length d"
  shows "(raw_record_ok r \<longrightarrow> decode_record (Some (wire_record r @ rest)) 36 = Inr r) \<and>
    (sz = 36 \<longrightarrow> (\<exists>r. decode_record (Some d) sz = Inr r \<and> raw_record_ok r \<and> wire_record r = take 36 d)) \<and>
    (sz \<noteq> 36 \<longrightarrow> decode_record (Some d) sz =
       Inl (ProtocolError (''RDT record must be exactly 36 bytes, received '' @ show_nat sz)))"
proof -
  have "\<exists>r. decode_record (Some d) 36 = Inr r \<and> raw_record_ok r"
    by (simp add: decode_record_def raw_record_ok_def int32_read_i32)
  then have "sz = 36 \<longrightarrow> (\<exists>r. decode_record (Some d) sz = Inr r \<and> raw_record_ok r \<and> wire_record r = take 36 d)"
    using assms wire_of_decode by fastforce
  then show ?thesis using decode_of_wire [of r rest] by (simp add: decode_record_def)
qed

theorem decode_record_roundtrip_witness:
  "decode_record (Some (replicate 40 0)) 35 =
     Inl (ProtocolError (''RDT record must be exactly 36 bytes, received '' @ show_nat 35)) \<and>
   (\<exists>r. decode_record (Some (replicate 40 1)) 36 = Inr r \<and> raw_record_ok r) \<and>
   decode_record (Some (wire_record \<lparr>r_rdt_sequence = 0xFFFFFFFF, r_ft_sequence = 7, r_status = 0x80010000,
      fx = -1, fy = -2147483648, fz = 2147483647, tx = 0, ty = 5, tz = -77\<rparr> @ [0, 0])) 36 =
   Inr \<lparr>r_rdt_sequence = 0xFFFFFFFF, r_ft_sequence = 7, r_status = 0x80010000,
      fx = -1, fy = -2147483648, fz = 2147483647, tx = 0, ty = 5, tz = -77\<rparr>"
proof -
  let ?r = "\<lparr>r_rdt_sequence = 0xFFFFFFFF, r_ft_sequence = 7, r_status = 0x80010000,
      fx = -1, fy = -2147483648, fz = 2147483647, tx = 0, ty = 5, tz = -77\<rparr>"
  have "raw_record_ok ?r" by (simp add: raw_record_ok_def int32_def)
  then show ?thesis
    using decode_record_roundtrip [of 35 "replicate 40 0" ?r "[0, 0]"]
      decode_record_roundtrip [of 36 "replicate 40 1" ?r "[0, 0]"]
    by auto
qed

text \<open>
  A request is eight bytes that start with the RDT header and carry the command and the sample
  count big-endian: the device can read both back, so different requests have different bytes.
\<close>

lemma encode_request_roundtrip:
  "parse_request (encode_request command count) = Some (command_code command, count) \<and>
   (encode_request command count = encode_request command' count' \<longleftrightarrow>
      command = command' \<and> count = count')"
proof -
  have p: "parse_request (encode_request c n) = Some (command_code c, n)" for c n
    using read_be_u32 [of n "[]"]
    by (cases c) (simp_all add: parse_request_def encode_request_def Let_def be_u32_def)
  have "command_code c = command_code c' \<longleftrightarrow> c = c'" for c c'
    by (cases c; cases c') auto
  then show ?thesis using p by (metis option.inject prod.inject)
qed

end
