(* ===== verification/Udp_Transport.thy ===== *)
theory Udp_Transport
  imports Types Protocol
begin

text \<open>
  The UDP transport in its two implementations (\<open>core/src/detail/udp_transport_posix.cpp\<close> and
  \<open>udp_transport_windows.cpp\<close>). The state is the socket, the shutdown flag and the descriptors the
  process holds; what the operating system answers is an argument of each operation. \<open>receive\<close> takes
  the mutex several times, and other threads may set the shutdown flag in between: the values read
  there are arguments too, and waiting without end is \<open>None\<close>. The locale \<open>datagram_transport\<close> states
  what the client relies on; both implementations satisfy it. The lemmas show that no descriptor
  leaks over any sequence of operations, that a shutdown or a close is seen by the next receive, and
  that each wait handed to the system is bounded.
\<close>

section \<open>State and system answers\<close>

record udp =
  socket :: "nat option"
  shutdown_requested :: bool
  open_fds :: "nat set"

definition udp_init :: udp where
  "udp_init = \<lparr>socket = None, shutdown_requested = False, open_fds = {}\<rparr>"

type_synonym errno = int

record os_text =
  strerror_text :: "errno \<Rightarrow> string"
  gai_text :: "int \<Rightarrow> string"

text \<open>One address: \<open>socket\<close> fails, or gives a descriptor for which \<open>connect\<close> fails or succeeds.\<close>

datatype address_attempt =
    SocketFails errno
  | ConnectFails nat errno
  | ConnectSucceeds nat

text \<open>The answer of \<open>getaddrinfo\<close>: an error code, or the addresses.\<close>

type_synonym resolution = "int + address_attempt list"

datatype send_outcome = Sent nat | SendFails errno

datatype recv_outcome = Received "u8 list" | RecvFails errno

section \<open>Both platforms: the wait in milliseconds\<close>

definition int_max :: int where "int_max = 2 ^ 31 - 1"

definition poll_milliseconds :: "rounding \<Rightarrow> fl \<Rightarrow> int" where
  "poll_milliseconds R timeout =
     (let milliseconds = fl_ceil (fl_mul binary64 R timeout (Fin 1000)) in
      if fl_le (Fin (of_int int_max)) milliseconds then int_max else fl_to_int milliseconds)"

text \<open>A difference of time points as a \<open>duration<double>\<close>.\<close>

definition seconds_of_ticks :: "rounding \<Rightarrow> ticks \<Rightarrow> fl" where
  "seconds_of_ticks R d = fl_div binary64 R (fl_of_int binary64 R d) (Fin 1000000000)"

definition not_connected :: exn where
  "not_connected = RuntimeError ''UDP socket is not connected''"

definition requestSize :: nat where "requestSize = 8"

section \<open>POSIX\<close>

definition socket_error :: "os_text \<Rightarrow> string \<Rightarrow> errno \<Rightarrow> exn" where
  "socket_error os operation e = RuntimeError (operation @ '': '' @ strerror_text os e)"

text \<open>The loop over the addresses, with \<open>last_error\<close> and the open descriptors.\<close>

fun connect_loop ::
  "address_attempt list \<Rightarrow> errno \<Rightarrow> nat set \<Rightarrow> nat option \<times> errno \<times> nat set" where
  "connect_loop [] last_error fds = (None, last_error, fds)"
| "connect_loop (SocketFails e # rest) last_error fds = connect_loop rest e fds"
| "connect_loop (ConnectSucceeds fd # rest) last_error fds = (Some fd, last_error, insert fd fds)"
| "connect_loop (ConnectFails fd e # rest) last_error fds =
     connect_loop rest e (insert fd fds - {fd})"

text \<open>The locked part at the end of \<open>connect\<close>, common to both platforms.\<close>

definition install_socket :: "nat \<Rightarrow> udp \<Rightarrow> udp" where
  "install_socket fd t =
     t\<lparr>open_fds := (case socket t of Some old \<Rightarrow> open_fds t - {old} | None \<Rightarrow> open_fds t),
       socket := Some fd, shutdown_requested := False\<rparr>"

definition posix_connect :: "os_text \<Rightarrow> resolution \<Rightarrow> udp \<Rightarrow> unit res \<times> udp" where
  "posix_connect os r t =
     (case r of
        Inl code \<Rightarrow> (Inl (RuntimeError (''failed to resolve sensor: '' @ gai_text os code)), t)
      | Inr addresses \<Rightarrow>
          (case connect_loop addresses 0 (open_fds t) of
             (None, last_error, fds) \<Rightarrow>
               (Inl (socket_error os ''failed to connect UDP socket'' last_error), t\<lparr>open_fds := fds\<rparr>)
           | (Some fd, _, fds) \<Rightarrow> (Inr (), install_socket fd (t\<lparr>open_fds := fds\<rparr>))))"

definition posix_send :: "os_text \<Rightarrow> send_outcome \<Rightarrow> udp \<Rightarrow> unit res" where
  "posix_send os r t =
     (if socket t = None then Inl not_connected
      else case r of
        SendFails e \<Rightarrow> Inl (socket_error os ''failed to send UDP request'' e)
      | Sent n \<Rightarrow> if n \<noteq> requestSize then Inl (RuntimeError ''short UDP request write'') else Inr ())"

text \<open>
  Outcomes of one \<open>poll\<close>: a ready descriptor with its \<open>POLLNVAL\<close> bit, the timeout, an interrupted call
  with the clock reading that follows it, or another error.
\<close>

datatype poll_outcome =
    PollReady bool
  | PollTimeout
  | PollInterrupted time_point
  | PollFails errno

datatype wait_result = WaitReady bool | WaitTimeout | WaitFails errno

text \<open>The loop around \<open>poll\<close>: its result and the timeouts passed to the system.\<close>

fun poll_loop ::
  "rounding \<Rightarrow> time_point \<Rightarrow> fl \<Rightarrow> poll_outcome list \<Rightarrow> wait_result option \<times> int list" where
  "poll_loop R deadline remaining [] = (None, [poll_milliseconds R remaining])"
| "poll_loop R deadline remaining (PollReady nval # _) =
     (Some (WaitReady nval), [poll_milliseconds R remaining])"
| "poll_loop R deadline remaining (PollTimeout # _) =
     (Some WaitTimeout, [poll_milliseconds R remaining])"
| "poll_loop R deadline remaining (PollFails e # _) =
     (Some (WaitFails e), [poll_milliseconds R remaining])"
| "poll_loop R deadline remaining (PollInterrupted now # rest) =
     (if now \<ge> deadline then (Some WaitTimeout, [poll_milliseconds R remaining])
      else let (w, ts) = poll_loop R deadline (seconds_of_ticks R (deadline - now)) rest in
           (w, poll_milliseconds R remaining # ts))"

definition EINTR :: errno where "EINTR = 4"

record posix_wait =
  pw_now :: time_point
  pw_polls :: "poll_outcome list"
  pw_shutdown :: bool
  pw_recv :: recv_outcome

definition posix_receive ::
  "platform \<Rightarrow> os_text \<Rightarrow> nat \<Rightarrow> fl \<Rightarrow> posix_wait \<Rightarrow> udp \<Rightarrow> u8 list res option \<times> int list" where
  "posix_receive P os capacity timeout w t =
     (if socket t = None then (Some (Inl not_connected), [])
      else if shutdown_requested t then (Some (Inr []), [])
      else case checked_deadline P (pw_now w) timeout of
        Inl e \<Rightarrow> (Some (Inl e), [])
      | Inr deadline \<Rightarrow>
          let (r, waits) = poll_loop (rounding_mode P) deadline timeout (pw_polls w) in
          (map_option (\<lambda>result.
             case result of
               WaitFails e \<Rightarrow> Inl (socket_error os ''failed to wait for UDP record'' e)
             | WaitTimeout \<Rightarrow> Inr []
             | WaitReady nval \<Rightarrow>
                 if pw_shutdown w then Inr []
                 else if nval then Inl (RuntimeError ''UDP socket became invalid'')
                 else case pw_recv w of
                   Received bytes \<Rightarrow> Inr (take capacity bytes)
                 | RecvFails e \<Rightarrow>
                     if e = EINTR then Inr []
                     else Inl (socket_error os ''failed to receive UDP record'' e)) r, waits))"

definition posix_shutdown :: "udp \<Rightarrow> udp" where
  "posix_shutdown t = t\<lparr>shutdown_requested := True\<rparr>"

definition posix_close :: "udp \<Rightarrow> udp" where
  "posix_close t =
     (let t1 = t\<lparr>shutdown_requested := True\<rparr> in
      case socket t1 of
        None \<Rightarrow> t1
      | Some fd \<Rightarrow> t1\<lparr>open_fds := open_fds t1 - {fd}, socket := None\<rparr>)"

section \<open>Windows\<close>

definition WSAEINTR :: errno where "WSAEINTR = 10004"
definition WSAENOTSOCK :: errno where "WSAENOTSOCK = 10038"
definition WSAECONNRESET :: errno where "WSAECONNRESET = 10054"
definition WSAESHUTDOWN :: errno where "WSAESHUTDOWN = 10058"
definition WSAEHOSTUNREACH :: errno where "WSAEHOSTUNREACH = 10065"

definition winsock_error :: "string \<Rightarrow> errno \<Rightarrow> exn" where
  "winsock_error operation e = RuntimeError (operation @ '' (WinSock error '' @ show_int e @ '')'')"

definition winsock_runtime :: "int \<Rightarrow> unit res" where
  "winsock_runtime startup =
     (if startup \<noteq> 0 then Inl (winsock_error ''failed to initialize WinSock'' startup) else Inr ())"

record revents =
  pollerr :: bool
  pollhup :: bool
  pollnval :: bool

text \<open>\<open>so_error\<close> is what \<open>getsockopt\<close> stores, \<open>None\<close> if the call fails.\<close>

definition socket_wait_error :: "errno option \<Rightarrow> revents \<Rightarrow> errno" where
  "socket_wait_error so_error ev =
     (if pollnval ev then WSAENOTSOCK
      else case so_error of
        Some e \<Rightarrow> if pollerr ev \<and> e \<noteq> 0 then e else WSAECONNRESET
      | None \<Rightarrow> WSAECONNRESET)"

definition win_connect :: "resolution \<Rightarrow> udp \<Rightarrow> unit res \<times> udp" where
  "win_connect r t =
     (case r of
        Inl code \<Rightarrow> (Inl (winsock_error ''failed to resolve sensor'' code), t)
      | Inr addresses \<Rightarrow>
          (case connect_loop addresses WSAEHOSTUNREACH (open_fds t) of
             (None, last_error, fds) \<Rightarrow>
               (Inl (winsock_error ''failed to connect UDP socket'' last_error), t\<lparr>open_fds := fds\<rparr>)
           | (Some fd, _, fds) \<Rightarrow> (Inr (), install_socket fd (t\<lparr>open_fds := fds\<rparr>))))"

definition win_send :: "send_outcome \<Rightarrow> udp \<Rightarrow> unit res" where
  "win_send r t =
     (if socket t = None then Inl not_connected
      else case r of
        SendFails e \<Rightarrow> Inl (winsock_error ''failed to send UDP request'' e)
      | Sent n \<Rightarrow> if n \<noteq> requestSize then Inl (RuntimeError ''short UDP request write'') else Inr ())"

definition kShutdownCheckIntervalMilliseconds :: int where
  "kShutdownCheckIntervalMilliseconds = 50"

datatype win_poll = WinReady revents | WinTimeout | WinFails errno

text \<open>One turn of the waiting loop: the flag, the clock before and after, the outcome of \<open>WSAPoll\<close>.\<close>

record win_turn =
  wt_shutdown :: bool
  wt_now :: time_point
  wt_poll :: win_poll
  wt_after :: time_point

datatype win_result = WinGot revents | WinNothing | WinError errno

definition win_poll_timeout :: "rounding \<Rightarrow> ticks \<Rightarrow> int" where
  "win_poll_timeout R remaining =
     (let poll_timeout =
        (if remaining > 0
         then fl_min (seconds_of_ticks R remaining)
                (fl_div binary64 R (fl_of_int binary64 R kShutdownCheckIntervalMilliseconds) (Fin 1000))
         else Fin 0) in
      min kShutdownCheckIntervalMilliseconds (poll_milliseconds R poll_timeout))"

fun win_poll_loop ::
  "rounding \<Rightarrow> time_point \<Rightarrow> win_turn list \<Rightarrow> win_result option \<times> int list" where
  "win_poll_loop R deadline [] = (None, [])"
| "win_poll_loop R deadline (w # rest) =
     (if wt_shutdown w then (Some WinNothing, [])
      else let ms = win_poll_timeout R (deadline - wt_now w) in
        case wt_poll w of
          WinFails e \<Rightarrow> (Some (if e = WSAEINTR then WinNothing else WinError e), [ms])
        | WinReady ev \<Rightarrow> (Some (WinGot ev), [ms])
        | WinTimeout \<Rightarrow>
            if wt_after w \<ge> deadline then (Some WinNothing, [ms])
            else let (r, ts) = win_poll_loop R deadline rest in (r, ms # ts))"

record win_wait =
  ww_now :: time_point
  ww_turns :: "win_turn list"
  ww_shutdown :: bool
  ww_so_error :: "errno option"
  ww_recv :: recv_outcome
  ww_shutdown_after :: bool

definition win_receive ::
  "platform \<Rightarrow> nat \<Rightarrow> fl \<Rightarrow> win_wait \<Rightarrow> udp \<Rightarrow> u8 list res option \<times> int list" where
  "win_receive P capacity timeout w t =
     (if socket t = None then (Some (Inl not_connected), [])
      else if shutdown_requested t then (Some (Inr []), [])
      else case res_bind (checked_duration P timeout) (\<lambda>_. checked_deadline P (ww_now w) timeout) of
        Inl e \<Rightarrow> (Some (Inl e), [])
      | Inr deadline \<Rightarrow>
          let (r, waits) = win_poll_loop (rounding_mode P) deadline (ww_turns w) in
          (map_option (\<lambda>result.
             case result of
               WinNothing \<Rightarrow> Inr []
             | WinError e \<Rightarrow> Inl (winsock_error ''failed to wait for UDP record'' e)
             | WinGot ev \<Rightarrow>
                 if ww_shutdown w then Inr []
                 else if pollerr ev \<or> pollhup ev \<or> pollnval ev
                 then Inl (winsock_error ''failed to wait for UDP record''
                             (socket_wait_error (ww_so_error w) ev))
                 else case ww_recv w of
                   Received bytes \<Rightarrow> Inr (take (min capacity (nat int_max)) bytes)
                 | RecvFails e \<Rightarrow>
                     if ww_shutdown_after w then Inr []
                     else if e = WSAEINTR \<or> e = WSAESHUTDOWN then Inr []
                     else Inl (winsock_error ''failed to receive UDP record'' e)) r, waits))"

definition win_shutdown :: "udp \<Rightarrow> udp" where
  "win_shutdown t = t\<lparr>shutdown_requested := True\<rparr>"

definition win_close :: "udp \<Rightarrow> udp" where
  "win_close t =
     (let t1 = t\<lparr>shutdown_requested := True\<rparr> in
      case socket t1 of
        None \<Rightarrow> t1
      | Some fd \<Rightarrow> t1\<lparr>open_fds := open_fds t1 - {fd}, socket := None\<rparr>)"

section \<open>The contract of a transport\<close>

text \<open>The descriptors of a resolution are new: the system never hands out one that is open.\<close>

fun attempt_fd :: "address_attempt \<Rightarrow> nat option" where
  "attempt_fd (SocketFails e) = None"
| "attempt_fd (ConnectFails fd e) = Some fd"
| "attempt_fd (ConnectSucceeds fd) = Some fd"

fun fresh :: "resolution \<Rightarrow> udp \<Rightarrow> bool" where
  "fresh (Inl code) t = True"
| "fresh (Inr addresses) t = list_all (\<lambda>a. case attempt_fd a of None \<Rightarrow> True | Some fd \<Rightarrow> fd \<notin> open_fds t) addresses"

text \<open>The process holds exactly the connected socket.\<close>

definition no_leak :: "udp \<Rightarrow> bool" where
  "no_leak t \<longleftrightarrow> open_fds t = (case socket t of None \<Rightarrow> {} | Some fd \<Rightarrow> {fd})"

text \<open>The calls that change the state, and the state after one; an answer with an open descriptor is impossible.\<close>

datatype transport_call = Connect resolution | Shutdown | Close

fun transport_step ::
  "(resolution \<Rightarrow> udp \<Rightarrow> unit res \<times> udp) \<Rightarrow> (udp \<Rightarrow> udp) \<Rightarrow> (udp \<Rightarrow> udp) \<Rightarrow> transport_call \<Rightarrow>
     udp \<Rightarrow> udp option" where
  "transport_step conn shut clos (Connect r) t = (if fresh r t then Some (snd (conn r t)) else None)"
| "transport_step conn shut clos Shutdown t = Some (shut t)"
| "transport_step conn shut clos Close t = Some (clos t)"

locale datagram_transport =
  fixes connect :: "resolution \<Rightarrow> udp \<Rightarrow> unit res \<times> udp"
    and send :: "send_outcome \<Rightarrow> udp \<Rightarrow> unit res"
    and receive :: "'w \<Rightarrow> udp \<Rightarrow> u8 list res option"
    and shutdown :: "udp \<Rightarrow> udp"
    and close :: "udp \<Rightarrow> udp"
  assumes connect_ok: "connect r t = (Inr u, t') \<Longrightarrow> socket t' \<noteq> None \<and> \<not> shutdown_requested t'"
    and connect_failed: "connect r t = (Inl e, t') \<Longrightarrow>
          socket t' = socket t \<and> shutdown_requested t' = shutdown_requested t"
    and connect_no_leak: "no_leak t \<Longrightarrow> fresh r t \<Longrightarrow> no_leak (snd (connect r t))"
    and shutdown_flag: "shutdown t = t\<lparr>shutdown_requested := True\<rparr>"
    and close_socket: "socket (close t) = None \<and> shutdown_requested (close t)"
    and close_no_leak: "no_leak t \<Longrightarrow> no_leak (close t)"
    and send_closed: "socket t = None \<Longrightarrow> send s t = Inl not_connected"
    and receive_closed: "socket t = None \<Longrightarrow> receive w t = Some (Inl not_connected)"
    and receive_shutdown: "socket t \<noteq> None \<Longrightarrow> shutdown_requested t \<Longrightarrow> receive w t = Some (Inr [])"
begin

lemma receive_after_shutdown: "socket t \<noteq> None \<Longrightarrow> receive w (shutdown t) = Some (Inr [])"
  by (rule receive_shutdown) (simp_all add: shutdown_flag)

lemma calls_after_close:
  "receive w (close t) = Some (Inl not_connected) \<and> send s (close t) = Inl not_connected"
  using close_socket [of t] by (simp add: receive_closed send_closed)

lemma step_no_leak: "no_leak t \<Longrightarrow> transport_step connect shutdown close c t = Some t' \<Longrightarrow> no_leak t'"
proof (cases c)
  case Shutdown
  then show "no_leak t \<Longrightarrow> transport_step connect shutdown close c t = Some t' \<Longrightarrow> no_leak t'"
    by (auto simp: shutdown_flag no_leak_def)
qed (auto split: if_splits simp: connect_no_leak close_no_leak)

lemma reconnect_clears_shutdown:
  "connect r (close (shutdown t)) = (Inr u, t') \<Longrightarrow> socket t' \<noteq> None \<and> \<not> shutdown_requested t'"
  by (rule connect_ok)

end

text \<open>Descriptors of failed attempts are closed again; a success keeps exactly one new one.\<close>

lemma connect_loop_fds:
  assumes "connect_loop as e0 fds = (r, e, fds')"
    and "list_all (\<lambda>a. case attempt_fd a of None \<Rightarrow> True | Some fd \<Rightarrow> fd \<notin> fds) as"
  shows "fds' = (case r of None \<Rightarrow> fds | Some fd \<Rightarrow> insert fd fds) \<and>
    (\<forall>fd. r = Some fd \<longrightarrow> fd \<notin> fds \<and> ConnectSucceeds fd \<in> set as)"
  using assms
  by (induction as e0 fds rule: connect_loop.induct) (auto split: option.splits)

lemma install_socket_props:
  "socket (install_socket fd t) = Some fd" "\<not> shutdown_requested (install_socket fd t)"
  by (simp_all add: install_socket_def)

lemma install_no_leak:
  assumes "no_leak t" and "fd \<notin> open_fds t"
  shows "no_leak (install_socket fd (t\<lparr>open_fds := insert fd (open_fds t)\<rparr>))"
  using assms by (auto simp: no_leak_def install_socket_def split: option.splits)

lemmas transport_defs =
  posix_connect_def posix_send_def posix_receive_def posix_shutdown_def posix_close_def
  win_connect_def win_send_def win_receive_def win_shutdown_def win_close_def

lemma posix_connect_no_leak:
  assumes "no_leak t" and "fresh r t"
  shows "no_leak (snd (posix_connect os r t))"
proof (cases r)
  case (Inr as)
  obtain s e fds where c: "connect_loop as 0 (open_fds t) = (s, e, fds)" by (metis prod_cases3)
  then show ?thesis
    using assms Inr connect_loop_fds [OF c] install_no_leak [of t]
    by (cases s) (auto simp: posix_connect_def no_leak_def)
qed (use assms in \<open>simp add: posix_connect_def\<close>)

lemma win_connect_no_leak:
  assumes "no_leak t" and "fresh r t"
  shows "no_leak (snd (win_connect r t))"
proof (cases r)
  case (Inr as)
  obtain s e fds where c: "connect_loop as WSAEHOSTUNREACH (open_fds t) = (s, e, fds)" by (metis prod_cases3)
  then show ?thesis
    using assms Inr connect_loop_fds [OF c] install_no_leak [of t]
    by (cases s) (auto simp: win_connect_def no_leak_def)
qed (use assms in \<open>simp add: win_connect_def\<close>)

lemma connect_results:
  "posix_connect os r t = (Inr u, t') \<Longrightarrow> socket t' \<noteq> None \<and> \<not> shutdown_requested t'"
  "win_connect r t = (Inr u, t') \<Longrightarrow> socket t' \<noteq> None \<and> \<not> shutdown_requested t'"
  "posix_connect os r t = (Inl e, t') \<Longrightarrow> socket t' = socket t \<and> shutdown_requested t' = shutdown_requested t"
  "win_connect r t = (Inl e, t') \<Longrightarrow> socket t' = socket t \<and> shutdown_requested t' = shutdown_requested t"
  by (auto simp: posix_connect_def win_connect_def install_socket_props split: sum.splits prod.splits option.splits)

lemma close_results:
  "socket (posix_close t) = None \<and> shutdown_requested (posix_close t)"
  "socket (win_close t) = None \<and> shutdown_requested (win_close t)"
  "no_leak t \<Longrightarrow> no_leak (posix_close t)"
  "no_leak t \<Longrightarrow> no_leak (win_close t)"
  by (auto simp: posix_close_def win_close_def Let_def no_leak_def split: option.splits)

lemma receive_results:
  "socket t = None \<Longrightarrow> posix_receive P os capacity timeout w t = (Some (Inl not_connected), [])"
  "socket t = None \<Longrightarrow> win_receive P capacity timeout w' t = (Some (Inl not_connected), [])"
  "socket t \<noteq> None \<Longrightarrow> shutdown_requested t \<Longrightarrow> posix_receive P os capacity timeout w t = (Some (Inr []), [])"
  "socket t \<noteq> None \<Longrightarrow> shutdown_requested t \<Longrightarrow> win_receive P capacity timeout w' t = (Some (Inr []), [])"
  by (simp_all add: posix_receive_def win_receive_def)

interpretation posix: datagram_transport "posix_connect os" "posix_send os"
  "\<lambda>w t. fst (posix_receive P os capacity timeout w t)" posix_shutdown posix_close
  for os P capacity timeout
  by unfold_locales
    (simp_all add: connect_results posix_connect_no_leak close_results receive_results
      posix_shutdown_def posix_send_def)

interpretation windows: datagram_transport win_connect win_send
  "\<lambda>w t. fst (win_receive P capacity timeout w t)" win_shutdown win_close
  for P capacity timeout
  by unfold_locales
    (simp_all add: connect_results win_connect_no_leak close_results receive_results
      win_shutdown_def win_send_def)

lemma no_leak_init: "no_leak udp_init"
  by (simp add: no_leak_def udp_init_def)

interpretation posix_run: invariant_system
  "transport_step (posix_connect os) posix_shutdown posix_close" "\<lambda>t. t = udp_init" no_leak
  for os
  by unfold_locales (simp_all add: no_leak_init posix.step_no_leak)

interpretation windows_run: invariant_system
  "transport_step win_connect win_shutdown win_close" "\<lambda>t. t = udp_init" no_leak
  by unfold_locales (simp_all add: no_leak_init windows.step_no_leak)

section \<open>Bounds of the waits\<close>

lemma poll_milliseconds_bounds:
  assumes "timeout = Fin r \<and> 0 \<le> r \<or> timeout = Inf False"
  shows "0 \<le> poll_milliseconds R timeout \<and> poll_milliseconds R timeout \<le> int_max"
proof -
  have nonneg: "fl_round binary64 R x = Fin v \<Longrightarrow> 0 \<le> x \<Longrightarrow> 0 \<le> v" for x v
    using rounded_nonneg [of binary64 R x] fmax_pos [of binary64]
    by (cases "x = 0"; cases R) (auto simp: fl_round_rounded split: if_splits)
  show ?thesis
  proof (cases "fl_mul binary64 R timeout (Fin 1000)")
    case (Fin v)
    then have "0 \<le> v" using assms nonneg by auto
    have "fl_le (Fin (of_int int_max)) (Fin (of_int \<lceil>v\<rceil>)) \<longleftrightarrow> int_max \<le> \<lceil>v\<rceil>"
      by (auto simp: fl_le_def)
    then have "poll_milliseconds R timeout = (if int_max \<le> \<lceil>v\<rceil> then int_max else \<lceil>v\<rceil>)"
      using Fin \<open>0 \<le> v\<close> by (simp add: poll_milliseconds_def rat_trunc_def)
    then show ?thesis using \<open>0 \<le> v\<close> by (simp add: int_max_def)
  next
    case (Inf b)
    have "fl_mul binary64 R timeout (Fin 1000) \<noteq> Inf True"
      using assms by (cases R) (auto simp: fl_round_rounded fl_round_def Let_def split: if_splits)
    then show ?thesis using Inf by (cases b) (auto simp: poll_milliseconds_def int_max_def fl_le_def)
  next
    case NaN
    then show ?thesis using assms by (cases R) (auto simp: fl_round_def Let_def split: if_splits)
  qed
qed


lemma fl_round_nonneg:
  assumes "0 \<le> r"
  shows "(\<exists>v. fl_round binary64 R r = Fin v \<and> 0 \<le> v) \<or> fl_round binary64 R r = Inf False"
  using assms rounded_nonneg [of binary64 R r] fmax_pos [of binary64]
  by (cases "r = 0"; cases R) (auto simp: fl_round_rounded)

lemma fl_div_nonneg:
  assumes "0 \<le> r" and "0 < d"
  shows "\<exists>x. fl_div binary64 R (fl_round binary64 R r) (Fin d) = x \<and>
    ((\<exists>v. x = Fin v \<and> 0 \<le> v) \<or> x = Inf False)"
proof (cases "fl_round binary64 R r")
  case (Fin v)
  then have "0 \<le> v / d" using fl_round_nonneg [OF assms(1), of R] assms(2) by simp
  then show ?thesis using Fin assms(2) fl_round_nonneg [of "v / d" R] by auto
qed (use fl_round_nonneg [OF assms(1), of R] assms(2) in auto)

lemma seconds_of_ticks_nonneg:
  "0 \<le> d \<Longrightarrow> (\<exists>v. seconds_of_ticks R d = Fin v \<and> 0 \<le> v) \<or> seconds_of_ticks R d = Inf False"
  using fl_div_nonneg [of "of_int d" 1000000000 R] by (simp add: seconds_of_ticks_def fl_of_int_def)

lemma poll_loop_waits:
  assumes "timeout = Fin r \<and> 0 \<le> r \<or> timeout = Inf False" and "poll_loop R deadline timeout ps = (w, ts)"
  shows "\<forall>ms \<in> set ts. 0 \<le> ms \<and> ms \<le> int_max"
  using assms
proof (induction R deadline timeout ps arbitrary: w ts r rule: poll_loop.induct)
  case (5 R deadline remaining now rest)
  show ?case
  proof (cases "now \<ge> deadline")
    case False
    obtain w1 ts1 where l: "poll_loop R deadline (seconds_of_ticks R (deadline - now)) rest = (w1, ts1)" by fastforce
    have "\<forall>ms \<in> set ts1. 0 \<le> ms \<and> ms \<le> int_max"
      using "5.IH" [OF False _ l] seconds_of_ticks_nonneg [of "deadline - now" R] False by auto
    then show ?thesis using l "5.prems" False poll_milliseconds_bounds [OF "5.prems"(1), of R] by auto
  qed (use "5.prems" poll_milliseconds_bounds [OF "5.prems"(1), of R] in auto)
qed (use poll_milliseconds_bounds in auto)

lemma win_poll_timeout_bounds: "0 \<le> win_poll_timeout R d \<and> win_poll_timeout R d \<le> 50"
proof -
  have "(\<exists>v. fl_div binary64 R (fl_of_int binary64 R kShutdownCheckIntervalMilliseconds) (Fin 1000) = Fin v \<and> 0 \<le> v) \<or>
    fl_div binary64 R (fl_of_int binary64 R kShutdownCheckIntervalMilliseconds) (Fin 1000) = Inf False"
    using fl_div_nonneg [of 50 1000 R] by (simp add: fl_of_int_def kShutdownCheckIntervalMilliseconds_def)
  then have "0 \<le> poll_milliseconds R (fl_min (seconds_of_ticks R d)
      (fl_div binary64 R (fl_of_int binary64 R kShutdownCheckIntervalMilliseconds) (Fin 1000)))" if "0 < d"
    using seconds_of_ticks_nonneg [of d R] that poll_milliseconds_bounds by (auto simp: fl_min_def)
  then show ?thesis
    using poll_milliseconds_bounds [of "Fin 0" 0 R]
    by (auto simp: win_poll_timeout_def Let_def kShutdownCheckIntervalMilliseconds_def)
qed

lemma win_poll_loop_waits:
  "win_poll_loop R deadline ws = (r, ts) \<Longrightarrow> \<forall>ms \<in> set ts. 0 \<le> ms \<and> ms \<le> 50"
proof (induction ws arbitrary: r ts)
  case (Cons w ws)
  then show ?case
    using win_poll_timeout_bounds [of R "deadline - wt_now w"]
    by (auto simp: Let_def split: if_splits win_poll.splits prod.splits)
qed auto

text \<open>The loops end with the first answer that is not an interruption before the deadline.\<close>

definition ends_poll :: "time_point \<Rightarrow> poll_outcome \<Rightarrow> bool" where
  "ends_poll deadline p \<longleftrightarrow> (case p of PollInterrupted now \<Rightarrow> now \<ge> deadline | _ \<Rightarrow> True)"

definition ends_turn :: "time_point \<Rightarrow> win_turn \<Rightarrow> bool" where
  "ends_turn deadline w \<longleftrightarrow> wt_shutdown w \<or> wt_poll w \<noteq> WinTimeout \<or> wt_after w \<ge> deadline"

lemma poll_loop_returns:
  "list_ex (ends_poll deadline) ps \<Longrightarrow> fst (poll_loop R deadline timeout ps) \<noteq> None"
  by (induction R deadline timeout ps rule: poll_loop.induct) (auto simp: ends_poll_def split: prod.splits)

lemma win_poll_loop_returns:
  "list_ex (ends_turn deadline) ws \<Longrightarrow> fst (win_poll_loop R deadline ws) \<noteq> None"
  by (induction ws) (auto simp: ends_turn_def Let_def split: prod.splits win_poll.splits)

section \<open>Properties\<close>

text \<open>
  C38. No descriptor leaks: after any sequence of connects (with any number of addresses that fail at
  any stage), shutdowns and closes, on either platform, the process holds exactly the socket the
  transport is connected to, and none if it is not connected.
\<close>

theorem no_descriptor_leak:
  "(run_steps (transport_step (posix_connect os) posix_shutdown posix_close) calls udp_init = Some t \<longrightarrow>
      open_fds t = (case socket t of None \<Rightarrow> {} | Some fd \<Rightarrow> {fd})) \<and>
   (run_steps (transport_step win_connect win_shutdown win_close) calls udp_init = Some t \<longrightarrow>
      open_fds t = (case socket t of None \<Rightarrow> {} | Some fd \<Rightarrow> {fd}))"
  using posix_run.inv_reachable [of udp_init os calls t] windows_run.inv_reachable [of udp_init calls t]
  by (simp add: no_leak_def)

theorem no_descriptor_leak_witness:
  "let calls = [Connect (Inr [SocketFails 97, ConnectFails 3 101, ConnectSucceeds 4]), Shutdown, Close,
                Connect (Inr [ConnectSucceeds 3])] in
   \<exists>t. run_steps (transport_step win_connect win_shutdown win_close) calls udp_init = Some t \<and>
       socket t = Some 3 \<and> open_fds t = {3}"
proof -
  let ?calls = "[Connect (Inr [SocketFails 97, ConnectFails 3 101, ConnectSucceeds 4]), Shutdown, Close,
                Connect (Inr [ConnectSucceeds 3])]"
  let ?step = "transport_step win_connect win_shutdown win_close"
  obtain t where t: "run_steps ?step ?calls udp_init = Some t" "socket t = Some 3"
    by (simp add: win_connect_def win_shutdown_def win_close_def udp_init_def install_socket_def)
  then show ?thesis using no_descriptor_leak [of _ ?calls t] by simp
qed

text \<open>
  A shutdown or a close is seen by the next call whatever the system would answer: on both
  platforms, receiving on a connected transport that was shut down returns no bytes without waiting,
  and after a close receiving and sending throw that the socket is not connected.
\<close>

lemma shutdown_and_close_observed:
  assumes "socket t \<noteq> None"
  shows "posix_receive P os capacity timeout w (posix_shutdown t) = (Some (Inr []), []) \<and>
    win_receive P capacity timeout w' (win_shutdown t) = (Some (Inr []), []) \<and>
    posix_receive P os capacity timeout w (posix_close t) = (Some (Inl not_connected), []) \<and>
    win_receive P capacity timeout w' (win_close t) = (Some (Inl not_connected), []) \<and>
    posix_send os s (posix_close t) = Inl not_connected \<and> win_send s (win_close t) = Inl not_connected"
  using assms
  by (simp add: receive_results posix_shutdown_def win_shutdown_def close_results
      posix.calls_after_close windows.calls_after_close)

text \<open>
  C39. Every wait is bounded and every receive ends. For a non-negative timeout the waits handed to
  \<open>poll\<close> lie between 0 and the largest \<open>int\<close>, so never mean forever, and those handed to \<open>WSAPoll\<close>
  between 0 and 50 milliseconds; and the call returns as soon as the system gives any answer other
  than an interruption, or in the Windows loop an empty slice, before the deadline.
\<close>

theorem waits_bounded_and_end:
  assumes "0 \<le> r"
  shows "(\<forall>ms \<in> set (snd (posix_receive P os capacity (Fin r) w t)). 0 \<le> ms \<and> ms \<le> 2 ^ 31 - 1) \<and>
    (\<forall>ms \<in> set (snd (win_receive P capacity (Fin r) w' t)). 0 \<le> ms \<and> ms \<le> 50) \<and>
    (\<forall>deadline. checked_deadline P (pw_now w) (Fin r) = Inr deadline \<longrightarrow>
       list_ex (ends_poll deadline) (pw_polls w) \<longrightarrow>
       fst (posix_receive P os capacity (Fin r) w t) \<noteq> None) \<and>
    (\<forall>deadline. checked_deadline P (ww_now w') (Fin r) = Inr deadline \<longrightarrow>
       list_ex (ends_turn deadline) (ww_turns w') \<longrightarrow>
       fst (win_receive P capacity (Fin r) w' t) \<noteq> None)"
proof (intro conjI allI impI)
  show "\<forall>ms \<in> set (snd (posix_receive P os capacity (Fin r) w t)). 0 \<le> ms \<and> ms \<le> 2 ^ 31 - 1"
    using assms by (auto simp: posix_receive_def Let_def split: sum.splits prod.splits
        dest!: poll_loop_waits [of "Fin r" r, rotated] simp: int_max_def)
  show "\<forall>ms \<in> set (snd (win_receive P capacity (Fin r) w' t)). 0 \<le> ms \<and> ms \<le> 50"
    by (auto simp: win_receive_def Let_def split: sum.splits prod.splits dest!: win_poll_loop_waits)
next
  fix deadline
  assume "checked_deadline P (pw_now w) (Fin r) = Inr deadline" "list_ex (ends_poll deadline) (pw_polls w)"
  then show "fst (posix_receive P os capacity (Fin r) w t) \<noteq> None"
    using poll_loop_returns [of deadline "pw_polls w" "rounding_mode P" "Fin r"]
    by (auto simp: posix_receive_def Let_def split: prod.splits)
next
  fix deadline
  assume "checked_deadline P (ww_now w') (Fin r) = Inr deadline" "list_ex (ends_turn deadline) (ww_turns w')"
  then show "fst (win_receive P capacity (Fin r) w' t) \<noteq> None"
    using win_poll_loop_returns [of deadline "ww_turns w'" "rounding_mode P"]
    by (auto simp: win_receive_def Let_def checked_deadline_def res_bind_Inr_iff split: prod.splits sum.splits)
qed

theorem waits_bounded_and_end_witness:
  "\<exists>os. let w = \<lparr>pw_now = 0, pw_polls = [PollInterrupted 10, PollReady False], pw_shutdown = False,
                 pw_recv = Received [1, 2, 3]\<rparr> in
   fst (posix_receive linux_x86_64 os 36 (Fin 1) w (install_socket 3 udp_init)) \<noteq> None"
proof -
  let ?w = "\<lparr>pw_now = 0, pw_polls = [PollInterrupted 10, PollReady False], pw_shutdown = False,
                 pw_recv = Received [1, 2, 3]\<rparr>"
  obtain k where "checked_duration linux_x86_64 (Fin 1) = Inr k" "k \<le> 2 ^ 49"
    using checked_duration_ordinary [of linux_x86_64 1] by auto
  then have "\<exists>deadline. checked_deadline linux_x86_64 (pw_now ?w) (Fin 1) = Inr deadline"
    by (auto simp: checked_deadline_def steady_max_def)
  moreover have "list_ex (ends_poll deadline) (pw_polls ?w)" for deadline by (simp add: ends_poll_def)
  ultimately show ?thesis
    using waits_bounded_and_end [of 1 linux_x86_64 _ 36 ?w "install_socket 3 udp_init"] by auto
qed

end
