(* ===== verification/Client_Impl.thy ===== *)
theory Client_Impl
  imports Status Sequence_Trackers Fault_Latch Discovery Udp_Transport
begin

text \<open>
  The state of \<open>Client::Impl\<close> and the operations of \<open>core/src/detail/client_impl.cpp\<close> that treat one
  record, one configuration, one command or one snapshot. \<open>handle_record\<close> is the whole handler: the
  part under the locks, the scaling, the call of the user's callback and the bookkeeping after it.
  While the callback runs no lock is held, so other threads and the callback itself may change the
  state: that change is an argument. The lemmas relate the delivery decision to the trackers and the
  status, account for the counters, bound the delivery rate, and show that a validated calibration
  never makes a record fail.
\<close>

section \<open>State\<close>

datatype session_result =
    SessionStopped | SessionSensorConfiguration | SessionTimeout | SessionSocket
  | SessionSeriousStatus | SessionFtStall | SessionFtBackward | SessionMalformedStorm
  | SessionCallback

record session_outcome =
  result :: session_result
  message :: string
  received_valid_record :: bool

text \<open>
  The members of \<open>Client::Impl\<close>. A thread is named by a number: \<open>c_worker\<close> is the joinable worker,
  \<open>c_active_worker_id\<close> the recorded id. \<open>c_callback\<close> names the installed callback, \<open>None\<close> for an
  empty \<open>std::function\<close>. The default-constructed time point is 0. \<open>c_curl_once\<close> is the process-wide
  flag of \<open>initialize_curl_once\<close>.
\<close>

record impl =
  c_config :: config
  c_worker :: "nat option"
  c_active_worker_id :: "nat option"
  c_joining :: bool
  c_callback :: "nat option"
  c_transport :: udp
  c_rdt_sequence :: rdt_tracker
  c_ft_sequence :: ft_tracker
  c_stopping :: bool
  c_worker_exited :: bool
  c_session_started :: bool
  c_fault_latch :: fault_latch
  c_health :: health
  c_latest :: "sample option"
  c_last_delivery_at :: time_point
  c_last_record_at :: time_point
  c_generation :: u64
  c_delivered_generation :: u64
  c_receive_times :: "time_point list"
  c_delivery_times :: "time_point list"
  c_consecutive_malformed :: u64
  c_curl_once :: "bool option"

definition kMalformedStormThreshold :: u64 where
  "kMalformedStormThreshold = 10"

section \<open>Results of a session\<close>

fun fault_for :: "session_result \<Rightarrow> fault_code" where
  "fault_for SessionSensorConfiguration = FaultSensorConfiguration"
| "fault_for SessionTimeout = FaultTimeout"
| "fault_for SessionSocket = FaultSocket"
| "fault_for SessionSeriousStatus = FaultSeriousStatus"
| "fault_for SessionFtStall = FaultFtStall"
| "fault_for SessionFtBackward = FaultFtBackward"
| "fault_for SessionMalformedStorm = FaultMalformedStorm"
| "fault_for SessionCallback = FaultCallback"
| "fault_for SessionStopped = FaultNone"

fun message_for :: "session_result \<Rightarrow> string" where
  "message_for SessionSensorConfiguration = ''sensor configuration discovery failed''"
| "message_for SessionTimeout = ''no valid RDT record before timeout''"
| "message_for SessionSocket = ''UDP socket failure''"
| "message_for SessionSeriousStatus = ''serious device status''"
| "message_for SessionFtStall = ''FT sequence stalled''"
| "message_for SessionFtBackward = ''FT sequence moved backward''"
| "message_for SessionMalformedStorm = ''malformed packet storm''"
| "message_for SessionCallback = ''sample callback failed''"
| "message_for SessionStopped = []"

section \<open>Small operations\<close>

definition same_calibration :: "calibration \<Rightarrow> calibration \<Rightarrow> bool" where
  "same_calibration l r \<longleftrightarrow>
     fl_eq (counts_per_force_unit l) (counts_per_force_unit r) \<and>
     fl_eq (counts_per_torque_unit l) (counts_per_torque_unit r) \<and>
     force_unit l = force_unit r \<and> torque_unit l = torque_unit r"

definition one_second_ticks :: ticks where
  "one_second_ticks = 1000000000"

definition prune_rate_window :: "time_point list \<Rightarrow> time_point \<Rightarrow> time_point list" where
  "prune_rate_window ts now = dropWhile (\<lambda>t. now - t > one_second_ticks) ts"

fun ft_progress_name :: "ft_sequence_kind \<Rightarrow> string" where
  "ft_progress_name FtFirst = ''first''"
| "ft_progress_name FtForward = ''forward''"
| "ft_progress_name FtStall = ''stall''"
| "ft_progress_name FtBackward = ''backward''"
| "ft_progress_name FtRestart = ''restart''"

text \<open>\<open>static_cast<double>(times.size())\<close>.\<close>

definition rate_hz :: "rounding \<Rightarrow> time_point list \<Rightarrow> fl" where
  "rate_hz R ts = fl_of_int binary64 R (int (length ts))"

text \<open>The constructor.\<close>

definition impl_new :: "platform \<Rightarrow> (nat \<Rightarrow> time_point) \<Rightarrow> config \<Rightarrow> bool option \<Rightarrow> impl res" where
  "impl_new P clock cfg once_result =
     res_bind (validate_config P clock cfg) (\<lambda>_. Inr
       \<lparr>c_config = cfg, c_worker = None, c_active_worker_id = None, c_joining = False,
        c_callback = None, c_transport = udp_init, c_rdt_sequence = rdt_init,
        c_ft_sequence = ft_init, c_stopping = False, c_worker_exited = True,
        c_session_started = False, c_fault_latch = latch_init,
        c_health = health_default\<lparr>h_sensor_host := sensor_host cfg, h_rdt_port := rdt_port cfg\<rparr>,
        c_latest = None, c_last_delivery_at = 0, c_last_record_at = 0, c_generation = 0,
        c_delivered_generation = 0, c_receive_times = [], c_delivery_times = [],
        c_consecutive_malformed = 0, c_curl_once = once_result\<rparr>)"

definition impl_faulted :: "impl \<Rightarrow> bool" where
  "impl_faulted s = latch_faulted (c_fault_latch s)"

definition impl_fault_code :: "impl \<Rightarrow> fault_code" where
  "impl_fault_code s = code (c_fault_latch s)"

text \<open>\<open>lock_ok\<close>: whether locking the data mutex inside \<open>publish\<close> succeeds.\<close>

definition set_fault :: "bool \<Rightarrow> fault_code \<Rightarrow> string \<Rightarrow> impl \<Rightarrow> impl" where
  "set_fault lock_ok c m s =
     (let (published, latch, h) = publish lock_ok c m (c_fault_latch s, c_health s) in
      s\<lparr>c_fault_latch := latch, c_health := h\<rparr>)"

text \<open>\<open>lock_ok\<close> as before; \<open>stored\<close>: whether there is memory to copy the message.\<close>

definition record_callback_error :: "bool \<Rightarrow> bool \<Rightarrow> string \<Rightarrow> impl \<Rightarrow> impl" where
  "record_callback_error lock_ok stored m s =
     (if \<not> lock_ok then s
      else let h = (c_health s)\<lparr>h_callback_error_count := h_callback_error_count (c_health s) + 1\<rparr> in
        s\<lparr>c_health := (if stored then h\<lparr>h_last_error := m\<rparr> else h)\<rparr>)"

section \<open>The configuration of a session\<close>

definition discovery_options_of :: "config \<Rightarrow> discovery_options" where
  "discovery_options_of cfg =
     \<lparr>o_sensor_host = sensor_host cfg, o_http_port = http_port cfg,
      o_connect_timeout = configuration_connect_timeout cfg,
      o_total_timeout = configuration_timeout cfg\<rparr>"

text \<open>The override, or what discovery finds; \<open>None\<close> is \<open>std::terminate\<close>.\<close>

definition configuration_for_session ::
  "platform \<Rightarrow> (nat \<Rightarrow> fenv_calls) \<Rightarrow> curl \<Rightarrow> impl \<Rightarrow> sensor_configuration res option \<times> impl" where
  "configuration_for_session P calls http s =
     (case calibration_override (c_config s) of
        Some k \<Rightarrow>
          (Some (Inr \<lparr>product_name = [], calibration = k, source = Override, revision = 1\<rparr>), s)
      | None \<Rightarrow>
          let (r, once_result) =
                discover_sensor P calls http (discovery_options_of (c_config s)) (c_curl_once s) in
          (map_option fst r, s\<lparr>c_curl_once := once_result\<rparr>))"

definition apply_configuration :: "sensor_configuration \<Rightarrow> impl \<Rightarrow> impl" where
  "apply_configuration sc s =
     (let h = c_health s in
      case h_sensor_configuration h of
        Some previous \<Rightarrow>
          if same_calibration (calibration previous) (calibration sc)
          then s\<lparr>c_health := h\<lparr>h_sensor_configuration := Some (sc\<lparr>revision := revision previous\<rparr>)\<rparr>\<rparr>
          else s\<lparr>c_health := h\<lparr>
                   h_sensor_configuration := Some (sc\<lparr>revision := revision previous + 1\<rparr>),
                   h_calibration_change_count := h_calibration_change_count h + 1\<rparr>\<rparr>
      | None \<Rightarrow> s\<lparr>c_health := h\<lparr>h_sensor_configuration := Some (sc\<lparr>revision := 1\<rparr>)\<rparr>\<rparr>)"

section \<open>Handling a record\<close>

text \<open>The counters the kind of the RDT observation changes, and whether it allows delivery.\<close>

definition count_rdt :: "sequence_observation \<Rightarrow> health \<Rightarrow> health" where
  "count_rdt rdt h =
     (case kind rdt of
        Gap \<Rightarrow> h\<lparr>h_lost_count := h_lost_count h + ucast (gap rdt)\<rparr>
      | Duplicate \<Rightarrow> h\<lparr>h_duplicate_count := h_duplicate_count h + 1\<rparr>
      | OutOfOrder \<Rightarrow> h\<lparr>h_out_of_order_count := h_out_of_order_count h + 1\<rparr>
      | _ \<Rightarrow> h)"

definition count_ft :: "ft_sequence_kind \<Rightarrow> health \<Rightarrow> health" where
  "count_ft k h =
     (let h = h\<lparr>h_last_ft_progress := ft_progress_name k\<rparr> in
      case k of
        FtStall \<Rightarrow> h\<lparr>h_ft_stall_count := h_ft_stall_count h + 1\<rparr>
      | FtBackward \<Rightarrow> h\<lparr>h_ft_backward_count := h_ft_backward_count h + 1\<rparr>
      | FtRestart \<Rightarrow> h\<lparr>h_ft_restart_count := h_ft_restart_count h + 1\<rparr>
      | _ \<Rightarrow> h)"

definition count_status :: "status_severity \<Rightarrow> health \<Rightarrow> health" where
  "count_status sev h =
     (case sev of
        SeverityWarn \<Rightarrow> h\<lparr>h_warning_count := h_warning_count h + 1\<rparr>
      | SeverityError \<Rightarrow> h\<lparr>h_device_error_count := h_device_error_count h + 1\<rparr>
      | SeverityOk \<Rightarrow> h)"

text \<open>
  The local variables \<open>deliver\<close> and \<open>outcome\<close> after the tests of sequence, status and discontinuity,
  in the order of the code.
\<close>

definition delivery_decision ::
  "config \<Rightarrow> sequence_kind \<Rightarrow> ft_sequence_kind \<Rightarrow> status_severity \<Rightarrow>
     bool \<times> session_result option" where
  "delivery_decision cfg rk fk sev =
     (let deliver = (rk \<noteq> Duplicate \<and> rk \<noteq> OutOfOrder);
          (deliver, outcome) =
            (if sev = SeverityError
             then (deliver_samples_with_error_status cfg \<and> deliver, Some SessionSeriousStatus)
             else (deliver, None));
          outcome =
            (if outcome = None \<and> fk = FtStall then Some SessionFtStall
             else if outcome = None \<and> fk = FtBackward then Some SessionFtBackward
             else outcome);
          ft_discontinuity = (fk = FtStall \<or> fk = FtBackward) in
      if ft_discontinuity
      then (False,
            if recovery_policy cfg = Reconnect \<and>
               (outcome = Some SessionFtStall \<or> outcome = Some SessionFtBackward)
            then None else outcome)
      else (deliver, outcome))"

text \<open>The rate limit: the time since the last delivery is shorter than the period, in \<open>double\<close>.\<close>

definition rate_limited :: "rounding \<Rightarrow> config \<Rightarrow> time_point \<Rightarrow> time_point \<Rightarrow> bool" where
  "rate_limited R cfg last_delivery_at received_at \<longleftrightarrow>
     fl_less (Fin 0) (sample_rate_limit_hz cfg) \<and> last_delivery_at \<noteq> 0 \<and>
     fl_less (fl_of_int binary64 R (received_at - last_delivery_at))
             (fl_mul binary64 R (fl_div binary64 R (Fin 1) (sample_rate_limit_hz cfg))
                                (Fin 1000000000))"

text \<open>The part under the record and data locks: the configuration, the decision and the new state.\<close>

definition observe_record ::
  "platform \<Rightarrow> raw_record \<Rightarrow> time_point \<Rightarrow> impl \<Rightarrow>
     (sensor_configuration \<times> bool \<times> session_result option) res \<times> impl" where
  "observe_record P rec received_at s0 =
     (let R = rounding_mode P;
          (rdt, rdt_tracker) = rdt_observe (r_rdt_sequence rec) (c_rdt_sequence s0);
          (fk, ft_tracker) = ft_observe (r_ft_sequence rec) (c_ft_sequence s0);
          s = s0\<lparr>c_rdt_sequence := rdt_tracker, c_ft_sequence := ft_tracker\<rparr>;
          severity = classify_status (r_status rec) in
      case h_sensor_configuration (c_health s) of
        None \<Rightarrow> (Inl (LogicError ''sensor configuration is unavailable while streaming''), s)
      | Some configuration \<Rightarrow>
          let rtimes = prune_rate_window (c_receive_times s @ [received_at]) received_at;
              h = (c_health s)\<lparr>
                    h_state := Streaming,
                    h_received_count := h_received_count (c_health s) + 1,
                    h_receive_rate_hz := rate_hz R rtimes,
                    h_last_rdt_sequence := Some (r_rdt_sequence rec),
                    h_last_ft_sequence := Some (r_ft_sequence rec),
                    h_last_status := r_status rec\<rparr>;
              h = count_status severity (count_ft fk (count_rdt rdt h));
              (deliver, outcome) = delivery_decision (c_config s) (kind rdt) fk severity;
              limited = (deliver \<and> rate_limited R (c_config s) (c_last_delivery_at s) received_at);
              h = (if limited then h\<lparr>h_rate_limited_count := h_rate_limited_count h + 1\<rparr> else h) in
          (Inr (configuration, deliver \<and> \<not> limited, outcome),
           s\<lparr>c_receive_times := rtimes, c_last_record_at := received_at, c_health := h\<rparr>))"

definition scale :: "rounding \<Rightarrow> fl \<Rightarrow> int \<Rightarrow> fl" where
  "scale R counts n = fl_div binary64 R (fl_of_int binary64 R n) counts"

definition make_sample ::
  "platform \<Rightarrow> raw_record \<Rightarrow> time_point \<Rightarrow> sensor_configuration \<Rightarrow> sample" where
  "make_sample P rec received_at configuration =
     (let R = rounding_mode P; k = calibration configuration in
      \<lparr>s_rdt_sequence = r_rdt_sequence rec, s_ft_sequence = r_ft_sequence rec,
       s_status = r_status rec,
       s_raw_wrench = [fx rec, fy rec, fz rec, tx rec, ty rec, tz rec],
       s_force = map (scale R (counts_per_force_unit k)) [fx rec, fy rec, fz rec],
       s_torque = map (scale R (counts_per_torque_unit k)) [tx rec, ty rec, tz rec],
       s_force_unit = force_unit k, s_torque_unit = torque_unit k,
       s_configuration_revision = revision configuration,
       s_received_at = received_at\<rparr>)"

text \<open>
  One run of the callback: what it throws, whether the message of the exception can be stored, and
  what it and other threads do to the state between the two locked parts of the handler.
\<close>

record callback_run =
  cb_throws :: "exn option"
  cb_lock_ok :: bool
  cb_stored :: bool
  cb_interference :: "impl \<Rightarrow> impl"

definition callback_failure_outcome :: "config \<Rightarrow> session_result option \<Rightarrow> session_result option" where
  "callback_failure_outcome cfg outcome =
     (if outcome \<noteq> None \<or> recovery_policy cfg = Reconnect then outcome else Some SessionCallback)"

text \<open>The bookkeeping after a successful callback.\<close>

definition record_delivery :: "platform \<Rightarrow> sample \<Rightarrow> impl \<Rightarrow> impl" where
  "record_delivery P sample s =
     (let received_at = s_received_at sample;
          dtimes = prune_rate_window (c_delivery_times s @ [received_at]) received_at in
      s\<lparr>c_last_delivery_at := received_at,
        c_latest := Some sample,
        c_delivery_times := dtimes,
        c_health := (c_health s)\<lparr>
          h_delivered_count := h_delivered_count (c_health s) + 1,
          h_delivery_rate_hz := rate_hz (rounding_mode P) dtimes\<rparr>,
        c_delivered_generation := c_generation s\<rparr>)"

text \<open>
  The whole handler. Besides the result and the state it returns the sample the callback was called
  with, if it was: an empty callback is not called, but the sample counts as delivered.
\<close>

definition handle_record ::
  "platform \<Rightarrow> callback_run \<Rightarrow> raw_record \<Rightarrow> time_point \<Rightarrow> impl \<Rightarrow>
     session_result option res \<times> impl \<times> sample option" where
  "handle_record P cb rec received_at s0 =
     (case observe_record P rec received_at s0 of
        (Inl e, s) \<Rightarrow> (Inl e, s, None)
      | (Inr (configuration, deliver, outcome), s) \<Rightarrow>
          if \<not> deliver then (Inr outcome, s, None)
          else let sample = make_sample P rec received_at configuration in
            if \<not> list_all is_finite (s_force sample) \<or> \<not> list_all is_finite (s_torque sample)
            then (Inr (Some SessionSensorConfiguration), s, None)
            else if c_callback s = None
            then (Inr outcome, record_delivery P sample (cb_interference cb s), None)
            else let s = cb_interference cb s in
              case cb_throws cb of
                Some e \<Rightarrow>
                  (Inr (callback_failure_outcome (c_config s0) outcome),
                   record_callback_error (cb_lock_ok cb) (cb_stored cb)
                     (if is_std_exception e then what e else ''sample callback failed'') s,
                   Some sample)
              | None \<Rightarrow> (Inr outcome, record_delivery P sample s, Some sample))"

section \<open>Commands and snapshots\<close>

text \<open>
  The operating system the transport runs on: the texts of POSIX errors, or Windows. The two
  implementations share their state.
\<close>

datatype os = Posix os_text | Windows

fun transport_send :: "os \<Rightarrow> send_outcome \<Rightarrow> udp \<Rightarrow> unit res" where
  "transport_send (Posix x) r t = posix_send x r t"
| "transport_send Windows r t = win_send r t"

fun transport_connect :: "os \<Rightarrow> resolution \<Rightarrow> udp \<Rightarrow> unit res \<times> udp" where
  "transport_connect (Posix x) r t = posix_connect x r t"
| "transport_connect Windows r t = win_connect r t"

fun transport_shutdown :: "os \<Rightarrow> udp \<Rightarrow> udp" where
  "transport_shutdown (Posix x) t = posix_shutdown t"
| "transport_shutdown Windows t = win_shutdown t"

fun transport_close :: "os \<Rightarrow> udp \<Rightarrow> udp" where
  "transport_close (Posix x) t = posix_close t"
| "transport_close Windows t = win_close t"

text \<open>\<open>bias\<close>, with the answers to the two sends; the datagrams handed to the system come with it.\<close>

definition bias ::
  "os \<Rightarrow> send_outcome \<Rightarrow> send_outcome \<Rightarrow> impl \<Rightarrow> unit res \<times> impl \<times> u8 list list" where
  "bias os r1 r2 s =
     (if c_stopping s \<or> \<not> c_session_started s \<or> impl_faulted s \<or> h_state (c_health s) \<noteq> Streaming
      then (Inl (NotConnectedError ''client is not streaming''), s, [])
      else case transport_send os r1 (c_transport s) of
        Inl e \<Rightarrow> (Inl e, s, [encode_request SetSoftwareBias 0])
      | Inr _ \<Rightarrow>
          (case transport_send os r2 (c_transport s) of
             Inl e \<Rightarrow> (Inl e, s, [encode_request SetSoftwareBias 0, encode_request StartRealtime 0])
           | Inr _ \<Rightarrow>
               (Inr (), s\<lparr>c_rdt_sequence := rdt_reset (c_rdt_sequence s)\<rparr>,
                [encode_request SetSoftwareBias 0, encode_request StartRealtime 0])))"

definition impl_health :: "platform \<Rightarrow> time_point \<Rightarrow> impl \<Rightarrow> health \<times> impl" where
  "impl_health P now s0 =
     (let R = rounding_mode P;
          s = s0\<lparr>c_receive_times := prune_rate_window (c_receive_times s0) now,
                 c_delivery_times := prune_rate_window (c_delivery_times s0) now\<rparr>;
          snapshot = (c_health s)\<lparr>h_fault_code := impl_fault_code s\<rparr>;
          snapshot = (if h_fault_code snapshot \<noteq> FaultNone then snapshot\<lparr>h_state := Faulted\<rparr>
                      else snapshot);
          snapshot = snapshot\<lparr>h_receive_rate_hz := rate_hz R (c_receive_times s),
                              h_delivery_rate_hz := rate_hz R (c_delivery_times s)\<rparr> in
      (if c_last_record_at s \<noteq> 0
       then snapshot\<lparr>h_last_record_age := Some (seconds_of_ticks R (now - c_last_record_at s))\<rparr>
       else snapshot, s))"

definition latest_sample :: "impl \<Rightarrow> sample option" where
  "latest_sample s = c_latest s"

text \<open>Closing a session: the answer to the stop request does not matter.\<close>

definition close_session :: "os \<Rightarrow> impl \<Rightarrow> impl \<times> u8 list list" where
  "close_session os s =
     (s\<lparr>c_session_started := False, c_transport := transport_close os (c_transport s)\<rparr>,
      if c_session_started s then [encode_request StopStreaming 0] else [])"

definition finish_session :: "os \<Rightarrow> bool \<Rightarrow> impl \<Rightarrow> impl" where
  "finish_session os lock_ok s0 =
     (let s = (fst (close_session os s0))\<lparr>c_worker_exited := True\<rparr> in
      if \<not> impl_faulted s \<and> lock_ok then s\<lparr>c_health := (c_health s)\<lparr>h_state := Stopped\<rparr>\<rparr> else s)"

end
