(* ===== verification/Client_Records.thy ===== *)
theory Client_Records
  imports Client_Impl
begin

text \<open>
  What the operations of \<open>Client::Impl\<close> on one record, one configuration and one command guarantee:
  the outcome of the record handler on every branch, which records reach the user's callback, how
  records are counted, the spacing of deliveries under a rate limit over any run, the consistency of
  health snapshots, the meaning of configuration revisions and the effect of a bias command.
\<close>

section \<open>Scaling\<close>

lemma scale_finite:
  assumes "require_safe_count nm counts = Inr ()" and "int32 n"
  shows "is_finite (scale R counts n)"
  using safe_count_divides [OF assms(1)] assms(2) by (simp add: scale_def int32_def)

lemma make_sample_finite:
  assumes "validate_calibration (calibration sc) = Inr ()" and "raw_record_ok rec"
  shows "list_all is_finite (s_force (make_sample P rec tm sc)) \<and>
         list_all is_finite (s_torque (make_sample P rec tm sc))"
  using assms unfolding validate_calibration_Inr_iff raw_record_ok_def
  by (auto simp: make_sample_def Let_def intro: scale_finite)

section \<open>The handler in terms of its observations\<close>

text \<open>What the trackers and the status say about a record in a state.\<close>

abbreviation rdt_kind_of :: "raw_record \<Rightarrow> impl \<Rightarrow> sequence_kind" where
  "rdt_kind_of rec s \<equiv> kind (fst (rdt_observe (r_rdt_sequence rec) (c_rdt_sequence s)))"

abbreviation ft_kind_of :: "raw_record \<Rightarrow> impl \<Rightarrow> ft_sequence_kind" where
  "ft_kind_of rec s \<equiv> fst (ft_observe (r_ft_sequence rec) (c_ft_sequence s))"

abbreviation severity_of :: "raw_record \<Rightarrow> status_severity" where
  "severity_of rec \<equiv> classify_status (r_status rec)"

text \<open>A record is suppressed when it repeats or goes back, or reports an error that is not wanted.\<close>

definition suppressed :: "raw_record \<Rightarrow> impl \<Rightarrow> bool" where
  "suppressed rec s \<longleftrightarrow>
     rdt_kind_of rec s \<in> {Duplicate, OutOfOrder} \<or> ft_kind_of rec s \<in> {FtStall, FtBackward} \<or>
     severity_of rec = SeverityError \<and> \<not> deliver_samples_with_error_status (c_config s)"

definition limited :: "platform \<Rightarrow> time_point \<Rightarrow> impl \<Rightarrow> bool" where
  "limited P tm s \<longleftrightarrow> rate_limited (rounding_mode P) (c_config s) (c_last_delivery_at s) tm"

text \<open>The outcome of a record apart from the callback.\<close>

definition record_outcome :: "raw_record \<Rightarrow> impl \<Rightarrow> session_result option" where
  "record_outcome rec s =
     (if severity_of rec = SeverityError then Some SessionSeriousStatus
      else if recovery_policy (c_config s) = Reconnect then None
      else if ft_kind_of rec s = FtStall then Some SessionFtStall
      else if ft_kind_of rec s = FtBackward then Some SessionFtBackward
      else None)"

lemma delivery_decision_eq:
  "delivery_decision (c_config s) (rdt_kind_of rec s) (ft_kind_of rec s) (severity_of rec) =
     (\<not> suppressed rec s, record_outcome rec s)"
  by (cases "recovery_policy (c_config s)")
    (auto simp: delivery_decision_def suppressed_def record_outcome_def Let_def)

lemma count_simps [health_simps]:
  "h_state (count_rdt ob h) = h_state h" "h_state (count_ft k h) = h_state h" "h_state (count_status v h) = h_state h"
  "h_sensor_configuration (count_rdt ob h) = h_sensor_configuration h"
  "h_sensor_configuration (count_ft k h) = h_sensor_configuration h"
  "h_sensor_configuration (count_status v h) = h_sensor_configuration h"
  "h_received_count (count_rdt ob h) = h_received_count h" "h_received_count (count_ft k h) = h_received_count h"
  "h_received_count (count_status v h) = h_received_count h"
  "h_delivered_count (count_rdt ob h) = h_delivered_count h" "h_delivered_count (count_ft k h) = h_delivered_count h"
  "h_delivered_count (count_status v h) = h_delivered_count h"
  "h_rate_limited_count (count_rdt ob h) = h_rate_limited_count h"
  "h_rate_limited_count (count_ft k h) = h_rate_limited_count h"
  "h_rate_limited_count (count_status v h) = h_rate_limited_count h"
  "h_callback_error_count (count_rdt ob h) = h_callback_error_count h"
  "h_callback_error_count (count_ft k h) = h_callback_error_count h"
  "h_callback_error_count (count_status v h) = h_callback_error_count h"
  "h_lost_count (count_ft k h) = h_lost_count h" "h_lost_count (count_status v h) = h_lost_count h"
  "h_malformed_count (count_rdt ob h) = h_malformed_count h"
  "h_malformed_count (count_ft k h) = h_malformed_count h"
  "h_malformed_count (count_status v h) = h_malformed_count h"
  "h_fault_code (count_rdt ob h) = h_fault_code h" "h_fault_code (count_ft k h) = h_fault_code h"
  "h_fault_code (count_status v h) = h_fault_code h"
  by (auto simp: count_rdt_def count_ft_def count_status_def Let_def
      split: sequence_kind.split ft_sequence_kind.split status_severity.split)

lemma observe_record_result:
  assumes "h_sensor_configuration (c_health s) = Some sc"
  shows "fst (observe_record P rec tm s) =
     Inr (sc, \<not> suppressed rec s \<and> \<not> limited P tm s, record_outcome rec s)"
  using assms delivery_decision_eq [of s rec]
  by (auto simp: observe_record_def Let_def limited_def split: prod.splits)


lemma observe_record_frame:
  "c_config (snd (observe_record P rec tm s)) = c_config s"
  "c_callback (snd (observe_record P rec tm s)) = c_callback s"
  "c_last_delivery_at (snd (observe_record P rec tm s)) = c_last_delivery_at s"
  "c_delivery_times (snd (observe_record P rec tm s)) = c_delivery_times s"
  "c_latest (snd (observe_record P rec tm s)) = c_latest s"
  "c_generation (snd (observe_record P rec tm s)) = c_generation s"
  "c_fault_latch (snd (observe_record P rec tm s)) = c_fault_latch s"
  "c_rdt_sequence (snd (observe_record P rec tm s)) = snd (rdt_observe (r_rdt_sequence rec) (c_rdt_sequence s))"
  "c_ft_sequence (snd (observe_record P rec tm s)) = snd (ft_observe (r_ft_sequence rec) (c_ft_sequence s))"
  "h_sensor_configuration (c_health (snd (observe_record P rec tm s))) = h_sensor_configuration (c_health s)"
  by (auto simp: observe_record_def Let_def health_simps split: prod.splits option.splits)

lemma observe_record_counts:
  assumes "h_sensor_configuration (c_health s) = Some sc"
  shows "h_received_count (c_health (snd (observe_record P rec tm s))) = h_received_count (c_health s) + 1 \<and>
    h_delivered_count (c_health (snd (observe_record P rec tm s))) = h_delivered_count (c_health s) \<and>
    h_callback_error_count (c_health (snd (observe_record P rec tm s))) = h_callback_error_count (c_health s) \<and>
    h_rate_limited_count (c_health (snd (observe_record P rec tm s))) =
      h_rate_limited_count (c_health s) + (if \<not> suppressed rec s \<and> limited P tm s then 1 else 0) \<and>
    h_lost_count (c_health (snd (observe_record P rec tm s))) =
      h_lost_count (c_health s) + ucast (gap (fst (rdt_observe (r_rdt_sequence rec) (c_rdt_sequence s)))) \<and>
    h_state (c_health (snd (observe_record P rec tm s))) = Streaming"
proof -
  have g: "gap (fst (rdt_observe (r_rdt_sequence rec) (c_rdt_sequence s))) = 0"
    if "rdt_kind_of rec s \<noteq> Gap"
    using that by (auto simp: rdt_observe_def Let_def split: if_splits)
  show ?thesis
    using assms delivery_decision_eq [of s rec] g
    by (auto simp: observe_record_def Let_def limited_def health_simps split: prod.splits)
      (auto simp: count_rdt_def split: sequence_kind.splits)
qed

lemma handle_record_cases:
  assumes "h_sensor_configuration (c_health s) = Some sc"
    and "validate_calibration (calibration sc) = Inr ()" and "raw_record_ok rec"
  shows "handle_record P cb rec tm s =
    (let s1 = snd (observe_record P rec tm s); smp = make_sample P rec tm sc; out = record_outcome rec s in
     if suppressed rec s \<or> limited P tm s then (Inr out, s1, None)
     else if c_callback s = None then (Inr out, record_delivery P smp (cb_interference cb s1), None)
     else case cb_throws cb of
       Some e \<Rightarrow>
         (Inr (callback_failure_outcome (c_config s) out),
          record_callback_error (cb_lock_ok cb) (cb_stored cb)
            (if is_std_exception e then what e else ''sample callback failed'') (cb_interference cb s1),
          Some smp)
     | None \<Rightarrow> (Inr out, record_delivery P smp (cb_interference cb s1), Some smp))"
proof -
  obtain s1 where o: "observe_record P rec tm s =
      (Inr (sc, \<not> suppressed rec s \<and> \<not> limited P tm s, record_outcome rec s), s1)"
    using observe_record_result [OF assms(1), of P rec tm] by (metis prod.collapse)
  have "c_callback s1 = c_callback s" using observe_record_frame(2) [of P rec tm s] o by simp
  then show ?thesis
    using make_sample_finite [OF assms(2,3), of P tm] by (simp add: handle_record_def o Let_def)
qed

section \<open>An example state\<close>

definition example_impl :: impl where
  "example_impl =
     \<lparr>c_config = config_default\<lparr>sample_rate_limit_hz := Fin 64\<rparr>, c_worker = Some 1,
      c_active_worker_id = Some 1, c_joining = False, c_callback = Some 0,
      c_transport = install_socket 3 udp_init, c_rdt_sequence = rdt_init, c_ft_sequence = ft_init,
      c_stopping = False, c_worker_exited = False, c_session_started = True,
      c_fault_latch = latch_init,
      c_health = health_default\<lparr>h_state := Streaming, h_sensor_configuration := Some example_configuration\<rparr>,
      c_latest = None, c_last_delivery_at = 0, c_last_record_at = 0, c_generation = 1,
      c_delivered_generation = 0, c_receive_times = [], c_delivery_times = [],
      c_consecutive_malformed = 0, c_curl_once = None\<rparr>"

definition example_record :: raw_record where
  "example_record = \<lparr>r_rdt_sequence = 7, r_ft_sequence = 9, r_status = 0,
     fx = 1000000, fy = - 1000000, fz = 0, tx = 1000, ty = 0, tz = - (2 ^ 31)\<rparr>"

definition example_callback :: callback_run where
  "example_callback = \<lparr>cb_throws = None, cb_lock_ok = True, cb_stored = True, cb_interference = id\<rparr>"

lemma example_impl_ok:
  "h_sensor_configuration (c_health example_impl) = Some example_configuration"
  "raw_record_ok example_record" "\<not> suppressed example_record example_impl"
  "\<not> limited P tm example_impl" "c_callback example_impl \<noteq> None"
  by (simp_all add: example_impl_def example_record_def raw_record_ok_def int32_def suppressed_def
      rdt_observe_def ft_observe_def rdt_init_def ft_init_def classify_status_def limited_def rate_limited_def)

lemma handle_example:
  "\<exists>s'. handle_record P example_callback example_record tm example_impl =
     (Inr None, s', Some (make_sample P example_record tm example_configuration))"
proof -
  have "record_outcome example_record example_impl = None"
    by (simp add: record_outcome_def example_impl_def config_default_def example_record_def classify_status_def)
  moreover have "cb_throws example_callback = None" by (simp add: example_callback_def)
  ultimately show ?thesis
    using example_impl_ok(3-5)
    by (simp add: handle_record_cases [OF example_impl_ok(1) example_configuration_valid example_impl_ok(2)] Let_def)
qed

section \<open>Properties\<close>

text \<open>
  C1. What a record leads to, on every branch. With a validated configuration and 32-bit counts the
  handler never fails and never ends the session for the configuration. A serious status ends the
  session; a stalled or backward F/T counter ends it under \<open>FailStop\<close> only; so does a callback that
  throws, unless the status already ends it; and nothing else does.
\<close>

theorem handle_record_outcome:
  assumes "h_sensor_configuration (c_health s) = Some sc"
    and "validate_calibration (calibration sc) = Inr ()" and "raw_record_ok rec"
  shows "fst (handle_record P cb rec tm s) = Inr
    (if severity_of rec = SeverityError then Some SessionSeriousStatus
     else if recovery_policy (c_config s) = Reconnect then None
     else if ft_kind_of rec s = FtStall then Some SessionFtStall
     else if ft_kind_of rec s = FtBackward then Some SessionFtBackward
     else if snd (snd (handle_record P cb rec tm s)) \<noteq> None \<and> cb_throws cb \<noteq> None
     then Some SessionCallback
     else None)"
  unfolding handle_record_cases [OF assms]
  by (cases "recovery_policy (c_config s)")
    (auto simp: Let_def record_outcome_def callback_failure_outcome_def suppressed_def split: option.splits)

theorem handle_record_outcome_witness:
  "fst (handle_record linux_x86_64 example_callback example_record 5 example_impl) = Inr None"
  using handle_record_outcome [OF example_impl_ok(1) example_configuration_valid example_impl_ok(2),
      of linux_x86_64 example_callback 5]
  by (simp add: example_impl_def config_default_def example_record_def classify_status_def)

text \<open>
  C2. Nothing stale reaches the user. If the callback is called, the record is first in its session
  or ahead of every record accepted before it, the F/T counter advanced or restarted, the status is
  not serious unless the configuration asks for such samples, the rate limit allows it, and the
  sample carries the record's own numbers, the revision and the units of the configuration, and six
  finite values.
\<close>

theorem callback_sees_fresh_samples:
  assumes "handle_record P cb rec tm s = (r, s', Some smp)"
  shows "rdt_kind_of rec s \<in> {First, Contiguous, Gap} \<and> ft_kind_of rec s \<in> {FtFirst, FtForward, FtRestart} \<and>
    (severity_of rec \<noteq> SeverityError \<or> deliver_samples_with_error_status (c_config s)) \<and>
    \<not> rate_limited (rounding_mode P) (c_config s) (c_last_delivery_at s) tm \<and>
    (\<exists>sc. h_sensor_configuration (c_health s) = Some sc \<and> smp = make_sample P rec tm sc) \<and>
    list_all is_finite (s_force smp) \<and> list_all is_finite (s_torque smp) \<and> c_callback s \<noteq> None"
proof -
  obtain sc where sc: "h_sensor_configuration (c_health s) = Some sc"
    using assms by (cases "h_sensor_configuration (c_health s)")
      (auto simp: handle_record_def observe_record_def Let_def split: prod.splits)
  obtain s1 where o: "observe_record P rec tm s =
      (Inr (sc, \<not> suppressed rec s \<and> \<not> limited P tm s, record_outcome rec s), s1)"
    using observe_record_result [OF sc, of P rec tm] by (metis prod.collapse)
  have cb: "c_callback s1 = c_callback s" using observe_record_frame(2) [of P rec tm s] o by simp
  have k: "rdt_kind_of rec s \<in> {First, Contiguous, Gap}" "ft_kind_of rec s \<in> {FtFirst, FtForward, FtRestart}"
    if "\<not> suppressed rec s"
    using that by (cases "rdt_kind_of rec s"; cases "ft_kind_of rec s"; auto simp: suppressed_def)+
  show ?thesis
    using assms sc cb k
    by (auto simp: handle_record_def o Let_def suppressed_def limited_def split: if_splits option.splits)
qed

theorem callback_sees_fresh_samples_witness:
  "\<exists>r s' smp. handle_record linux_x86_64 example_callback example_record 5 example_impl = (r, s', Some smp) \<and>
     list_all is_finite (s_force smp) \<and> smp = make_sample linux_x86_64 example_record 5 example_configuration"
proof -
  obtain s' where h: "handle_record linux_x86_64 example_callback example_record 5 example_impl =
     (Inr None, s', Some (make_sample linux_x86_64 example_record 5 example_configuration))"
    using handle_example by blast
  show ?thesis using callback_sees_fresh_samples [OF h] h by blast
qed

text \<open>
  C8. Every record is counted exactly once. When nothing else changes the state, each record adds one
  to the received count and exactly one of these happens: it is suppressed, or it adds one to the
  rate-limited count, the delivered count or the callback-error count. The lost count grows by
  exactly the gap the tracker reports.
\<close>

theorem records_accounted_once:
  assumes "h_sensor_configuration (c_health s) = Some sc"
    and "validate_calibration (calibration sc) = Inr ()" and "raw_record_ok rec"
    and "cb_interference cb = id" and "cb_lock_ok cb"
  shows "let h = c_health s; h' = c_health (fst (snd (handle_record P cb rec tm s))) in
    h_received_count h' = h_received_count h + 1 \<and>
    h_lost_count h' = h_lost_count h + ucast (gap (fst (rdt_observe (r_rdt_sequence rec) (c_rdt_sequence s)))) \<and>
    (h_rate_limited_count h' - h_rate_limited_count h) + (h_delivered_count h' - h_delivered_count h) +
      (h_callback_error_count h' - h_callback_error_count h) = (if suppressed rec s then 0 else 1)"
  unfolding handle_record_cases [OF assms(1-3)]
  using observe_record_counts [OF assms(1), of P rec tm] assms(4,5)
  by (auto simp: Let_def record_delivery_def record_callback_error_def split: option.split)

theorem records_accounted_once_witness:
  "h_received_count (c_health (fst (snd
     (handle_record linux_x86_64 example_callback example_record 5 example_impl)))) = 1"
  using records_accounted_once [OF example_impl_ok(1) example_configuration_valid example_impl_ok(2),
      of example_callback linux_x86_64 5]
  by (simp add: example_callback_def Let_def) (simp add: example_impl_def health_default_def)

section \<open>Runs of records\<close>

text \<open>The samples handed to the callback while a list of records is handled.\<close>

fun handle_all ::
  "platform \<Rightarrow> (callback_run \<times> raw_record \<times> time_point) list \<Rightarrow> impl \<Rightarrow> sample list \<times> impl" where
  "handle_all P [] s = ([], s)"
| "handle_all P ((cb, rec, tm) # rs) s =
     (case handle_record P cb rec tm s of
        (_, s', None) \<Rightarrow> handle_all P rs s'
      | (_, s', Some smp) \<Rightarrow> let (smps, s'') = handle_all P rs s' in (smp # smps, s''))"

definition quiet_callback :: "callback_run \<Rightarrow> bool" where
  "quiet_callback cb \<longleftrightarrow> cb_throws cb = None \<and> cb_interference cb = id"

definition delivery_period :: "platform \<Rightarrow> config \<Rightarrow> fl" where
  "delivery_period P cfg =
     fl_mul binary64 (rounding_mode P) (fl_div binary64 (rounding_mode P) (Fin 1) (sample_rate_limit_hz cfg))
       (Fin 1000000000)"

lemma handle_record_step:
  assumes "handle_record P cb rec tm s = (r, s', out)" and "quiet_callback cb" and "c_callback s \<noteq> None"
  shows "c_config s' = c_config s \<and> c_callback s' = c_callback s \<and>
    c_last_delivery_at s' = (if out = None then c_last_delivery_at s else tm) \<and>
    (\<forall>smp. out = Some smp \<longrightarrow> s_received_at smp = tm \<and>
       \<not> rate_limited (rounding_mode P) (c_config s) (c_last_delivery_at s) tm)"
proof -
  obtain q s1 where o: "observe_record P rec tm s = (q, s1)" by fastforce
  have f: "c_config s1 = c_config s" "c_callback s1 = c_callback s" "c_last_delivery_at s1 = c_last_delivery_at s"
    using observe_record_frame [of P rec tm s] o by simp_all
  have d: "c_config (record_delivery P smp s1) = c_config s" "c_callback (record_delivery P smp s1) = c_callback s"
    "c_last_delivery_at (record_delivery P smp s1) = s_received_at smp" for smp
    by (simp_all add: record_delivery_def Let_def f)
  have m: "s_received_at (make_sample P rec tm sc) = tm" for sc by (simp add: make_sample_def Let_def)
  have l: "\<not> rate_limited (rounding_mode P) (c_config s) (c_last_delivery_at s) tm" if "q = Inr (sc, True, oc)" for sc oc
  proof (cases "h_sensor_configuration (c_health s)")
    case None
    then show ?thesis using o that by (auto simp: observe_record_def Let_def split: prod.splits)
  next
    case (Some sc')
    then show ?thesis using observe_record_result [OF Some, of P rec tm] o that by (auto simp: limited_def)
  qed
  show ?thesis
    using assms f d m l
    by (auto simp: handle_record_def o Let_def quiet_callback_def split: sum.splits if_splits)
qed

lemma not_rate_limited_gap:
  assumes "\<not> rate_limited (rounding_mode P) cfg a b" and "a \<noteq> 0" and "fl_less (Fin 0) (sample_rate_limit_hz cfg)"
    and "delivery_period P cfg = Fin p" and "a \<le> b"
  shows "2 ^ 53 \<le> b - a \<or> p \<le> of_int (b - a)"
proof (cases "b - a < 2 ^ 53")
  case True
  then have "fl_of_int binary64 (rounding_mode P) (b - a) = Fin (of_int (b - a))"
    using fl_round_int [of binary64 "b - a" "rounding_mode P"] assms(5) by (simp add: fl_of_int_def)
  then show ?thesis using assms by (simp add: rate_limited_def delivery_period_def not_less)
qed simp

lemma handle_all_spacing:
  assumes "fl_less (Fin 0) (sample_rate_limit_hz (c_config s))" and "c_callback s \<noteq> None"
    and "delivery_period P (c_config s) = Fin p"
    and "\<forall>(cb, rec, tm) \<in> set rs. quiet_callback cb \<and> 0 < tm"
    and "sorted (c_last_delivery_at s # map (\<lambda>(cb, rec, tm). tm) rs)" and "0 \<le> c_last_delivery_at s"
  shows "successively (\<lambda>a b. a \<noteq> 0 \<longrightarrow> 2 ^ 53 \<le> b - a \<or> p \<le> of_int (b - a))
           (c_last_delivery_at s # map s_received_at (fst (handle_all P rs s)))"
  using assms
proof (induction P rs s rule: handle_all.induct)
  case (2 P cb rec tm rs s)
  obtain r s' out where h: "handle_record P cb rec tm s = (r, s', out)" by (metis prod_cases3)
  have q: "quiet_callback cb" "0 < tm" using "2.prems"(4) by auto
  note st = handle_record_step [OF h q(1) "2.prems"(2)]
  show ?case
  proof (cases out)
    case None
    then have "successively (\<lambda>a b. a \<noteq> 0 \<longrightarrow> 2 ^ 53 \<le> b - a \<or> p \<le> of_int (b - a))
        (c_last_delivery_at s' # map s_received_at (fst (handle_all P rs s')))"
      using st "2.prems" by (intro "2.IH"(1) [OF h [symmetric] _ None]) auto
    then show ?thesis using None h st by simp
  next
    case (Some smp)
    have "successively (\<lambda>a b. a \<noteq> 0 \<longrightarrow> 2 ^ 53 \<le> b - a \<or> p \<le> of_int (b - a))
        (c_last_delivery_at s' # map s_received_at (fst (handle_all P rs s')))"
      using st Some q "2.prems" by (intro "2.IH"(2) [OF h [symmetric] _ Some]) auto
    moreover have "c_last_delivery_at s \<noteq> 0 \<longrightarrow> 2 ^ 53 \<le> tm - c_last_delivery_at s \<or> p \<le> of_int (tm - c_last_delivery_at s)"
      using st Some not_rate_limited_gap [of P "c_config s" "c_last_delivery_at s" tm p] "2.prems" by auto
    ultimately show ?thesis using Some h st by (simp add: split_beta)
  qed
qed simp


section \<open>Rate windows, revisions and biasing\<close>

lemma dropWhile_sorted_filter:
  fixes ts :: "int list"
  assumes "sorted ts"
  shows "dropWhile (\<lambda>t. now - t > d) ts = filter (\<lambda>t. now - t \<le> d) ts"
  using assms
proof (induction ts)
  case (Cons t ts)
  show ?case
  proof (cases "now - t > d")
    case False
    then have "\<forall>u \<in> set ts. now - u \<le> d" using Cons.prems by auto
    then show ?thesis using False by (simp add: filter_id_conv)
  qed (use Cons in simp)
qed simp

lemma prune_sorted:
  "sorted ts \<Longrightarrow> prune_rate_window ts now = filter (\<lambda>t. now - t \<le> one_second_ticks) ts"
  unfolding prune_rate_window_def by (rule dropWhile_sorted_filter)

text \<open>The number of changes in a sequence of calibrations, as \<open>same_calibration\<close> sees them.\<close>

fun calibration_changes :: "calibration \<Rightarrow> sensor_configuration list \<Rightarrow> nat" where
  "calibration_changes k [] = 0"
| "calibration_changes k (sc # scs) =
     (if same_calibration k (calibration sc) then 0 else 1) + calibration_changes (calibration sc) scs"

lemma apply_configurations_from:
  assumes "h_sensor_configuration (c_health s) = Some sc"
  shows "\<exists>sc'. h_sensor_configuration (c_health (fold apply_configuration scs s)) = Some sc' \<and>
    revision sc' = revision sc + of_nat (calibration_changes (calibration sc) scs) \<and>
    calibration sc' = (if scs = [] then calibration sc else calibration (last scs)) \<and>
    h_calibration_change_count (c_health (fold apply_configuration scs s)) =
      h_calibration_change_count (c_health s) + of_nat (calibration_changes (calibration sc) scs)"
  using assms
proof (induction scs arbitrary: s sc)
  case (Cons x xs)
  let ?s = "apply_configuration x s"
  obtain sx where sx: "h_sensor_configuration (c_health ?s) = Some sx" "calibration sx = calibration x"
    "revision sx = revision sc + (if same_calibration (calibration sc) (calibration x) then 0 else 1)"
    "h_calibration_change_count (c_health ?s) = h_calibration_change_count (c_health s) +
      (if same_calibration (calibration sc) (calibration x) then 0 else 1)"
    using Cons.prems
    by (cases "same_calibration (calibration sc) (calibration x)") (auto simp: apply_configuration_def Let_def)
  show ?case using Cons.IH [OF sx(1)] sx by (auto simp: algebra_simps)
qed simp

section \<open>Properties of runs\<close>

text \<open>
  C23. The rate limit holds over any run. While callbacks succeed and the clock does not go back,
  between two consecutive deliveries lie at least as many nanoseconds as the period computed from the
  limit, over any number of records and sessions, and the same holds from the last delivery before
  the run. (Intervals of \<open>2 ^ 53\<close> nanoseconds, over a hundred days, are not exact in \<open>double\<close>; they
  are longer than any period that matters.)
\<close>

theorem rate_limit_respected:
  assumes "fl_less (Fin 0) (sample_rate_limit_hz (c_config s))" and "c_callback s \<noteq> None"
    and "delivery_period P (c_config s) = Fin p"
    and "\<forall>(cb, rec, tm) \<in> set rs. quiet_callback cb \<and> 0 < tm"
    and "sorted (c_last_delivery_at s # map (\<lambda>(cb, rec, tm). tm) rs)" and "0 \<le> c_last_delivery_at s"
  shows "successively (\<lambda>a b. a \<noteq> 0 \<longrightarrow> 2 ^ 53 \<le> b - a \<or> p \<le> of_int (b - a))
           (c_last_delivery_at s # map s_received_at (fst (handle_all P rs s)))"
  using assms by (rule handle_all_spacing)

theorem rate_limit_respected_witness:
  "successively (\<lambda>a b. a \<noteq> 0 \<longrightarrow> 2 ^ 53 \<le> b - a \<or> (15625000 :: rat) \<le> of_int (b - a))
     (0 # map s_received_at (fst (handle_all linux_x86_64
       [(example_callback, example_record, 1000), (example_callback, example_record\<lparr>r_rdt_sequence := 8\<rparr>, 2000)]
       example_impl)))"
proof -
  have "fl_round binary64 ToNearest (1 / 64) = Fin (1 / 64)"
    using fl_round_exact [of binary64 "1 / 64" 1 "- 6" ToNearest] by (simp add: fmax_binary64)
  moreover have "fl_round binary64 ToNearest 15625000 = Fin 15625000"
    using fl_round_int [of binary64 15625000 ToNearest] by simp
  ultimately have p: "delivery_period linux_x86_64 (c_config example_impl) = Fin 15625000"
    by (simp add: delivery_period_def linux_x86_64_def example_impl_def)
  have l: "c_last_delivery_at example_impl = 0" "fl_less (Fin 0) (sample_rate_limit_hz (c_config example_impl))"
    by (simp_all add: example_impl_def)
  show ?thesis
    using rate_limit_respected [OF l(2) example_impl_ok(5) p, of
        "[(example_callback, example_record, 1000), (example_callback, example_record\<lparr>r_rdt_sequence := 8\<rparr>, 2000)]"]
    by (simp add: l(1) quiet_callback_def example_callback_def del: handle_all.simps)
qed

text \<open>
  C33. A snapshot is consistent. It shows \<open>Faulted\<close> and the latched code whenever a fault is latched,
  whatever the worker last wrote; its rates are the numbers of records received and delivered in the
  second before the call; and taking it changes nothing but the windows, which keep exactly the
  times that later snapshots can still count.
\<close>

theorem health_snapshot_consistent:
  assumes "sorted (c_receive_times s)" and "sorted (c_delivery_times s)"
    and "impl_health P now s = (h, s')" and "now \<le> later"
  shows "h_fault_code h = code (c_fault_latch s) \<and> (impl_faulted s \<longrightarrow> h_state h = Faulted) \<and>
    (\<not> impl_faulted s \<longrightarrow> h_state h = h_state (c_health s)) \<and>
    h_receive_rate_hz h = rate_hz (rounding_mode P) (filter (\<lambda>t. now - t \<le> 10 ^ 9) (c_receive_times s)) \<and>
    h_delivery_rate_hz h = rate_hz (rounding_mode P) (filter (\<lambda>t. now - t \<le> 10 ^ 9) (c_delivery_times s)) \<and>
    c_health s' = c_health s \<and> fst (impl_health P later s') = fst (impl_health P later s)"
proof -
  note prune = prune_sorted [OF assms(1)] prune_sorted [OF assms(2)]
  have twice: "prune_rate_window (prune_rate_window ts now) later = prune_rate_window ts later"
    if "sorted ts" for ts
    using prune_sorted [OF that, of now] prune_sorted [OF that, of later] that
      prune_sorted [of "filter (\<lambda>t. now - t \<le> one_second_ticks) ts" later]
    by (simp only: sorted_wrt_filter filter_filter)
      (rule filter_cong, simp, use assms(4) in linarith)
  have s': "s' = s\<lparr>c_receive_times := prune_rate_window (c_receive_times s) now,
      c_delivery_times := prune_rate_window (c_delivery_times s) now\<rparr>"
    using assms(3) by (simp add: impl_health_def Let_def)
  have "fst (impl_health P later s') = fst (impl_health P later s)"
    unfolding s' by (simp add: impl_health_def Let_def twice assms(1,2) impl_fault_code_def)
  moreover have "c_health s' = c_health s" by (simp add: s')
  moreover have "h = fst (impl_health P now s)" by (simp add: assms(3))
  ultimately show ?thesis
    by (simp add: impl_health_def Let_def impl_faulted_def latch_faulted_def impl_fault_code_def prune
        one_second_ticks_def)
qed

theorem health_snapshot_consistent_witness:
  "h_state (fst (impl_health linux_x86_64 5 (set_fault True FaultTimeout ''x'' example_impl))) = Faulted"
proof -
  let ?s = "set_fault True FaultTimeout ''x'' example_impl"
  have s: "sorted (c_receive_times ?s)" "sorted (c_delivery_times ?s)" "impl_faulted ?s"
    by (simp_all add: set_fault_def publish_def example_impl_def latch_init_def impl_faulted_def latch_faulted_def)
  obtain h s' where h: "impl_health linux_x86_64 5 ?s = (h, s')" by fastforce
  show ?thesis using health_snapshot_consistent [OF s(1,2) h order_refl] s(3) h by simp
qed

text \<open>
  Revisions count calibration changes. However many sessions apply configurations, the revision
  shown is one plus the number of times the calibration differed from the one before it, the
  calibration shown is the last one applied, and the change counter grows by the same number.
\<close>

lemma revision_counts_changes:
  assumes "h_sensor_configuration (c_health s) = None"
  shows "\<exists>sc. h_sensor_configuration (c_health (fold apply_configuration (sc0 # scs) s)) = Some sc \<and>
    revision sc = 1 + of_nat (calibration_changes (calibration sc0) scs) \<and>
    calibration sc = calibration (last (sc0 # scs)) \<and>
    h_calibration_change_count (c_health (fold apply_configuration (sc0 # scs) s)) =
      h_calibration_change_count (c_health s) + of_nat (calibration_changes (calibration sc0) scs)"
proof -
  let ?s = "apply_configuration sc0 s"
  have s: "h_sensor_configuration (c_health ?s) = Some (sc0\<lparr>revision := 1\<rparr>)"
    "h_calibration_change_count (c_health ?s) = h_calibration_change_count (c_health s)"
    using assms by (simp_all add: apply_configuration_def Let_def)
  show ?thesis using apply_configurations_from [OF s(1), of scs] s(2) by auto
qed

text \<open>
  C16. Biasing is all or nothing for the tracker. Outside a healthy streaming session nothing is sent
  and the error says so. Otherwise the two requests are sent in order, and only when both were
  accepted does the next record, whatever its number, start a new baseline without counting a loss.
  A send that is refused is reported, leaves the client as it was and is the last one tried.
\<close>

theorem bias_restarts_sequence:
  assumes "bias os r1 r2 s = (r, s', sent)"
  shows "(c_stopping s \<or> \<not> c_session_started s \<or> impl_faulted s \<or> h_state (c_health s) \<noteq> Streaming \<longrightarrow>
       r = Inl (NotConnectedError ''client is not streaming'') \<and> s' = s \<and> sent = []) \<and>
    (\<not> c_stopping s \<and> c_session_started s \<and> \<not> impl_faulted s \<and> h_state (c_health s) = Streaming \<longrightarrow>
       (is_ok r \<longleftrightarrow> is_ok (transport_send os r1 (c_transport s)) \<and> is_ok (transport_send os r2 (c_transport s))) \<and>
       (sent = [encode_request SetSoftwareBias 0] \<longleftrightarrow> \<not> is_ok (transport_send os r1 (c_transport s))) \<and>
       (sent = [encode_request SetSoftwareBias 0, encode_request StartRealtime 0] \<longleftrightarrow>
          is_ok (transport_send os r1 (c_transport s)))) \<and>
    (is_ok r \<longrightarrow> rdt_kind_of rec s' = First \<and> c_rdt_sequence s' = rdt_reset (c_rdt_sequence s) \<and>
       c_health s' = c_health s \<and> c_ft_sequence s' = c_ft_sequence s) \<and>
    (\<not> is_ok r \<longrightarrow> s' = s)"
proof -
  have "kind (fst (rdt_observe c (rdt_reset t))) = First" for c t
    by (simp add: rdt_reset_def rdt_observe_def)
  moreover obtain x y where xy: "transport_send os r1 (c_transport s) = x" "transport_send os r2 (c_transport s) = y"
    by blast
  ultimately show ?thesis
    using assms unfolding bias_def xy by (cases x; cases y) (auto split: if_split_asm)
qed

theorem bias_restarts_sequence_witness:
  "\<exists>r s' sent. bias Windows (Sent 8) (Sent 8) example_impl = (r, s', sent) \<and> length sent = 2 \<and>
     rdt_kind_of example_record s' = First"
proof -
  obtain r s' sent where b: "bias Windows (Sent 8) (Sent 8) example_impl = (r, s', sent)" by (metis prod_cases3)
  then have "is_ok r"
    by (auto simp: bias_def example_impl_def impl_faulted_def latch_faulted_def latch_init_def win_send_def
        install_socket_def requestSize_def)
  moreover have "\<not> c_stopping example_impl" "c_session_started example_impl" "\<not> impl_faulted example_impl"
    "h_state (c_health example_impl) = Streaming"
    by (simp_all add: example_impl_def impl_faulted_def latch_faulted_def latch_init_def)
  ultimately show ?thesis using b bias_restarts_sequence [OF b, of example_record] by auto
qed

end
