(* ===== verification/Client_Session.thy ===== *)
theory Client_Session
  imports Client_Records
begin

text \<open>
  The worker's loops (\<open>run\<close> and \<open>receive_session\<close> of \<open>core/src/detail/client_impl.cpp\<close>). The worker
  shares its state with the threads that call the client: the flag \<open>stopping_\<close> is read many times,
  and every read is an argument, so any timing of a stop is covered; what other threads do to the
  rest of the state between two turns of the receive loop is an argument too. The clock readings,
  the answers of the operating system and of the HTTP library, and the runs of the callback are
  arguments as well. A list of such turns describes how far the loop is observed: \<open>None\<close> says that it
  has not returned yet (or that the process was terminated). The lemmas show when a session ends and
  with which result, what a fault policy does with it, and that the reconnect delay stays between
  its bounds.
\<close>

section \<open>One session\<close>

text \<open>The answers to a wait of the transport, on either platform.\<close>

datatype transport_wait = PosixWait posix_wait | WinWait win_wait

fun transport_receive ::
  "platform \<Rightarrow> os \<Rightarrow> nat \<Rightarrow> fl \<Rightarrow> transport_wait \<Rightarrow> udp \<Rightarrow> u8 list res option" where
  "transport_receive P (Posix x) capacity timeout (PosixWait w) t =
     fst (posix_receive P x capacity timeout w t)"
| "transport_receive P Windows capacity timeout (WinWait w) t = fst (win_receive P capacity timeout w t)"
| "transport_receive P _ capacity timeout _ t = None"

text \<open>One turn of the receive loop, with the reads of \<open>stopping_\<close> in the order the code makes them.\<close>

record turn =
  t_interference :: "impl \<Rightarrow> impl"
  t_stop_loop :: bool
  t_now :: time_point
  t_stop_deadline :: bool
  t_wait :: transport_wait
  t_stop_thrown :: bool
  t_stop_received :: bool
  t_stop_empty :: bool
  t_received_at :: time_point
  t_callback :: callback_run

definition bufferSize :: nat where "bufferSize = 65536"

definition session_end :: "session_result \<Rightarrow> string \<Rightarrow> bool \<Rightarrow> session_outcome" where
  "session_end r m valid = \<lparr>result = r, message = m, received_valid_record = valid\<rparr>"

definition stopped_or :: "bool \<Rightarrow> session_result \<Rightarrow> session_result" where
  "stopped_or stop r = (if stop then SessionStopped else r)"

text \<open>\<open>++health_.timeout_count\<close> under the lock, unless a stop was requested meanwhile.\<close>

definition count_timeout :: "bool \<Rightarrow> bool \<Rightarrow> impl \<Rightarrow> session_outcome \<times> impl" where
  "count_timeout stop valid s =
     (if stop then (session_end SessionStopped [] valid, s)
      else (session_end SessionTimeout [] valid,
            s\<lparr>c_health := (c_health s)\<lparr>h_timeout_count := h_timeout_count (c_health s) + 1\<rparr>\<rparr>))"

text \<open>The handler of \<open>ProtocolError\<close>: whether the storm threshold is reached, and the counters.\<close>

definition count_malformed :: "impl \<Rightarrow> bool \<times> impl" where
  "count_malformed s =
     (let n = c_consecutive_malformed s + 1 in
      (n \<ge> kMalformedStormThreshold,
       s\<lparr>c_health := (c_health s)\<lparr>h_malformed_count := h_malformed_count (c_health s) + 1\<rparr>,
         c_consecutive_malformed := n\<rparr>))"

text \<open>
  What a turn does: it returns from the session, throws, blocks, or continues with a new deadline, a
  new value of \<open>received_valid_record\<close> and a new state.
\<close>

datatype turn_result =
    TurnReturns session_outcome
  | TurnThrows exn
  | TurnBlocks
  | TurnContinues time_point bool

text \<open>The part of a turn after the wait, from what \<open>receive\<close> returned or threw.\<close>

definition after_receive ::
  "platform \<Rightarrow> turn \<Rightarrow> time_point \<Rightarrow> bool \<Rightarrow> u8 list res \<Rightarrow> impl \<Rightarrow> turn_result \<times> impl \<times> sample option" where
  "after_receive P t deadline valid received s =
     (case received of
        Inl e \<Rightarrow>
          if is_std_exception e
          then (TurnReturns (session_end (stopped_or (t_stop_thrown t) SessionSocket) (what e) valid), s, None)
          else (TurnThrows e, s, None)
      | Inr bytes \<Rightarrow>
          if t_stop_received t then (TurnReturns (session_end SessionStopped [] valid), s, None)
          else if bytes = [] then
            (let (r, s') = count_timeout (t_stop_empty t) valid s in (TurnReturns r, s', None))
          else case decode_record (Some bytes) (length bytes) of
            Inl e \<Rightarrow>
              (let (storm, s') = count_malformed s in
               if storm then (TurnReturns (session_end SessionMalformedStorm [] valid), s', None)
               else (TurnContinues deadline valid, s', None))
          | Inr rec \<Rightarrow>
              let s1 = s\<lparr>c_consecutive_malformed := 0\<rparr> in
              case checked_deadline P (t_received_at t) (receive_timeout (c_config s)) of
                Inl e \<Rightarrow> (TurnThrows e, s1, None)
              | Inr deadline' \<Rightarrow>
                  (case handle_record P (t_callback t) rec (t_received_at t) s1 of
                     (Inl e, s2, smp) \<Rightarrow> (TurnThrows e, s2, smp)
                   | (Inr (Some r), s2, smp) \<Rightarrow> (TurnReturns (session_end r [] True), s2, smp)
                   | (Inr None, s2, smp) \<Rightarrow> (TurnContinues deadline' True, s2, smp)))"

definition receive_turn ::
  "platform \<Rightarrow> os \<Rightarrow> turn \<Rightarrow> time_point \<Rightarrow> bool \<Rightarrow> impl \<Rightarrow> turn_result \<times> impl \<times> sample option" where
  "receive_turn P os t deadline valid s0 =
     (let s = t_interference t s0 in
      if t_stop_loop t then (TurnReturns (session_end SessionStopped [] valid), s, None)
      else if t_now t \<ge> deadline then
        (let (r, s') = count_timeout (t_stop_deadline t) valid s in (TurnReturns r, s', None))
      else case transport_receive P os bufferSize
                  (seconds_of_ticks (rounding_mode P) (deadline - t_now t)) (t_wait t) (c_transport s) of
        None \<Rightarrow> (TurnBlocks, s, None)
      | Some received \<Rightarrow> after_receive P t deadline valid received s)"

lemmas receive_turn_defs = receive_turn_def after_receive_def

text \<open>The loop: the result, the state and the samples handed to the callback.\<close>

fun receive_loop ::
  "platform \<Rightarrow> os \<Rightarrow> turn list \<Rightarrow> time_point \<Rightarrow> bool \<Rightarrow> impl \<Rightarrow>
     session_outcome res option \<times> impl \<times> sample list" where
  "receive_loop P os [] deadline valid s = (None, s, [])"
| "receive_loop P os (t # ts) deadline valid s =
     (case receive_turn P os t deadline valid s of
        (TurnReturns r, s', smp) \<Rightarrow> (Some (Inr r), s', option_list smp)
      | (TurnThrows e, s', smp) \<Rightarrow> (Some (Inl e), s', option_list smp)
      | (TurnBlocks, s', smp) \<Rightarrow> (None, s', option_list smp)
      | (TurnContinues deadline' valid', s', smp) \<Rightarrow>
          (let (r, s'', smps) = receive_loop P os ts deadline' valid' s' in
           (r, s'', option_list smp @ smps)))"

section \<open>Setting a session up\<close>

text \<open>The reads of \<open>stopping_\<close> and the answers of the world, in the order of \<open>receive_session\<close>.\<close>

record session_io =
  si_stop_start :: bool
  si_fenv :: "nat \<Rightarrow> fenv_calls"
  si_http :: curl
  si_stop_discovery :: bool
  si_stop_configured :: bool
  si_resolution :: resolution
  si_stop_command :: bool
  si_send :: send_outcome
  si_stop_connect :: bool
  si_now :: time_point
  si_turns :: "turn list"

text \<open>Connecting and sending the start request, under the command lock; the handler of its exceptions.\<close>

definition open_session :: "os \<Rightarrow> session_io \<Rightarrow> impl \<Rightarrow> session_outcome option res \<times> impl" where
  "open_session os io s =
     (let failed = (\<lambda>e. if is_std_exception e
                        then Inr (Some (session_end (stopped_or (si_stop_connect io) SessionSocket) (what e) False))
                        else Inl e) in
      case transport_connect os (si_resolution io) (c_transport s) of
        (Inl e, t) \<Rightarrow> (failed e, s\<lparr>c_transport := t\<rparr>)
      | (Inr _, t) \<Rightarrow>
          let s' = s\<lparr>c_transport := t\<rparr> in
          if si_stop_command io then (Inr (Some (session_end SessionStopped [] False)), s')
          else case transport_send os (si_send io) (c_transport s') of
            Inl e \<Rightarrow> (failed e, s')
          | Inr _ \<Rightarrow> (Inr None, s'\<lparr>c_session_started := True\<rparr>))"

text \<open>A session from the check after its configuration on.\<close>

definition configured_session ::
  "platform \<Rightarrow> os \<Rightarrow> session_io \<Rightarrow> impl \<Rightarrow> session_outcome res option \<times> impl \<times> sample list" where
  "configured_session P os io s2 =
     (if si_stop_configured io then (Some (Inr (session_end SessionStopped [] False)), s2, [])
      else case open_session os io s2 of
        (Inl e, s3) \<Rightarrow> (Some (Inl e), s3, [])
      | (Inr (Some r), s3) \<Rightarrow> (Some (Inr r), s3, [])
      | (Inr None, s3) \<Rightarrow>
          let s4 = s3\<lparr>c_rdt_sequence := rdt_reset (c_rdt_sequence s3),
                      c_ft_sequence := ft_begin_session (c_ft_sequence s3)\<rparr> in
          case checked_deadline P (si_now io) (receive_timeout (c_config s4)) of
            Inl e \<Rightarrow> (Some (Inl e), s4, [])
          | Inr deadline \<Rightarrow> receive_loop P os (si_turns io) deadline False s4)"

definition receive_session ::
  "platform \<Rightarrow> os \<Rightarrow> session_io \<Rightarrow> impl \<Rightarrow> session_outcome res option \<times> impl \<times> sample list" where
  "receive_session P os io s0 =
     (let s = s0\<lparr>c_health := (c_health s0)\<lparr>h_state := Connecting\<rparr>\<rparr> in
      if si_stop_start io then (Some (Inr (session_end SessionStopped [] False)), s, [])
      else case configuration_for_session P (si_fenv io) (si_http io) s of
        (None, s1) \<Rightarrow> (None, s1, [])
      | (Some (Inl (DiscoveryError m)), s1) \<Rightarrow>
          (Some (Inr (session_end (stopped_or (si_stop_discovery io) SessionSensorConfiguration) m False)), s1, [])
      | (Some (Inl e), s1) \<Rightarrow> (Some (Inl e), s1, [])
      | (Some (Inr sc), s1) \<Rightarrow> configured_session P os io (apply_configuration sc s1))"

lemmas receive_session_defs = receive_session_def configured_session_def

section \<open>The worker\<close>

record run_turn =
  rt_stop_loop :: bool
  rt_session :: session_io
  rt_lock_ok :: bool
  rt_stop_after :: bool
  rt_now :: time_point

definition enter_backoff :: "string \<Rightarrow> impl \<Rightarrow> impl" where
  "enter_backoff m s =
     s\<lparr>c_health := (c_health s)\<lparr>h_last_error := m, h_state := Backoff,
         h_reconnect_count := h_reconnect_count (c_health s) + 1\<rparr>\<rparr>"

definition next_backoff :: "rounding \<Rightarrow> config \<Rightarrow> fl \<Rightarrow> fl" where
  "next_backoff R cfg backoff = fl_min (fl_mul binary64 R backoff (Fin 2)) (reconnect_max_delay cfg)"

text \<open>
  The loop of \<open>run\<close>: its end (normal or by an exception), the state, the samples handed to the
  callback and the delays waited between sessions. The wait ends at its deadline or when a stop is
  requested; the next read of the flag tells which.
\<close>

fun run_loop ::
  "platform \<Rightarrow> os \<Rightarrow> run_turn list \<Rightarrow> fl \<Rightarrow> impl \<Rightarrow>
     unit res option \<times> impl \<times> sample list \<times> fl list" where
  "run_loop P os [] backoff s = (None, s, [], [])"
| "run_loop P os (rt # rts) backoff s =
     (if rt_stop_loop rt \<or> impl_faulted s then (Some (Inr ()), s, [], [])
      else case receive_session P os (rt_session rt) s of
        (None, s1, smps) \<Rightarrow> (None, s1, smps, [])
      | (Some (Inl e), s1, smps) \<Rightarrow> (Some (Inl e), s1, smps, [])
      | (Some (Inr outcome), s1, smps) \<Rightarrow>
          let s2 = fst (close_session os s1);
              m = (if message outcome = [] then message_for (result outcome) else message outcome);
              cfg = c_config s2 in
          if result outcome \<noteq> SessionStopped \<and> recovery_policy cfg = FailStop
          then (Some (Inr ()), set_fault (rt_lock_ok rt) (fault_for (result outcome)) m s2, smps, [])
          else if result outcome = SessionStopped \<or> rt_stop_after rt then (Some (Inr ()), s2, smps, [])
          else
            let backoff1 = (if received_valid_record outcome then reconnect_initial_delay cfg else backoff);
                s3 = enter_backoff m s2 in
            case checked_deadline P (rt_now rt) backoff1 of
              Inl e \<Rightarrow> (Some (Inl e), s3, smps, [])
            | Inr _ \<Rightarrow>
                let (r, s4, smps', delays) =
                      run_loop P os rts (next_backoff (rounding_mode P) cfg backoff1) s3 in
                (r, s4, smps @ smps', backoff1 # delays))"

record run_io =
  ri_turns :: "run_turn list"
  ri_stop_catch :: bool
  ri_catch_lock_ok :: bool
  ri_finish_lock_ok :: bool

definition run ::
  "platform \<Rightarrow> os \<Rightarrow> run_io \<Rightarrow> impl \<Rightarrow> impl option \<times> sample list \<times> fl list" where
  "run P os io s =
     (case run_loop P os (ri_turns io) (reconnect_initial_delay (c_config s)) s of
        (None, s1, smps, delays) \<Rightarrow> (None, smps, delays)
      | (Some r, s1, smps, delays) \<Rightarrow>
          let s2 = (case r of
                      Inr _ \<Rightarrow> s1
                    | Inl e \<Rightarrow>
                        if ri_stop_catch io then s1
                        else set_fault (ri_catch_lock_ok io) FaultSocket
                               (if is_std_exception e then what e else ''unknown client failure'') s1) in
          (Some (finish_session os (ri_finish_lock_ok io) s2), smps, delays))"

end
