(* ===== verification/Client_Worker.thy ===== *)
theory Client_Worker
  imports Client_Session
begin

text \<open>
  What the worker's loops guarantee: the frame of a session against interference by other threads,
  the fault policy, the reconnect delays, the state a worker leaves behind, the storm
  threshold and the end of silent sessions.
\<close>

section \<open>What other threads may do\<close>

text \<open>
  No operation of the client changes the configuration, the latch or the sensor configuration while
  the worker runs, apart from the worker's own: an interference with this property is benign.
\<close>

definition benign :: "(impl \<Rightarrow> impl) \<Rightarrow> bool" where
  "benign f \<longleftrightarrow> (\<forall>s. c_config (f s) = c_config s \<and> c_fault_latch (f s) = c_fault_latch s \<and>
     h_sensor_configuration (c_health (f s)) = h_sensor_configuration (c_health s))"

definition benign_turn :: "turn \<Rightarrow> bool" where
  "benign_turn t \<longleftrightarrow> benign (t_interference t) \<and> benign (cb_interference (t_callback t))"

definition benign_run :: "run_turn \<Rightarrow> bool" where
  "benign_run rt \<longleftrightarrow> list_all benign_turn (si_turns (rt_session rt))"

lemma benign_id: "benign id"
  by (simp add: benign_def)

lemma client_calls_benign:
  "benign (\<lambda>s. fst (snd (bias os r1 r2 s)))" "benign (\<lambda>s. snd (impl_health P now s))"
  by (auto simp: benign_def bias_def impl_health_def Let_def split: sum.splits)

text \<open>The frame of the worker's own operations.\<close>

definition keeps :: "impl \<Rightarrow> impl \<Rightarrow> bool" where
  "keeps s s' \<longleftrightarrow> c_config s' = c_config s \<and> c_fault_latch s' = c_fault_latch s"

lemma keeps_refl [simp]: "keeps s s" by (simp add: keeps_def)

lemma keeps_trans: "keeps s s' \<Longrightarrow> keeps s' s'' \<Longrightarrow> keeps s s''" by (simp add: keeps_def)

lemma keeps_simps [simp]:
  "keeps s (s'\<lparr>c_health := h\<rparr>) = keeps s s'" "keeps s (s'\<lparr>c_transport := t\<rparr>) = keeps s s'"
  "keeps s (s'\<lparr>c_session_started := b\<rparr>) = keeps s s'" "keeps s (s'\<lparr>c_consecutive_malformed := n\<rparr>) = keeps s s'"
  "keeps s (s'\<lparr>c_curl_once := c\<rparr>) = keeps s s'" "keeps s (s'\<lparr>c_rdt_sequence := x\<rparr>) = keeps s s'"
  "keeps s (s'\<lparr>c_ft_sequence := y\<rparr>) = keeps s s'" "keeps s (s'\<lparr>c_worker_exited := z\<rparr>) = keeps s s'"
  by (simp_all add: keeps_def)

lemma benign_keeps: "benign f \<Longrightarrow> keeps s (f s)"
  by (simp add: benign_def keeps_def)

lemma handle_record_keeps:
  assumes "benign (cb_interference cb)"
  shows "keeps s (fst (snd (handle_record P cb rec tm s)))"
proof -
  obtain q s1 where o: "observe_record P rec tm s = (q, s1)" by fastforce
  have k: "keeps s s1" using observe_record_frame [of P rec tm s] o by (simp add: keeps_def)
  have d: "keeps s (record_delivery P smp s')" "keeps s (record_callback_error b1 b2 m s')" if "keeps s s'" for smp b1 b2 m s'
    using that by (simp_all add: record_delivery_def record_callback_error_def Let_def keeps_def)
  have i: "keeps s (cb_interference cb s1)" using k benign_keeps [OF assms] keeps_trans by blast
  show ?thesis
    using k d i by (auto simp: handle_record_def o Let_def split: sum.splits option.splits)
qed

lemma receive_turn_keeps:
  assumes "benign_turn t"
  shows "keeps s (fst (snd (receive_turn P os t deadline valid s)))"
proof -
  have k: "keeps s (t_interference t s)" using assms by (simp add: benign_turn_def benign_keeps)
  have c: "keeps s (snd (count_timeout b v (t_interference t s)))" "keeps s (snd (count_malformed (t_interference t s)))" for b v
    using k by (auto simp: count_timeout_def count_malformed_def Let_def)
  have h: "keeps s (fst (snd (handle_record P (t_callback t) rec tm (t_interference t s\<lparr>c_consecutive_malformed := 0\<rparr>))))" for rec tm
    using handle_record_keeps [of "t_callback t" "t_interference t s\<lparr>c_consecutive_malformed := 0\<rparr>" P rec tm] k assms keeps_trans
    by (fastforce simp: benign_turn_def keeps_def)
  show ?thesis
    using k c h by (auto simp: receive_turn_defs Let_def split: prod.splits option.splits sum.splits)
      (metis fst_conv snd_conv)+
qed


lemma receive_loop_keeps:
  assumes "list_all benign_turn ts"
  shows "keeps s (fst (snd (receive_loop P os ts deadline valid s)))"
  using assms
proof (induction ts arbitrary: deadline valid s)
  case (Cons t ts)
  obtain r s1 smp where t: "receive_turn P os t deadline valid s = (r, s1, smp)" by (metis prod_cases3)
  have k: "keeps s s1" using receive_turn_keeps [of t s P os deadline valid] Cons.prems t by simp
  show ?case
  proof (cases r)
    case (TurnContinues d v)
    then have "keeps s1 (fst (snd (receive_loop P os ts d v s1)))"
      using Cons by simp
    then show ?thesis using k t TurnContinues by (auto simp: split_beta intro: keeps_trans)
  qed (use k t in auto)
qed simp

lemma configuration_for_session_keeps: "keeps s (snd (configuration_for_session P calls http s))"
  by (auto simp: configuration_for_session_def Let_def split: option.splits prod.splits)

lemma apply_configuration_keeps: "keeps s (apply_configuration sc s)"
  by (auto simp: apply_configuration_def Let_def split: option.splits)

lemma open_session_keeps: "keeps s (snd (open_session os io s))"
  by (auto simp: open_session_def Let_def split: prod.splits sum.splits)

lemma receive_session_keeps:
  assumes "list_all benign_turn (si_turns io)"
  shows "keeps s (fst (snd (receive_session P os io s)))"
proof -
  let ?s = "s\<lparr>c_health := (c_health s)\<lparr>h_state := Connecting\<rparr>\<rparr>"
  obtain q s1 where c: "configuration_for_session P (si_fenv io) (si_http io) ?s = (q, s1)" by fastforce
  have k1: "keeps s s1" using configuration_for_session_keeps [of ?s P "si_fenv io" "si_http io"] c
    by (simp add: keeps_def)
  have k2: "keeps s (apply_configuration sc s1)" for sc
    using k1 apply_configuration_keeps keeps_trans by blast
  have k3: "keeps s (snd (open_session os io (apply_configuration sc s1)))" for sc
    using k2 open_session_keeps keeps_trans by blast
  have k4: "keeps s (fst (snd (receive_loop P os (si_turns io) d v s')))" if "keeps s s'" for d v s'
    using that receive_loop_keeps [OF assms] keeps_trans by blast
  show ?thesis
    unfolding receive_session_defs Let_def c
    using k1 k2 k3 k4
    by (auto split: option.splits sum.splits exn.splits prod.splits) (metis keeps_simps(6,7) snd_conv)+
qed

section \<open>The end of a worker\<close>

lemma transport_close_socket: "socket (transport_close os t) = None"
  by (cases os) (simp_all add: close_results)

lemma close_session_props:
  "keeps s (fst (close_session os s))" "\<not> c_session_started (fst (close_session os s))"
  "socket (c_transport (fst (close_session os s))) = None"
  "c_health (fst (close_session os s)) = c_health s"
  by (simp_all add: close_session_def transport_close_socket)

lemma finish_session_props:
  "c_worker_exited (finish_session os b s)" "\<not> c_session_started (finish_session os b s)"
  "socket (c_transport (finish_session os b s)) = None" "keeps s (finish_session os b s)"
  "impl_faulted s \<Longrightarrow> c_health (finish_session os b s) = c_health s"
  "\<not> impl_faulted s \<Longrightarrow> b \<Longrightarrow> h_state (c_health (finish_session os b s)) = Stopped"
  by (auto simp: finish_session_def Let_def close_session_def transport_close_socket keeps_def impl_faulted_def)

lemma keeps_faulted: "keeps s s' \<Longrightarrow> impl_faulted s' = impl_faulted s"
  by (simp add: keeps_def impl_faulted_def)

lemma set_fault_latches:
  assumes "\<not> impl_faulted s" and "c \<noteq> FaultNone"
  shows "impl_faulted (set_fault True c m s)" "code (c_fault_latch (set_fault True c m s)) = c"
    "h_state (c_health (set_fault True c m s)) = Faulted" "h_last_error (c_health (set_fault True c m s)) = m"
    "h_fault_code (c_health (set_fault True c m s)) = c"
  using assms by (simp_all add: set_fault_def publish_def impl_faulted_def latch_faulted_def)

lemma fault_for_none: "fault_for r = FaultNone \<longleftrightarrow> r = SessionStopped"
  by (cases r) auto

section \<open>Delays\<close>

lemma doubled_at_least:
  assumes "2 powi (- 1074) \<le> d" and "d \<le> 2 ^ 1000"
  shows "\<exists>v. fl_mul binary64 R (Fin d) (Fin 2) = Fin v \<and> d \<le> v"
proof -
  have d0: "0 < d" using assms(1) by (rule less_le_trans [rotated]) simp
  have r: "0 < d * 2" using d0 by simp
  note lb = ilog2_bounds [OF r]
  have up: "d * 2 \<le> 2 powi 1001" using assms(2) by simp
  have "ilog2 (d * 2) < 1002"
    using powi_less_cancel [of "ilog2 (d * 2)" 1002] lb(1) up by simp
  moreover have "- 1074 \<le> ilog2 (d * 2)"
    using powi_less_cancel [of "- 1074" "ilog2 (d * 2) + 1"] lb(2) assms(1) d0 by simp
  moreover have fin: "is_finite (fl_round binary64 R (d * 2))"
    using up d0 pow2_le_fmax [of binary64 1001] by (intro fl_round_finite) auto
  then obtain v where v: "fl_round binary64 R (d * 2) = Fin v"
    by (cases "fl_round binary64 R (d * 2)") auto
  ultimately have "2 powi ilog2 (d * 2) \<le> v"
    using fl_round_ge_pow2 [of binary64 "ilog2 (d * 2)" "d * 2" R v] lb(1) by simp
  then have "d \<le> v" using lb(2) by (simp add: power_int_add)
  then show ?thesis using v by simp
qed

text \<open>The bounds of a configuration: doubles, as the fields are, and the maximum far from overflow.\<close>

definition delay_bounds :: "config \<Rightarrow> rat \<Rightarrow> rat \<Rightarrow> bool" where
  "delay_bounds cfg lo hi \<longleftrightarrow> reconnect_initial_delay cfg = Fin lo \<and> reconnect_max_delay cfg = Fin hi \<and>
     fl_in binary64 (Fin lo) \<and> 2 powi (- 1074) \<le> lo \<and> lo \<le> hi \<and> hi \<le> 2 ^ 1000"

text \<open>The delay after \<open>k\<close> doublings.\<close>

definition capped :: "rat \<Rightarrow> rat \<Rightarrow> nat \<Rightarrow> rat" where
  "capped lo hi k = min (lo * 2 ^ k) hi"

lemma fl_le_Fin: "fl_le (Fin a) (Fin b) \<longleftrightarrow> a \<le> b"
  by (auto simp: fl_le_def)

lemma capped_bounds: "0 < lo \<Longrightarrow> lo \<le> hi \<Longrightarrow> lo \<le> capped lo hi k \<and> capped lo hi k \<le> hi"
  by (simp add: capped_def)

lemma next_backoff_doubles:
  assumes "delay_bounds cfg lo hi"
  shows "next_backoff R cfg (Fin (capped lo hi k)) = Fin (capped lo hi (Suc k))"
proof (cases "lo * 2 ^ k \<le> hi")
  case True
  have lo: "0 < lo" using assms by (auto simp: delay_bounds_def intro: less_le_trans [rotated])
  have "lo * 2 ^ Suc k \<le> 2 powi 1001" using True assms by (simp add: delay_bounds_def)
  also have "\<dots> \<le> fmax binary64" by (rule pow2_le_fmax) simp_all
  finally have "fl_round binary64 R (lo * 2 ^ Suc k) = Fin (lo * 2 ^ Suc k)"
    using assms lo by (intro fl_round_scaled) (simp_all add: delay_bounds_def)
  then show ?thesis
    using True assms by (auto simp: capped_def next_backoff_def fl_min_def delay_bounds_def mult_ac min_def)
next
  case False
  then have c: "capped lo hi k = hi" by (simp add: capped_def)
  have lo: "0 < lo" "2 powi (- 1074) \<le> hi" "hi \<le> 2 ^ 1000"
    using assms by (auto simp: delay_bounds_def intro: less_le_trans [rotated])
  have "lo * 2 ^ k \<le> lo * 2 ^ Suc k" using lo(1) by simp
  then have "capped lo hi (Suc k) = hi" using False by (simp add: capped_def)
  then show ?thesis
    using doubled_at_least [OF lo(2,3), of R] assms c by (auto simp: next_backoff_def fl_min_def delay_bounds_def)
qed

text \<open>
  The sessions of a run that are followed by a delay, told by whether they received a valid record, and
  how often the delay has been doubled at each: a valid record sets the count back.
\<close>

fun failed_sessions :: "platform \<Rightarrow> os \<Rightarrow> run_turn list \<Rightarrow> impl \<Rightarrow> bool list" where
  "failed_sessions P os [] s = []"
| "failed_sessions P os (rt # rts) s =
     (if rt_stop_loop rt \<or> impl_faulted s then []
      else case receive_session P os (rt_session rt) s of
        (Some (Inr oc), s1, smps) \<Rightarrow>
          if result oc = SessionStopped \<or> rt_stop_after rt then []
          else received_valid_record oc # failed_sessions P os rts
                 (enter_backoff (if message oc = [] then message_for (result oc) else message oc) (fst (close_session os s1)))
      | _ \<Rightarrow> [])"

fun doublings :: "nat \<Rightarrow> bool list \<Rightarrow> nat list" where
  "doublings n [] = []"
| "doublings n (v # vs) = (let k = (if v then 0 else n) in k # doublings (Suc k) vs)"

lemma length_doublings [simp]: "length (doublings n vs) = length vs"
  by (induction vs arbitrary: n) (simp_all add: Let_def)

text \<open>Under \<open>Reconnect\<close> the loop keeps the latch, and its delays are these.\<close>

lemma run_loop_delays:
  assumes "delay_bounds (c_config s) lo hi" and "recovery_policy (c_config s) = Reconnect"
    and "list_all benign_run rts" and "run_loop P os rts (Fin (capped lo hi n)) s = (r, s', smps, delays)"
  shows "keeps s s' \<and>
    delays = map (\<lambda>k. Fin (capped lo hi k)) (take (length delays) (doublings n (failed_sessions P os rts s))) \<and>
    (length delays = length (failed_sessions P os rts s) \<or> (\<exists>e. r = Some (Inl e)))"
  using assms
proof (induction rts arbitrary: s n r s' smps delays)
  case (Cons rt rts)
  obtain q s1 smps1 where q: "receive_session P os (rt_session rt) s = (q, s1, smps1)" by (metis prod_cases3)
  have k1: "keeps s s1" using receive_session_keeps [of "rt_session rt" s P os] Cons.prems(3) q
    by (simp add: benign_run_def)
  let ?s2 = "fst (close_session os s1)"
  have k2: "keeps s ?s2" using k1 close_session_props(1) keeps_trans by blast
  then have cfg: "c_config ?s2 = c_config s" by (simp add: keeps_def)
  show ?case
  proof (cases "rt_stop_loop rt \<or> impl_faulted s \<or> (\<forall>oc. q \<noteq> Some (Inr oc))")
    case True
    then show ?thesis using Cons.prems(4) q k1 by (auto split: if_splits option.splits sum.splits)
  next
    case False
    then obtain oc where oc: "q = Some (Inr oc)" by auto
    let ?k = "if received_valid_record oc then 0 else n"
    let ?s3 = "enter_backoff (if message oc = [] then message_for (result oc) else message oc) ?s2"
    have k3: "keeps s ?s3" using k2 by (simp add: enter_backoff_def)
    have "capped lo hi 0 = lo" using Cons.prems(1) by (simp add: capped_def delay_bounds_def)
    then have b: "(if received_valid_record oc then reconnect_initial_delay (c_config s) else Fin (capped lo hi n)) =
        Fin (capped lo hi ?k)"
      using Cons.prems(1) by (simp add: delay_bounds_def)
    show ?thesis
    proof (cases "result oc = SessionStopped \<or> rt_stop_after rt \<or>
        (\<exists>e. checked_deadline P (rt_now rt) (Fin (capped lo hi ?k)) = Inl e)")
      case True
      then show ?thesis using Cons.prems(2,4) False q oc cfg k2 k3 b by (auto simp: Let_def split: if_splits)
    next
      case stay: False
      then obtain dl where dl: "checked_deadline P (rt_now rt) (Fin (capped lo hi ?k)) = Inr dl"
        by (cases "checked_deadline P (rt_now rt) (Fin (capped lo hi ?k))") auto
      obtain r' s4 smps' ds where l: "run_loop P os rts (Fin (capped lo hi (Suc ?k))) ?s3 = (r', s4, smps', ds)" by (metis prod_cases4)
      have eq: "s' = s4" "delays = Fin (capped lo hi ?k) # ds" "r = r'"
        using Cons.prems(2,4) False q oc cfg stay dl b l next_backoff_doubles [OF Cons.prems(1)]
        by (auto simp: Let_def simp del: run_loop.simps(1) split: if_splits)
      have "failed_sessions P os (rt # rts) s = received_valid_record oc # failed_sessions P os rts ?s3"
        using False stay q oc by simp
      then show ?thesis
        using Cons.IH [OF _ _ _ l] Cons.prems(1-3) k3 keeps_trans [of s ?s3 s4] eq by (auto simp: keeps_def Let_def)
    qed
  qed
qed simp

section \<open>Malformed datagrams and silence\<close>

text \<open>A turn that gets a datagram of the wrong size in time, with no stop and nothing else going on.\<close>

definition malformed_turn :: "platform \<Rightarrow> os \<Rightarrow> time_point \<Rightarrow> udp \<Rightarrow> turn \<Rightarrow> bool" where
  "malformed_turn P os deadline tr t \<longleftrightarrow>
     t_interference t = id \<and> \<not> t_stop_loop t \<and> \<not> t_stop_received t \<and> t_now t < deadline \<and>
     (case transport_receive P os bufferSize (seconds_of_ticks (rounding_mode P) (deadline - t_now t)) (t_wait t) tr of
        Some (Inr bytes) \<Rightarrow> bytes \<noteq> [] \<and> length bytes \<noteq> 36 | _ \<Rightarrow> False)"

lemma receive_turn_malformed:
  assumes "malformed_turn P os deadline (c_transport s) t"
  shows "receive_turn P os t deadline valid s =
    (let (storm, s') = count_malformed s in
     (if storm then TurnReturns (session_end SessionMalformedStorm [] valid) else TurnContinues deadline valid, s', None))"
  using assms
  by (auto simp: malformed_turn_def receive_turn_defs Let_def decode_record_def split: option.splits sum.splits prod.splits)

lemma count_malformed_simps:
  "c_transport (snd (count_malformed s)) = c_transport s"
  "c_consecutive_malformed (snd (count_malformed s)) = c_consecutive_malformed s + 1"
  "h_malformed_count (c_health (snd (count_malformed s))) = h_malformed_count (c_health s) + 1"
  by (simp_all add: count_malformed_def Let_def)

lemma malformed_loop:
  assumes "list_all (malformed_turn P os deadline (c_transport s)) ts" and "unat (c_consecutive_malformed s) < 10"
  shows "\<exists>s'. receive_loop P os ts deadline valid s =
      ((if unat (c_consecutive_malformed s) + length ts < 10 then None
        else Some (Inr (session_end SessionMalformedStorm [] valid))), s', []) \<and>
    h_malformed_count (c_health s') = h_malformed_count (c_health s) +
      of_nat (min (length ts) (10 - unat (c_consecutive_malformed s)))"
  using assms
proof (induction ts arbitrary: s)
  case (Cons t ts)
  let ?s1 = "snd (count_malformed s)"
  have u: "unat (c_consecutive_malformed s + 1) = unat (c_consecutive_malformed s) + 1"
    using Cons.prems(2) by (simp add: unat_word_ariths)
  then have storm: "fst (count_malformed s) \<longleftrightarrow> unat (c_consecutive_malformed s) = 9"
    using Cons.prems(2) by (auto simp: count_malformed_def Let_def kMalformedStormThreshold_def word_le_nat_alt)
  have t: "receive_turn P os t deadline valid s =
    (if fst (count_malformed s) then TurnReturns (session_end SessionMalformedStorm [] valid)
     else TurnContinues deadline valid, ?s1, None)"
    using receive_turn_malformed [of P os deadline s t valid] Cons.prems(1) by (simp add: split_beta)
  show ?case
  proof (cases "unat (c_consecutive_malformed s) = 9")
    case True
    then show ?thesis using t storm by (simp add: count_malformed_simps)
  next
    case False
    have "list_all (malformed_turn P os deadline (c_transport ?s1)) ts"
      using Cons.prems(1) by (simp add: count_malformed_simps)
    then obtain s' where i: "receive_loop P os ts deadline valid ?s1 =
      ((if unat (c_consecutive_malformed ?s1) + length ts < 10 then None
        else Some (Inr (session_end SessionMalformedStorm [] valid))), s', [])"
      "h_malformed_count (c_health s') = h_malformed_count (c_health ?s1) +
      of_nat (min (length ts) (10 - unat (c_consecutive_malformed ?s1)))"
      using Cons.IH [of ?s1] False Cons.prems(2) u by (auto simp: count_malformed_simps)
    have "1 + min (length ts) (9 - unat (c_consecutive_malformed s)) =
        min (Suc (length ts)) (10 - unat (c_consecutive_malformed s))"
      using Cons.prems(2) False by linarith
    then have "(1 :: u64) + of_nat (min (length ts) (9 - unat (c_consecutive_malformed s))) =
        of_nat (min (Suc (length ts)) (10 - unat (c_consecutive_malformed s)))"
      by (metis of_nat_1 of_nat_add)
    then show ?thesis
      using t storm False i u by (auto simp: count_malformed_simps)
  qed
qed simp


text \<open>A turn in which the transport answers in time, but not with a record.\<close>

definition silent_turn :: "platform \<Rightarrow> os \<Rightarrow> time_point \<Rightarrow> udp \<Rightarrow> turn \<Rightarrow> bool" where
  "silent_turn P os deadline tr t \<longleftrightarrow> t_interference t = id \<and>
     (t_now t < deadline \<longrightarrow>
       (case transport_receive P os bufferSize (seconds_of_ticks (rounding_mode P) (deadline - t_now t)) (t_wait t) tr of
          None \<Rightarrow> False | Some (Inl e) \<Rightarrow> is_std_exception e | Some (Inr bytes) \<Rightarrow> length bytes \<noteq> 36))"

definition last_turn :: "time_point \<Rightarrow> turn \<Rightarrow> bool" where
  "last_turn deadline t \<longleftrightarrow> t_stop_loop t \<or> t_now t \<ge> deadline"

definition silent_results :: "session_result set" where
  "silent_results = {SessionStopped, SessionTimeout, SessionSocket, SessionMalformedStorm}"

lemma receive_turn_silent:
  assumes "silent_turn P os deadline (c_transport s) t"
  shows "(\<exists>oc s'. receive_turn P os t deadline valid s = (TurnReturns oc, s', None) \<and>
      result oc \<in> silent_results \<and> received_valid_record oc = valid) \<or>
    \<not> last_turn deadline t \<and> (\<exists>s'. receive_turn P os t deadline valid s = (TurnContinues deadline valid, s', None) \<and>
      c_transport s' = c_transport s)"
proof -
  have c: "\<exists>oc s'. count_timeout b v s = (oc, s') \<and> result oc \<in> silent_results \<and> received_valid_record oc = v" for b v
    by (simp add: count_timeout_def session_end_def silent_results_def)
  have m: "\<exists>b s'. count_malformed s = (b, s') \<and> c_transport s' = c_transport s"
    by (simp add: count_malformed_def Let_def)
  show ?thesis
    using assms c [of "t_stop_deadline t" valid] c [of "t_stop_empty t" valid] m
    by (auto simp: silent_turn_def last_turn_def receive_turn_defs Let_def decode_record_def session_end_def
        stopped_or_def silent_results_def split: option.splits sum.splits)
qed

lemma silent_loop:
  assumes "list_all (silent_turn P os deadline (c_transport s)) ts" and "list_ex (last_turn deadline) ts"
  shows "\<exists>oc s'. receive_loop P os ts deadline valid s = (Some (Inr oc), s', []) \<and>
    result oc \<in> silent_results \<and> received_valid_record oc = valid"
  using assms
proof (induction ts arbitrary: s)
  case (Cons t ts)
  then have t: "silent_turn P os deadline (c_transport s) t" by simp
  from receive_turn_silent [OF t, of valid] show ?case
  proof
    assume "\<not> last_turn deadline t \<and> (\<exists>s'. receive_turn P os t deadline valid s =
        (TurnContinues deadline valid, s', None) \<and> c_transport s' = c_transport s)"
    then obtain s' where c: "receive_turn P os t deadline valid s = (TurnContinues deadline valid, s', None)"
      "c_transport s' = c_transport s" "\<not> last_turn deadline t" by blast
    then show ?thesis using Cons.IH [of s'] Cons.prems by auto
  qed auto
qed simp

section \<open>Example inputs\<close>

definition example_policy_impl :: "recovery_policy \<Rightarrow> impl" where
  "example_policy_impl pol = example_impl\<lparr>c_config := (c_config example_impl)\<lparr>
     recovery_policy := pol, calibration_override := Some (calibration example_configuration),
     reconnect_initial_delay := Fin 1, reconnect_max_delay := Fin 5\<rparr>\<rparr>"

text \<open>A session whose host name does not resolve.\<close>

definition example_session :: session_io where
  "example_session =
     \<lparr>si_stop_start = False, si_fenv = (\<lambda>_. fenv_ok), si_http = serving [], si_stop_discovery = False,
      si_stop_configured = False, si_resolution = Inl 11001, si_stop_command = False, si_send = Sent 8,
      si_stop_connect = False, si_now = 0, si_turns = []\<rparr>"

definition example_run_turn :: run_turn where
  "example_run_turn = \<lparr>rt_stop_loop = False, rt_session = example_session, rt_lock_ok = True,
     rt_stop_after = False, rt_now = 0\<rparr>"

text \<open>A turn at time \<open>now\<close> in which three bytes are ready.\<close>

definition example_turn :: "time_point \<Rightarrow> turn" where
  "example_turn now =
     \<lparr>t_interference = id, t_stop_loop = False, t_now = now, t_stop_deadline = False,
      t_wait = PosixWait \<lparr>pw_now = now, pw_polls = [PollReady False], pw_shutdown = False, pw_recv = Received [1, 2, 3]\<rparr>,
      t_stop_thrown = False, t_stop_received = False, t_stop_empty = False, t_received_at = now,
      t_callback = example_callback\<rparr>"

lemma example_session_fails:
  "\<exists>s1. receive_session P Windows example_session (example_policy_impl pol) =
     (Some (Inr (session_end SessionSocket (''failed to resolve sensor (WinSock error '' @ show_int 11001 @ '')'') False)), s1, [])"
  by (simp add: receive_session_defs example_session_def configuration_for_session_def example_policy_impl_def
      open_session_def win_connect_def winsock_error_def Let_def stopped_or_def)

lemma example_malformed:
  "malformed_turn linux_x86_64 (Posix x) 1000000000 (install_socket 3 udp_init) (example_turn 0)"
proof -
  have i: "fl_round binary64 ToNearest 1000000000 = Fin 1000000000" "fl_round binary64 ToNearest 1 = Fin 1"
    using fl_round_int [of binary64 1000000000 ToNearest] fl_round_int [of binary64 1 ToNearest] by simp_all
  then have one: "seconds_of_ticks ToNearest 1000000000 = Fin 1"
    by (simp add: seconds_of_ticks_def fl_of_int_def)
  obtain k where "checked_duration linux_x86_64 (Fin 1) = Inr k" "k \<le> 2 ^ 49"
    using checked_duration_ordinary [of linux_x86_64 1] by auto
  then have "checked_deadline linux_x86_64 0 (Fin 1) = Inr k"
    by (simp add: checked_deadline_def steady_max_def)
  moreover have "rounding_mode linux_x86_64 = ToNearest" by (simp add: linux_x86_64_def)
  ultimately show ?thesis
    by (simp add: malformed_turn_def example_turn_def one posix_receive_def install_socket_def bufferSize_def)
qed

section \<open>Properties\<close>

text \<open>
  C10. A fail-stop client stops at its first failure. If the first session of a run ends with anything
  but a stop, the worker latches the fault of that result with its message, makes no further attempt,
  and exits with the socket closed; the snapshot shows \<open>Faulted\<close> with that code and message.
\<close>

theorem failstop_latches_first_failure:
  assumes "recovery_policy (c_config s) = FailStop" and "\<not> impl_faulted s"
    and "ri_turns io = rt # rts" and "\<not> rt_stop_loop rt" and "rt_lock_ok rt" and "benign_run rt"
    and "receive_session P os (rt_session rt) s = (Some (Inr oc), s1, smps)"
    and "result oc \<noteq> SessionStopped"
  shows "\<exists>s'. run P os io s = (Some s', smps, []) \<and> code (c_fault_latch s') = fault_for (result oc) \<and>
    fault_for (result oc) \<noteq> FaultNone \<and> h_state (c_health s') = Faulted \<and>
    h_fault_code (c_health s') = fault_for (result oc) \<and>
    h_last_error (c_health s') = (if message oc = [] then message_for (result oc) else message oc) \<and>
    c_worker_exited s' \<and> socket (c_transport s') = None"
proof -
  let ?s2 = "fst (close_session os s1)"
  let ?m = "if message oc = [] then message_for (result oc) else message oc"
  let ?s3 = "set_fault True (fault_for (result oc)) ?m ?s2"
  have k: "keeps s s1" using receive_session_keeps [of "rt_session rt" s P os] assms(6,7)
    by (simp add: benign_run_def)
  then have k2: "keeps s ?s2" using close_session_props(1) keeps_trans by blast
  then have cfg: "c_config ?s2 = c_config s" by (simp add: keeps_def)
  have nf: "\<not> impl_faulted ?s2" using keeps_faulted [OF k2] assms(2) by simp
  have f: "fault_for (result oc) \<noteq> FaultNone" using assms(8) by (simp add: fault_for_none)
  have l: "run_loop P os (ri_turns io) (reconnect_initial_delay (c_config s)) s = (Some (Inr ()), ?s3, smps, [])"
    unfolding assms(3) by (simp add: assms(1,2,4,5,7,8) cfg Let_def)
  let ?s' = "finish_session os (ri_finish_lock_ok io) ?s3"
  note fin = finish_session_props [where os = os and b = "ri_finish_lock_ok io" and s = ?s3]
  have "run P os io s = (Some ?s', smps, [])" by (simp add: run_def l)
  moreover have "c_health ?s' = c_health ?s3" using fin(5) set_fault_latches(1) [OF nf f] by simp
  moreover have "code (c_fault_latch ?s') = fault_for (result oc)"
    using fin(4) set_fault_latches(2) [OF nf f] by (simp add: keeps_def)
  ultimately show ?thesis using set_fault_latches(3-5) [OF nf f] f fin(1,3) by auto
qed

theorem failstop_latches_first_failure_witness:
  "\<exists>s'. run linux_x86_64 Windows
       \<lparr>ri_turns = [example_run_turn], ri_stop_catch = False, ri_catch_lock_ok = True, ri_finish_lock_ok = True\<rparr>
       (example_policy_impl FailStop) = (Some s', [], []) \<and> code (c_fault_latch s') = FaultSocket"
proof -
  let ?io = "\<lparr>ri_turns = [example_run_turn], ri_stop_catch = False, ri_catch_lock_ok = True, ri_finish_lock_ok = True\<rparr>"
  let ?s = "example_policy_impl FailStop"
  obtain s1 where r: "receive_session linux_x86_64 Windows (rt_session example_run_turn) ?s =
     (Some (Inr (session_end SessionSocket (''failed to resolve sensor (WinSock error '' @ show_int 11001 @ '')'') False)), s1, [])"
    using example_session_fails by (fastforce simp: example_run_turn_def)
  have h: "recovery_policy (c_config ?s) = FailStop" "\<not> impl_faulted ?s" "ri_turns ?io = example_run_turn # []"
    "\<not> rt_stop_loop example_run_turn" "rt_lock_ok example_run_turn" "benign_run example_run_turn"
    by (simp_all add: example_policy_impl_def example_impl_def impl_faulted_def latch_faulted_def latch_init_def
        example_run_turn_def benign_run_def example_session_def)
  show ?thesis using failstop_latches_first_failure [OF h r] by (auto simp: session_end_def)
qed

text \<open>
  C27. How a reconnecting client waits, and when it latches a fault. Over any number of sessions of any
  kind, the delay after a failed session is the initial delay doubled once for every failed session
  since the beginning or since the last session that received a valid record, and at most the maximum;
  each delay lies between the two. Every session that failed is followed by its delay, unless an
  exception leaves the loop. A fault is latched only when that happened and no stop was requested, and
  then it is the socket fault: no failed session is one.
\<close>

theorem reconnect_delays_bounded:
  assumes "delay_bounds (c_config s) lo hi" and "recovery_policy (c_config s) = Reconnect"
    and "list_all benign_run (ri_turns io)" and "run P os io s = (r, smps, delays)"
    and "failed = failed_sessions P os (ri_turns io) s"
    and "thrown = (\<exists>e. fst (run_loop P os (ri_turns io) (reconnect_initial_delay (c_config s)) s) = Some (Inl e))"
  shows "delays = map (\<lambda>k. Fin (min (lo * 2 ^ k) hi)) (take (length delays) (doublings 0 failed)) \<and>
    list_all (\<lambda>x. fl_le (Fin lo) x \<and> fl_le x (Fin hi)) delays \<and>
    (length delays = length failed \<or> thrown) \<and>
    (\<forall>s'. r = Some s' \<longrightarrow> c_fault_latch s' = c_fault_latch s \<or>
       thrown \<and> \<not> ri_stop_catch io \<and> code (c_fault_latch s') = FaultSocket)"
proof -
  have lo: "reconnect_initial_delay (c_config s) = Fin (capped lo hi 0)" "0 < lo" "lo \<le> hi"
    using assms(1) by (auto simp: delay_bounds_def capped_def intro: less_le_trans [rotated])
  obtain q s1 where l: "run_loop P os (ri_turns io) (Fin (capped lo hi 0)) s = (q, s1, smps, delays)"
    using assms(4) by (auto simp: run_def lo(1) split: prod.splits option.splits)
  have t: "thrown \<longleftrightarrow> (\<exists>e. q = Some (Inl e))" using l assms(6) by (simp add: lo(1))
  note d = run_loop_delays [OF assms(1-3) l, folded assms(5)]
  then have "set delays \<subseteq> range (\<lambda>k. Fin (capped lo hi k))" by (metis image_mono list.set_map subset_UNIV)
  then have "list_all (\<lambda>x. fl_le (Fin lo) x \<and> fl_le x (Fin hi)) delays"
    using capped_bounds [OF lo(2,3)] by (auto simp: list_all_iff fl_le_Fin)
  moreover have "c_fault_latch s' = c_fault_latch s \<or> thrown \<and> \<not> ri_stop_catch io \<and> code (c_fault_latch s') = FaultSocket"
    if e: "r = Some s'" for s'
  proof -
    have f: "c_fault_latch (finish_session os b x) = c_fault_latch x" for b x
      using finish_session_props(4) [of x os b] by (simp add: keeps_def)
    have k: "c_fault_latch s1 = c_fault_latch s" using d by (simp add: keeps_def)
    then have g: "c_fault_latch (set_fault b FaultSocket m s1) = c_fault_latch s \<or>
        code (c_fault_latch (set_fault b FaultSocket m s1)) = FaultSocket" for b m
      by (auto simp: set_fault_def publish_def)
    show ?thesis
    proof (cases "\<exists>e. q = Some (Inl e) \<and> \<not> ri_stop_catch io")
      case True
      then obtain m where "s' = finish_session os (ri_finish_lock_ok io) (set_fault (ri_catch_lock_ok io) FaultSocket m s1)"
        using assms(4) l e by (auto simp: run_def lo(1) Let_def split: if_splits)
      then show ?thesis using True t f g by simp
    next
      case False
      then have "s' = finish_session os (ri_finish_lock_ok io) s1"
        using assms(4) l e by (auto simp: run_def lo(1) Let_def split: option.splits sum.splits if_splits)
      then show ?thesis using k f by simp
    qed
  qed
  ultimately show ?thesis using d t by (auto simp: capped_def)
qed

lemma example_session_fails_again:
  assumes "calibration_override (c_config s) = Some k"
  shows "\<exists>s1. receive_session P Windows example_session s =
     (Some (Inr (session_end SessionSocket (''failed to resolve sensor (WinSock error '' @ show_int 11001 @ '')'') False)), s1, []) \<and>
     keeps s s1"
proof -
  have "list_all benign_turn (si_turns example_session)" by (simp add: example_session_def)
  then have "keeps s (fst (snd (receive_session P Windows example_session s)))"
    by (metis fst_conv receive_session_keeps snd_conv surj_pair)
  then show ?thesis
    using assms by (auto simp: receive_session_defs example_session_def configuration_for_session_def
        open_session_def win_connect_def winsock_error_def Let_def stopped_or_def)
qed

lemma example_run_step:
  assumes "recovery_policy (c_config s) = Reconnect" and "calibration_override (c_config s) = Some k" and "\<not> impl_faulted s"
    and "x = 1 \<or> x = 2"
  shows "\<exists>s'. keeps s s' \<and>
    failed_sessions linux_x86_64 Windows (example_run_turn # rts) s = False # failed_sessions linux_x86_64 Windows rts s' \<and>
    fst (run_loop linux_x86_64 Windows (example_run_turn # rts) (Fin x) s) =
      fst (run_loop linux_x86_64 Windows rts (next_backoff (rounding_mode linux_x86_64) (c_config s) (Fin x)) s')"
proof -
  let ?m = "''failed to resolve sensor (WinSock error '' @ show_int 11001 @ '')''"
  obtain s1 where s1: "receive_session linux_x86_64 Windows (rt_session example_run_turn) s =
      (Some (Inr (session_end SessionSocket ?m False)), s1, [])" "keeps s s1"
    using example_session_fails_again [OF assms(2)] by (auto simp: example_run_turn_def)
  let ?s' = "enter_backoff ?m (fst (close_session Windows s1))"
  have k: "keeps s ?s'" "c_config (fst (close_session Windows s1)) = c_config s"
    using s1(2) by (simp_all add: keeps_def enter_backoff_def close_session_def)
  obtain t where "checked_duration linux_x86_64 (Fin x) = Inr t" "t \<le> 2 ^ 49"
    using checked_duration_ordinary [of linux_x86_64 x] assms(4) by auto
  then have "checked_deadline linux_x86_64 (rt_now example_run_turn) (Fin x) = Inr t"
    by (simp add: checked_deadline_def steady_max_def example_run_turn_def)
  then show ?thesis
    using assms s1 k by (intro exI [of _ ?s']) (simp add: session_end_def example_run_turn_def Let_def split: prod.splits)
qed

theorem reconnect_delays_bounded_witness:
  "\<exists>r smps. run linux_x86_64 Windows
       \<lparr>ri_turns = [example_run_turn, example_run_turn], ri_stop_catch = False, ri_catch_lock_ok = True, ri_finish_lock_ok = True\<rparr>
       (example_policy_impl Reconnect) = (r, smps, [Fin 1, Fin 2])"
proof -
  let ?ts = "[example_run_turn, example_run_turn]" and ?s = "example_policy_impl Reconnect"
  let ?io = "\<lparr>ri_turns = ?ts, ri_stop_catch = False, ri_catch_lock_ok = True, ri_finish_lock_ok = True\<rparr>"
  have "fl_round binary64 ToNearest 1 = Fin 1" using fl_round_int [of binary64 1 ToNearest] by simp
  then have h: "delay_bounds (c_config ?s) 1 5" "recovery_policy (c_config ?s) = Reconnect" "list_all benign_run (ri_turns ?io)"
    by (simp_all add: delay_bounds_def example_policy_impl_def example_run_turn_def benign_run_def example_session_def
        power_int_minus)
  have c: "calibration_override (c_config ?s) \<noteq> None" "\<not> impl_faulted ?s" "reconnect_initial_delay (c_config ?s) = Fin 1"
    by (simp_all add: example_policy_impl_def example_impl_def impl_faulted_def latch_faulted_def latch_init_def)
  obtain s1 where s1: "keeps ?s s1" "failed_sessions linux_x86_64 Windows ?ts ?s = False # failed_sessions linux_x86_64 Windows [example_run_turn] s1"
    "fst (run_loop linux_x86_64 Windows ?ts (Fin 1) ?s) =
       fst (run_loop linux_x86_64 Windows [example_run_turn] (next_backoff (rounding_mode linux_x86_64) (c_config ?s) (Fin 1)) s1)"
    using example_run_step [of ?s _ 1 "[example_run_turn]"] h(2) c by blast
  have n: "next_backoff (rounding_mode linux_x86_64) (c_config ?s) (Fin 1) = Fin 2"
    using next_backoff_doubles [OF h(1), of "rounding_mode linux_x86_64" 0] by (simp add: capped_def)
  have "recovery_policy (c_config s1) = Reconnect" "calibration_override (c_config s1) \<noteq> None" "\<not> impl_faulted s1"
    using s1(1) h(2) c(1,2) keeps_faulted [OF s1(1)] by (simp_all add: keeps_def)
  then obtain s2 where s2: "failed_sessions linux_x86_64 Windows [example_run_turn] s1 = [False]"
    "fst (run_loop linux_x86_64 Windows [example_run_turn] (Fin 2) s1) = None"
    using example_run_step [of s1 _ 2 "[]"] by auto
  obtain r smps delays where l: "run linux_x86_64 Windows ?io ?s = (r, smps, delays)" by (metis prod_cases3)
  have f: "[False, False] = failed_sessions linux_x86_64 Windows (ri_turns ?io) ?s"
    unfolding run_io.simps using s1(2) s2(1) by simp
  have "fst (run_loop linux_x86_64 Windows ?ts (Fin 1) ?s) = None" using s1(3) s2(2) unfolding n by simp
  then have t: "False = (\<exists>e. fst (run_loop linux_x86_64 Windows (ri_turns ?io) (reconnect_initial_delay (c_config ?s)) ?s) = Some (Inl e))"
    unfolding run_io.simps c(3) by simp
  have "delays = map (\<lambda>k. Fin (min (1 * 2 ^ k) 5)) (take (length delays) (doublings 0 [False, False]))"
    using reconnect_delays_bounded [OF h l f t] by blast
  moreover have "length delays = 2" using reconnect_delays_bounded [OF h l f t] by simp
  ultimately have "delays = [Fin 1, Fin 2]" by (simp add: numeral_2_eq_2)
  then show ?thesis using l by simp
qed

text \<open>
  However the worker ends, by a stop, a fault or an exception, it leaves the client idle: the
  worker is marked as exited, no session is marked as started, the socket is closed, and the state
  shown is \<open>Stopped\<close> unless a fault is latched.
\<close>

lemma run_leaves_client_idle:
  assumes "run P os io s = (Some s', smps, delays)"
  shows "c_worker_exited s' \<and> \<not> c_session_started s' \<and> socket (c_transport s') = None \<and>
    (ri_finish_lock_ok io \<longrightarrow> \<not> impl_faulted s' \<longrightarrow> h_state (c_health s') = Stopped)"
proof -
  obtain s2 where s': "s' = finish_session os (ri_finish_lock_ok io) s2"
    using assms by (auto simp: run_def Let_def split: prod.splits option.splits)
  show ?thesis
    using finish_session_props [where os = os and b = "ri_finish_lock_ok io" and s = s2] keeps_faulted
    unfolding s' by blast
qed

text \<open>
  C28. Ten malformed datagrams in a row end a session, and not before. Starting with \<open>k\<close> already
  counted, a run of datagrams of the wrong size ends the session as a storm exactly at the one that
  makes ten, with each of them counted, and delivers nothing; fewer leave it running.
\<close>

theorem malformed_storm_at_ten:
  assumes "list_all (malformed_turn P os deadline (c_transport s)) ts" and "unat (c_consecutive_malformed s) < 10"
  shows "\<exists>s'. receive_loop P os ts deadline valid s =
      ((if unat (c_consecutive_malformed s) + length ts < 10 then None
        else Some (Inr (session_end SessionMalformedStorm [] valid))), s', []) \<and>
    h_malformed_count (c_health s') = h_malformed_count (c_health s) +
      of_nat (min (length ts) (10 - unat (c_consecutive_malformed s)))"
  using assms by (rule malformed_loop)

theorem malformed_storm_at_ten_witness:
  "\<exists>s'. receive_loop linux_x86_64 (Posix \<lparr>strerror_text = (\<lambda>_. []), gai_text = (\<lambda>_. [])\<rparr>)
       (replicate 10 (example_turn 0)) 1000000000 False example_impl =
       (Some (Inr (session_end SessionMalformedStorm [] False)), s', [])"
proof -
  let ?x = "Posix \<lparr>strerror_text = (\<lambda>_. []), gai_text = (\<lambda>_. [])\<rparr>"
  have h: "list_all (malformed_turn linux_x86_64 ?x 1000000000 (c_transport example_impl)) (replicate 10 (example_turn 0))"
    "unat (c_consecutive_malformed example_impl) < 10"
    using example_malformed by (simp_all add: example_impl_def list_all_iff)
  show ?thesis
    using malformed_storm_at_ten [OF h, of False] by (auto simp: example_impl_def)
qed

text \<open>
  C29. A session without records ends. As long as the transport answers, with nothing, with malformed
  datagrams or with an error, the session returns by the first turn that finds a stop request or the
  clock at the deadline: malformed traffic does not postpone it. The result says stopped, timeout,
  socket failure or storm, and nothing was delivered.
\<close>

theorem silent_session_ends:
  assumes "list_all (silent_turn P os deadline (c_transport s)) ts" and "list_ex (last_turn deadline) ts"
  shows "\<exists>oc s'. receive_loop P os ts deadline valid s = (Some (Inr oc), s', []) \<and>
    result oc \<in> {SessionStopped, SessionTimeout, SessionSocket, SessionMalformedStorm} \<and>
    received_valid_record oc = valid"
  using silent_loop [OF assms] by (simp add: silent_results_def)

theorem silent_session_ends_witness:
  "\<exists>oc s'. receive_loop linux_x86_64 Windows [example_turn 1000000000] 1000000000 True example_impl =
     (Some (Inr oc), s', []) \<and> received_valid_record oc"
proof -
  have h: "list_all (silent_turn linux_x86_64 Windows 1000000000 (c_transport example_impl)) [example_turn 1000000000]"
    "list_ex (last_turn 1000000000) [example_turn 1000000000]"
    by (simp_all add: silent_turn_def last_turn_def example_turn_def)
  show ?thesis using silent_session_ends [OF h, of True] by blast
qed

end
