(* ===== verification/Client_Lifecycle.thy ===== *)
theory Client_Lifecycle
  imports Client_Worker
begin

text \<open>
  Starting, stopping and waiting (\<open>start\<close>, \<open>stop\<close>, \<open>wait_for_first_sample\<close> of
  \<open>core/src/detail/client_impl.cpp\<close>, and the facade in \<open>core/src/client.cpp\<close>). Any number of threads
  call them concurrently. Each critical section under \<open>lifecycle_mutex_\<close> is one atomic step on the
  state; a thread that has to wait on the condition variable gets the answer to retry, which is what
  its loop does. The steps are composed into a transition system with the threads that are alive and
  the pending join as auxiliary state, an instance of \<open>invariant_system\<close>. The lemmas show that a
  failed start restores the state, that at most one worker is alive and nobody joins the thread it
  runs on, and that waiting for the first sample is about the current run.
\<close>

section \<open>Starting\<close>

datatype start_result = StartThrows exn | StartWaits | StartReaps nat | StartReturns

text \<open>The state the new run begins with, before the thread exists.\<close>

definition prepare_start :: "nat option \<Rightarrow> impl \<Rightarrow> impl" where
  "prepare_start callback s =
     s\<lparr>c_last_delivery_at := 0,
       c_fault_latch := latch_reset (c_fault_latch s),
       c_health := (c_health s)\<lparr>h_state := Connecting, h_fault_code := FaultNone, h_last_error := [],
                                h_receive_rate_hz := Fin 0, h_delivery_rate_hz := Fin 0\<rparr>,
       c_latest := None, c_last_record_at := 0,
       c_generation := c_generation s + 1, c_delivered_generation := 0,
       c_receive_times := [], c_delivery_times := [], c_consecutive_malformed := 0,
       c_stopping := False, c_worker_exited := False, c_callback := callback\<rparr>"

text \<open>The handler for a thread that cannot be created: \<open>s\<close> is the state saved before, \<open>s1\<close> the prepared one.\<close>

definition roll_back :: "bool \<Rightarrow> impl \<Rightarrow> impl \<Rightarrow> impl" where
  "roll_back lock_ok s s1 =
     (let previous_fault = impl_fault_code s;
          s2 = s1\<lparr>c_stopping := c_stopping s, c_worker_exited := c_worker_exited s,
                  c_callback := c_callback s, c_last_delivery_at := c_last_delivery_at s,
                  c_health := c_health s, c_latest := c_latest s, c_last_record_at := c_last_record_at s,
                  c_generation := c_generation s, c_delivered_generation := c_delivered_generation s,
                  c_receive_times := c_receive_times s, c_delivery_times := c_delivery_times s,
                  c_consecutive_malformed := c_consecutive_malformed s,
                  c_fault_latch := latch_reset (c_fault_latch s1)\<rparr> in
      if previous_fault \<noteq> FaultNone
      then (let (_, latch, h) = publish lock_ok previous_fault (h_last_error (c_health s))
                                  (c_fault_latch s2, c_health s2) in
            s2\<lparr>c_fault_latch := latch, c_health := h\<rparr>)
      else s2)"

text \<open>
  The critical section of \<open>start\<close> for the thread \<open>self\<close>: \<open>created\<close> is the answer to the creation of
  a thread, its id or an exception.
\<close>

definition start_section ::
  "nat \<Rightarrow> nat option \<Rightarrow> exn + nat \<Rightarrow> bool \<Rightarrow> impl \<Rightarrow> start_result \<times> impl" where
  "start_section self callback created lock_ok s =
     (if \<not> c_worker_exited s \<and> c_active_worker_id s = Some self
      then (StartThrows (LogicError ''client is already running''), s)
      else if c_joining s then (StartWaits, s)
      else case c_worker s of
        Some w \<Rightarrow>
          if \<not> c_worker_exited s
          then if \<not> impl_faulted s then (StartThrows (LogicError ''client is already running''), s)
               else (StartWaits, s)
          else (StartReaps w, s\<lparr>c_joining := True, c_worker := None\<rparr>)
      | None \<Rightarrow>
          let s1 = prepare_start callback s in
          case created of
            Inl e \<Rightarrow> (StartThrows e, roll_back lock_ok s s1)
          | Inr w \<Rightarrow> (StartReturns, s1\<lparr>c_worker := Some w, c_active_worker_id := Some w\<rparr>))"

definition start_joined :: "impl \<Rightarrow> impl" where
  "start_joined s = s\<lparr>c_active_worker_id := None, c_joining := False\<rparr>"

section \<open>Stopping\<close>

datatype stop_result = StopReturns | StopWaits | StopJoins nat

text \<open>The request itself: the flag, the stop datagram of an open session and the shutdown.\<close>

definition request_stop :: "os \<Rightarrow> impl \<Rightarrow> impl \<times> u8 list list" where
  "request_stop os s =
     (s\<lparr>c_stopping := True, c_session_started := False,
        c_transport := transport_shutdown os (c_transport s)\<rparr>,
      if c_session_started s then [encode_request StopStreaming 0] else [])"

definition show_stopped :: "impl \<Rightarrow> impl" where
  "show_stopped s =
     (if \<not> impl_faulted s then s\<lparr>c_health := (c_health s)\<lparr>h_state := Stopped\<rparr>\<rparr> else s)"

definition stop_section :: "os \<Rightarrow> nat \<Rightarrow> impl \<Rightarrow> stop_result \<times> impl" where
  "stop_section os self s0 =
     (let s = fst (request_stop os s0) in
      if \<not> c_worker_exited s \<and> c_active_worker_id s = Some self then (StopReturns, s)
      else if c_joining s then (StopWaits, s)
      else case c_worker s of
        None \<Rightarrow> (StopReturns, show_stopped s)
      | Some w \<Rightarrow> (StopJoins w, s\<lparr>c_joining := True, c_worker := None\<rparr>))"

definition stop_joined :: "impl \<Rightarrow> impl" where
  "stop_joined s = (show_stopped s)\<lparr>c_active_worker_id := None, c_joining := False\<rparr>"

text \<open>\<open>called_from_worker_thread\<close>, and what the destructor of the facade does with it.\<close>

definition called_from_worker_thread :: "nat \<Rightarrow> impl \<Rightarrow> bool" where
  "called_from_worker_thread self s \<longleftrightarrow> \<not> c_worker_exited s \<and> c_active_worker_id s = Some self"

section \<open>Waiting for the first sample\<close>

text \<open>
  The predicate of the wait, and the call: \<open>now\<close> is its reading of the clock, \<open>ws\<close> the wake-ups of the
  wait. It changes nothing itself.
\<close>

definition first_sample_awake :: "u64 \<Rightarrow> impl \<Rightarrow> bool" where
  "first_sample_awake g s \<longleftrightarrow>
     c_generation s \<noteq> g \<or> c_delivered_generation s = g \<or> c_stopping s \<or> impl_faulted s"

definition wait_for_first_sample ::
  "platform \<Rightarrow> time_point \<Rightarrow> fl \<Rightarrow> impl wake list \<Rightarrow> impl \<Rightarrow> bool res option" where
  "wait_for_first_sample P now timeout ws s =
     (case checked_deadline P now timeout of
        Inl e \<Rightarrow> Some (Inl e)
      | Inr deadline \<Rightarrow>
          let captured_generation = c_generation s in
          if captured_generation = 0 then Some (Inr False)
          else
            case wait_for (first_sample_awake captured_generation) ws s of
              None \<Rightarrow> None
            | Some (_, s1) \<Rightarrow>
                if c_generation s1 \<noteq> captured_generation then Some (Inr False)
                else Some (Inr (c_delivered_generation s1 = captured_generation)))"

section \<open>The transition system\<close>

text \<open>
  The client, the worker threads that are alive, the pending join with the operation that makes it,
  and whether a sample was delivered since the last start.
\<close>

datatype joiner = ByStart | ByStop

record lifecycle =
  l_impl :: impl
  l_live :: "nat list"
  l_join :: "(nat \<times> joiner) option"
  l_delivered :: bool

text \<open>
  The steps: a section of \<open>start\<close> or \<open>stop\<close> by a thread, the end of a join, and of a worker: a
  delivery, a fault, the end of \<open>run\<close> and the end of the thread. A thread that is created gets an id
  that no live thread has.
\<close>

datatype lifecycle_action =
    DoStart nat "nat option" "exn + nat" bool
  | DoStop os nat
  | Joined
  | Deliver nat platform sample
  | Fault nat bool fault_code string
  | Finish nat os bool
  | Exit nat

fun lifecycle_step :: "lifecycle_action \<Rightarrow> lifecycle \<Rightarrow> lifecycle option" where
  "lifecycle_step (DoStart self callback created lock_ok) l =
     (if (case created of Inr w \<Rightarrow> w \<in> set (l_live l) \<or> w = self | Inl _ \<Rightarrow> False) then None
      else case start_section self callback created lock_ok (l_impl l) of
        (StartReturns, s) \<Rightarrow>
          Some (l\<lparr>l_impl := s, l_live := (case created of Inr w \<Rightarrow> w # l_live l | Inl _ \<Rightarrow> l_live l),
                  l_delivered := False\<rparr>)
      | (StartReaps w, s) \<Rightarrow> Some (l\<lparr>l_impl := s, l_join := Some (w, ByStart)\<rparr>)
      | (_, s) \<Rightarrow> Some (l\<lparr>l_impl := s\<rparr>))"
| "lifecycle_step (DoStop os self) l =
     (case stop_section os self (l_impl l) of
        (StopJoins w, s) \<Rightarrow> Some (l\<lparr>l_impl := s, l_join := Some (w, ByStop)\<rparr>)
      | (_, s) \<Rightarrow> Some (l\<lparr>l_impl := s\<rparr>))"
| "lifecycle_step Joined l =
     (case l_join l of
        None \<Rightarrow> None
      | Some (w, k) \<Rightarrow>
          if w \<in> set (l_live l) then None
          else Some (l\<lparr>l_impl := (case k of ByStart \<Rightarrow> start_joined | ByStop \<Rightarrow> stop_joined) (l_impl l),
                       l_join := None\<rparr>))"
| "lifecycle_step (Deliver w P smp) l =
     (if w \<in> set (l_live l) \<and> \<not> c_worker_exited (l_impl l)
      then Some (l\<lparr>l_impl := record_delivery P smp (l_impl l), l_delivered := True\<rparr>) else None)"
| "lifecycle_step (Fault w lock_ok c m) l =
     (if w \<in> set (l_live l) \<and> \<not> c_worker_exited (l_impl l)
      then Some (l\<lparr>l_impl := set_fault lock_ok c m (l_impl l)\<rparr>) else None)"
| "lifecycle_step (Finish w os lock_ok) l =
     (if w \<in> set (l_live l) \<and> \<not> c_worker_exited (l_impl l)
      then Some (l\<lparr>l_impl := finish_session os lock_ok (l_impl l)\<rparr>) else None)"
| "lifecycle_step (Exit w) l =
     (if w \<in> set (l_live l) \<and> c_worker_exited (l_impl l)
      then Some (l\<lparr>l_live := remove1 w (l_live l)\<rparr>) else None)"

definition lifecycle_init :: "lifecycle \<Rightarrow> bool" where
  "lifecycle_init l \<longleftrightarrow>
     c_worker (l_impl l) = None \<and> c_active_worker_id (l_impl l) = None \<and> \<not> c_joining (l_impl l) \<and>
     c_worker_exited (l_impl l) \<and> c_generation (l_impl l) = 0 \<and> c_delivered_generation (l_impl l) = 0 \<and>
     \<not> impl_faulted (l_impl l) \<and> l_live l = [] \<and> l_join l = None \<and> \<not> l_delivered l"

end
