(* ===== verification/Client_Threads.thy ===== *)
theory Client_Threads
  imports Client_Lifecycle
begin

text \<open>
  Lemmas on the transition system of \<open>Client_Lifecycle\<close>: its invariant, that every step of every
  thread keeps it, and what follows for the callers of \<open>start\<close>, \<open>stop\<close> and
  \<open>wait_for_first_sample\<close>.
\<close>

section \<open>The invariant\<close>

definition fault_shown_in :: "impl \<Rightarrow> bool" where
  "fault_shown_in s \<longleftrightarrow> (impl_faulted s \<longrightarrow>
     h_state (c_health s) = Faulted \<and> h_fault_code (c_health s) = code (c_fault_latch s))"

definition owner_inv :: "lifecycle \<Rightarrow> bool" where
  "owner_inv l \<longleftrightarrow>
     (case l_join l of
        Some (w, k) \<Rightarrow> c_worker (l_impl l) = None \<and> c_active_worker_id (l_impl l) = Some w \<and>
          set (l_live l) \<subseteq> {w} \<and> (k = ByStart \<longrightarrow> c_worker_exited (l_impl l))
      | None \<Rightarrow>
          (case c_worker (l_impl l) of
             Some w \<Rightarrow> c_active_worker_id (l_impl l) = Some w \<and> set (l_live l) \<subseteq> {w}
           | None \<Rightarrow> c_active_worker_id (l_impl l) = None \<and> l_live l = [] \<and> c_worker_exited (l_impl l)))"

definition lifecycle_inv :: "lifecycle \<Rightarrow> bool" where
  "lifecycle_inv l \<longleftrightarrow>
     c_joining (l_impl l) = (l_join l \<noteq> None) \<and> owner_inv l \<and> distinct (l_live l) \<and>
     (\<not> c_worker_exited (l_impl l) \<longrightarrow> l_live l \<noteq> []) \<and>
     (c_generation (l_impl l) \<noteq> 0 \<longrightarrow>
        (c_delivered_generation (l_impl l) = c_generation (l_impl l) \<longleftrightarrow> l_delivered l)) \<and>
     fault_shown_in (l_impl l)"

lemmas lifecycle_defs = lifecycle_inv_def owner_inv_def fault_shown_in_def impl_faulted_def latch_faulted_def

text \<open>The fields each operation leaves alone.\<close>

definition same_owner :: "impl \<Rightarrow> impl \<Rightarrow> bool" where
  "same_owner s s' \<longleftrightarrow> c_worker s' = c_worker s \<and> c_active_worker_id s' = c_active_worker_id s \<and>
     c_joining s' = c_joining s \<and> c_generation s' = c_generation s"

lemma worker_ops_same_owner:
  "same_owner s (record_delivery P smp s)" "same_owner s (set_fault b c m s)" "same_owner s (finish_session os b s)"
  "same_owner s (show_stopped s)" "same_owner s (fst (request_stop os s))"
  by (auto simp: same_owner_def record_delivery_def set_fault_def finish_session_def show_stopped_def request_stop_def
      close_session_def publish_def Let_def)

lemma worker_ops_exited:
  "c_worker_exited (record_delivery P smp s) = c_worker_exited s" "c_worker_exited (set_fault b c m s) = c_worker_exited s"
  "c_worker_exited (show_stopped s) = c_worker_exited s" "c_worker_exited (fst (request_stop os s)) = c_worker_exited s"
  by (auto simp: record_delivery_def set_fault_def show_stopped_def request_stop_def publish_def Let_def)

lemma worker_ops_delivered:
  "c_delivered_generation (record_delivery P smp s) = c_generation s"
  "c_delivered_generation (set_fault b c m s) = c_delivered_generation s"
  "c_delivered_generation (finish_session os b s) = c_delivered_generation s"
  "c_delivered_generation (show_stopped s) = c_delivered_generation s"
  "c_delivered_generation (fst (request_stop os s)) = c_delivered_generation s"
  by (auto simp: record_delivery_def set_fault_def finish_session_def show_stopped_def request_stop_def
      close_session_def publish_def Let_def)

lemma worker_ops_fault_shown:
  assumes "fault_shown_in s"
  shows "fault_shown_in (record_delivery P smp s)" "fault_shown_in (set_fault b c m s)"
    "fault_shown_in (finish_session os b s)" "fault_shown_in (show_stopped s)" "fault_shown_in (fst (request_stop os s))"
  using assms
  by (auto simp: fault_shown_in_def impl_faulted_def latch_faulted_def record_delivery_def set_fault_def finish_session_def
      show_stopped_def request_stop_def close_session_def publish_def Let_def)

text \<open>A failed start puts everything back.\<close>

lemma roll_back_id:
  assumes "fault_shown_in s"
  shows "roll_back True s (prepare_start callback s) = s"
  using assms
  by (auto simp: roll_back_def prepare_start_def Let_def impl_fault_code_def latch_reset_def publish_def
      fault_shown_in_def impl_faulted_def latch_faulted_def)

lemma roll_back_frame:
  "same_owner s (roll_back b s (prepare_start callback s))"
  "c_worker_exited (roll_back b s (prepare_start callback s)) = c_worker_exited s"
  "c_delivered_generation (roll_back b s (prepare_start callback s)) = c_delivered_generation s"
  "fault_shown_in (roll_back b s (prepare_start callback s))"
  by (auto simp: roll_back_def prepare_start_def Let_def impl_fault_code_def latch_reset_def publish_def same_owner_def
      fault_shown_in_def impl_faulted_def latch_faulted_def)

lemma prepare_start_frame:
  "c_worker (prepare_start cb s) = c_worker s" "c_joining (prepare_start cb s) = c_joining s"
  "c_active_worker_id (prepare_start cb s) = c_active_worker_id s"
  "c_generation (prepare_start cb s) = c_generation s + 1" "c_delivered_generation (prepare_start cb s) = 0"
  "\<not> c_worker_exited (prepare_start cb s)" "\<not> impl_faulted (prepare_start cb s)"
  by (simp_all add: prepare_start_def impl_faulted_def latch_faulted_def latch_reset_def)


text \<open>An operation of the live worker, or of a stop request, that leaves ownership alone.\<close>

lemma inv_same_owner:
  assumes "lifecycle_inv l" and "same_owner (l_impl l) s" and "fault_shown_in s"
    and "c_worker_exited (l_impl l) \<longrightarrow> c_worker_exited s"
    and "c_generation s \<noteq> 0 \<longrightarrow> (c_delivered_generation s = c_generation s \<longleftrightarrow> d)"
  shows "lifecycle_inv (l\<lparr>l_impl := s, l_delivered := d\<rparr>)"
  using assms
  by (auto simp: lifecycle_inv_def owner_inv_def same_owner_def split: option.splits)

lemma inv_fault_shown: "lifecycle_inv l \<Longrightarrow> fault_shown_in (l_impl l)"
  by (simp add: lifecycle_inv_def)

lemma inv_keep:
  assumes "lifecycle_inv l" and "same_owner (l_impl l) s" and "fault_shown_in s"
    and "c_worker_exited (l_impl l) \<longrightarrow> c_worker_exited s"
    and "c_delivered_generation s = c_delivered_generation (l_impl l)"
  shows "lifecycle_inv (l\<lparr>l_impl := s\<rparr>)"
  using inv_same_owner [OF assms(1-4), of "l_delivered l"] assms(1,2,5)
  by (simp add: lifecycle_inv_def same_owner_def)

text \<open>Handing the worker over to a join.\<close>

lemma inv_hand_over:
  assumes "lifecycle_inv l" and "c_worker (l_impl l) = Some w" and "k = ByStart \<longrightarrow> c_worker_exited (l_impl l)"
  shows "lifecycle_inv (l\<lparr>l_impl := (l_impl l)\<lparr>c_joining := True, c_worker := None\<rparr>, l_join := Some (w, k)\<rparr>)"
  using assms
  by (auto simp: lifecycle_inv_def owner_inv_def fault_shown_in_def impl_faulted_def split: option.splits)

lemma inv_start:
  assumes "lifecycle_inv l" and "lifecycle_step (DoStart self cb created b) l = Some l'"
  shows "lifecycle_inv l'"
proof -
  let ?s = "l_impl l"
  obtain r s where st: "start_section self cb created b ?s = (r, s)" by fastforce
  show ?thesis
  proof (cases r)
    case StartReturns
    then obtain w where w: "created = Inr w" "c_worker ?s = None" "\<not> c_joining ?s"
      "s = prepare_start cb ?s\<lparr>c_worker := Some w, c_active_worker_id := Some w\<rparr>"
      using st by (auto simp: start_section_def Let_def split: if_splits option.splits sum.splits)
    then have l: "l_live l = []" "l_join l = None"
      using assms(1) by (auto simp: lifecycle_inv_def owner_inv_def split: option.splits)
    have "l' = l\<lparr>l_impl := s, l_live := [w], l_delivered := False\<rparr>"
      using assms(2) st StartReturns w(1) l by (simp split: if_splits)
    then show ?thesis
      using w(3,4) l prepare_start_frame [of cb ?s, unfolded impl_faulted_def]
      by (simp add: lifecycle_inv_def owner_inv_def fault_shown_in_def impl_faulted_def)
  next
    case (StartReaps w)
    then have "c_worker ?s = Some w" "c_worker_exited ?s" "\<not> c_joining ?s" "s = ?s\<lparr>c_joining := True, c_worker := None\<rparr>"
      using st by (auto simp: start_section_def Let_def split: if_splits option.splits sum.splits)
    moreover have "l' = l\<lparr>l_impl := s, l_join := Some (w, ByStart)\<rparr>"
      using assms(2) st StartReaps by (simp split: if_splits)
    ultimately show ?thesis
      using assms(1) inv_hand_over [OF assms(1), of w ByStart] by simp
  next
    case StartWaits
    then have "s = ?s" using st by (auto simp: start_section_def Let_def split: if_splits option.splits sum.splits)
    then show ?thesis using assms st StartWaits by (simp split: if_splits)
  next
    case (StartThrows e)
    then have "s = ?s \<or> s = roll_back b ?s (prepare_start cb ?s)"
      using st by (auto simp: start_section_def Let_def split: if_splits option.splits sum.splits)
    moreover have l': "l' = l\<lparr>l_impl := s\<rparr>" using assms(2) st StartThrows by (simp split: if_splits)
    moreover note \<open>s = ?s \<or> s = roll_back b ?s (prepare_start cb ?s)\<close>
    then show ?thesis
    proof
      assume s: "s = roll_back b ?s (prepare_start cb ?s)"
      show ?thesis
        unfolding l' s by (rule inv_keep [OF assms(1)]) (simp_all add: roll_back_frame)
    qed (use assms(1) l' in simp)
  qed
qed

lemma inv_stop:
  assumes "lifecycle_inv l" and "lifecycle_step (DoStop os self) l = Some l'"
  shows "lifecycle_inv l'"
proof -
  let ?q = "fst (request_stop os (l_impl l))"
  have q: "lifecycle_inv (l\<lparr>l_impl := ?q\<rparr>)"
    by (rule inv_keep [OF assms(1)])
      (simp_all add: worker_ops_same_owner worker_ops_exited worker_ops_delivered worker_ops_fault_shown
        inv_fault_shown [OF assms(1)])
  have q': "lifecycle_inv (l\<lparr>l_impl := show_stopped ?q\<rparr>)"
    using inv_keep [OF q, of "show_stopped ?q"]
    by (simp add: worker_ops_same_owner worker_ops_exited worker_ops_delivered worker_ops_fault_shown
        inv_fault_shown [OF assms(1)])
  obtain r s where st: "stop_section os self (l_impl l) = (r, s)" by fastforce
  show ?thesis
  proof (cases r)
    case (StopJoins w)
    then have "c_worker ?q = Some w" "\<not> c_joining ?q" "s = ?q\<lparr>c_joining := True, c_worker := None\<rparr>"
      using st by (auto simp: stop_section_def Let_def split: if_splits option.splits)
    moreover have "l' = l\<lparr>l_impl := s, l_join := Some (w, ByStop)\<rparr>"
      using assms(2) st StopJoins by simp
    ultimately show ?thesis using inv_hand_over [OF q, of w ByStop] by simp
  next
    case StopWaits
    then have "s = ?q" using st by (auto simp: stop_section_def Let_def split: if_splits option.splits)
    then show ?thesis using q assms(2) st StopWaits by auto
  next
    case StopReturns
    then have "s = ?q \<or> s = show_stopped ?q"
      using st by (auto simp: stop_section_def Let_def split: if_splits option.splits)
    then show ?thesis using q q' assms(2) st StopReturns by auto
  qed
qed

lemma inv_joined:
  assumes "lifecycle_inv l" and "lifecycle_step Joined l = Some l'"
  shows "lifecycle_inv l'"
proof -
  obtain w k where j: "l_join l = Some (w, k)" "w \<notin> set (l_live l)"
    "l' = l\<lparr>l_impl := (case k of ByStart \<Rightarrow> start_joined | ByStop \<Rightarrow> stop_joined) (l_impl l), l_join := None\<rparr>"
    using assms(2) by (auto split: option.splits if_splits)
  then have "c_worker (l_impl l) = None" "set (l_live l) \<subseteq> {w}"
    using assms(1) by (auto simp: lifecycle_inv_def owner_inv_def)
  then have o: "c_worker (l_impl l) = None" "l_live l = []"
    using j(2) by (auto simp: subset_singleton_iff)
  then have ex: "c_worker_exited (l_impl l)" using assms(1) by (auto simp: lifecycle_inv_def)
  note sh = worker_ops_same_owner(4) [of "l_impl l"] worker_ops_exited(3) [of "l_impl l"]
    worker_ops_delivered(4) [of "l_impl l"] worker_ops_fault_shown(4) [of "l_impl l"]
  show ?thesis
    using assms(1) j o ex sh
    by (cases k) (auto simp: lifecycle_inv_def owner_inv_def start_joined_def stop_joined_def same_owner_def
        fault_shown_in_def impl_faulted_def)
qed

lemma inv_worker:
  assumes "lifecycle_inv l" and "lifecycle_step a l = Some l'"
    and "a = Deliver w P smp \<or> a = Fault w b c m \<or> a = Finish w os b"
  shows "lifecycle_inv l'"
proof -
  have i: "lifecycle_inv (l\<lparr>l_impl := record_delivery P smp (l_impl l), l_delivered := True\<rparr>)"
    by (rule inv_same_owner [OF assms(1)])
      (simp_all add: worker_ops_same_owner worker_ops_exited worker_ops_delivered worker_ops_fault_shown
        inv_fault_shown [OF assms(1)], simp add: record_delivery_def Let_def)
  have j: "lifecycle_inv (l\<lparr>l_impl := set_fault b c m (l_impl l)\<rparr>)"
    "lifecycle_inv (l\<lparr>l_impl := finish_session os b (l_impl l)\<rparr>)"
    by (rule inv_keep [OF assms(1)];
        simp add: worker_ops_same_owner worker_ops_exited worker_ops_delivered worker_ops_fault_shown
          finish_session_props inv_fault_shown [OF assms(1)])+
  show ?thesis using assms(2,3) i j by (auto split: if_splits)
qed

lemma inv_exit:
  assumes "lifecycle_inv l" and "lifecycle_step (Exit w) l = Some l'"
  shows "lifecycle_inv l'"
proof -
  have l': "l' = l\<lparr>l_live := remove1 w (l_live l)\<rparr>" "c_worker_exited (l_impl l)"
    using assms(2) by (auto split: if_splits)
  have "set (remove1 w (l_live l)) \<subseteq> set (l_live l)" by (rule set_remove1_subset)
  then show ?thesis
    using assms(1) l' by (auto simp: lifecycle_inv_def owner_inv_def split: option.splits)
qed

lemma lifecycle_step_inv:
  assumes "lifecycle_inv l" and "lifecycle_step a l = Some l'"
  shows "lifecycle_inv l'"
proof (cases a)
  case (DoStart self cb created b)
  then show ?thesis using inv_start [OF assms(1)] assms(2) by blast
next
  case (DoStop os self)
  then show ?thesis using inv_stop [OF assms(1)] assms(2) by blast
next
  case Joined
  then show ?thesis using inv_joined [OF assms(1)] assms(2) by blast
next
  case (Exit w)
  then show ?thesis using inv_exit [OF assms(1)] assms(2) by blast
qed (use inv_worker [OF assms] in blast)+

lemma lifecycle_init_inv: "lifecycle_init l \<Longrightarrow> lifecycle_inv l"
  by (simp add: lifecycle_init_def lifecycle_inv_def owner_inv_def fault_shown_in_def)

interpretation client: invariant_system lifecycle_step lifecycle_init lifecycle_inv
  by unfold_locales (fact lifecycle_init_inv, fact lifecycle_step_inv)


text \<open>A newly constructed client is an initial state.\<close>

lemma impl_new_init:
  assumes "impl_new P clock cfg once_result = Inr s"
  shows "lifecycle_init \<lparr>l_impl = s, l_live = [], l_join = None, l_delivered = False\<rparr>"
  using assms
  by (auto simp: impl_new_def res_bind_Inr_iff lifecycle_init_def impl_faulted_def latch_faulted_def latch_init_def)

definition example_lifecycle :: lifecycle where
  "example_lifecycle =
     \<lparr>l_impl = example_impl\<lparr>c_worker := None, c_active_worker_id := None, c_worker_exited := True,
                            c_session_started := False, c_generation := 0, c_transport := udp_init\<rparr>,
      l_live = [], l_join = None, l_delivered = False\<rparr>"

lemma example_lifecycle_init: "lifecycle_init example_lifecycle"
  by (simp add: lifecycle_init_def example_lifecycle_def example_impl_def impl_faulted_def latch_faulted_def latch_init_def)

lemma example_started:
  "\<exists>l. run_steps lifecycle_step [DoStart 0 (Some 5) (Inr 1) True] example_lifecycle = Some l \<and>
     l_live l = [1] \<and> c_generation (l_impl l) = 1 \<and> \<not> c_worker_exited (l_impl l)"
  by (simp add: example_lifecycle_def start_section_def example_impl_def prepare_start_def)

section \<open>Properties\<close>

text \<open>
  C24. A start that fails changes nothing. When the thread cannot be created, the exception is passed
  on and the client is exactly as before: flags, callback, health, latest sample, counters,
  generation and a latched fault with its message. It needs the state in which a latched fault is
  shown, which every operation keeps.
\<close>

theorem failed_start_restores_state:
  assumes "fault_shown_in s" and "c_worker s = None" and "\<not> c_joining s" and "c_worker_exited s"
  shows "start_section self callback (Inl e) True s = (StartThrows e, s)"
  using assms roll_back_id [OF assms(1)] by (simp add: start_section_def Let_def)

theorem failed_start_restores_state_witness:
  "start_section 0 (Some 5) (Inl (RuntimeError ''no thread'')) True
     (set_fault True FaultTimeout ''late'' (l_impl example_lifecycle)) =
     (StartThrows (RuntimeError ''no thread''), set_fault True FaultTimeout ''late'' (l_impl example_lifecycle))"
  by (rule failed_start_restores_state)
    (simp_all add: example_lifecycle_def example_impl_def fault_shown_in_def set_fault_def publish_def latch_init_def)

text \<open>
  One worker at a time. Whatever threads start, stop, deliver, fault and finish in whatever order,
  at most one worker thread is alive; while one is alive its id is the recorded one and either the
  client still owns it or exactly one join is pending for it; a running worker is never replaced;
  and a latched fault is always shown.
\<close>

lemma single_worker:
  assumes "lifecycle_init l0" and "run_steps lifecycle_step as l0 = Some l"
  shows "length (l_live l) \<le> 1 \<and>
    (\<forall>w \<in> set (l_live l). c_active_worker_id (l_impl l) = Some w \<and>
       (c_worker (l_impl l) = Some w \<and> l_join l = None \<or>
        c_worker (l_impl l) = None \<and> (\<exists>k. l_join l = Some (w, k)))) \<and>
    (\<not> c_worker_exited (l_impl l) \<longrightarrow> l_live l \<noteq> []) \<and>
    (c_joining (l_impl l) \<longleftrightarrow> l_join l \<noteq> None) \<and>
    (impl_faulted (l_impl l) \<longrightarrow> h_state (c_health (l_impl l)) = Faulted)"
proof -
  have i: "lifecycle_inv l" using client.inv_reachable [OF assms] .
  then have "\<exists>w. set (l_live l) \<subseteq> {w}"
    by (auto simp: lifecycle_inv_def owner_inv_def split: option.splits)
  then obtain w where "set (l_live l) \<subseteq> {w}" by blast
  moreover have "distinct (l_live l)" using i by (simp add: lifecycle_inv_def)
  ultimately have "length (l_live l) \<le> 1"
    using distinct_card [of "l_live l"] card_mono [of "{w}" "set (l_live l)"] by simp
  then show ?thesis
    using i by (auto simp: lifecycle_inv_def owner_inv_def fault_shown_in_def split: option.splits)
qed

text \<open>
  No thread joins itself, and a stop is safe to call anywhere. A section that decides to join a
  worker is never run by that worker while it can still run user code; called from the worker,
  \<open>stop\<close> records the request and returns and \<open>start\<close> refuses; and in every case the request is
  recorded: the flag is set, the transport is shut down and the stop datagram is sent once for an
  open session.
\<close>

lemma stop_never_joins_itself:
  assumes "stop_section os self s = (r, s')"
  shows "(\<forall>w. r = StopJoins w \<longrightarrow> c_worker s = Some w \<and>
       (c_active_worker_id s = Some w \<longrightarrow> w = self \<longrightarrow> c_worker_exited s)) \<and>
    (called_from_worker_thread self s \<longrightarrow> r = StopReturns \<and>
       (\<forall>cb created b. start_section self cb created b s = (StartThrows (LogicError ''client is already running''), s))) \<and>
    c_stopping s' \<and> \<not> c_session_started s' \<and> shutdown_requested (c_transport s') \<and>
    snd (request_stop os (fst (request_stop os s))) = []"
proof -
  have t: "shutdown_requested (transport_shutdown os t)" for t
    by (cases os) (simp_all add: posix_shutdown_def win_shutdown_def)
  show ?thesis
    using assms t
    by (auto simp: stop_section_def request_stop_def Let_def called_from_worker_thread_def start_section_def
        show_stopped_def split: if_splits option.splits)
qed

text \<open>
  C25. Waiting for the first sample is about the current run. However other threads start, stop and
  deliver while it waits, a call whose time runs out at some wake-up has returned. It answers from one
  of the states it saw: true exactly when a sample was delivered since the last successful start, and
  no start happened since the call began. It answers false before the first start, and otherwise
  only after another start, in a state that is stopping or faulted, or when its time ran out.
\<close>

theorem first_sample_of_this_run:
  assumes "lifecycle_init l0" and "run_steps lifecycle_step as l0 = Some entry"
    and "\<forall>l \<in> snd ` set sights. \<exists>bs. run_steps lifecycle_step bs entry = Some l"
    and "checked_deadline P now timeout = Inr deadline"
    and "w = wait_for_first_sample P now timeout (map (\<lambda>(expired, l). (expired, \<lambda>_. l_impl l)) sights) (l_impl entry)"
  shows "(list_ex fst sights \<longrightarrow> w \<noteq> None) \<and>
    (\<forall>r. w = Some r \<longrightarrow> (\<exists>woken \<in> insert entry (snd ` set sights).
       r = Inr (c_generation (l_impl entry) \<noteq> 0 \<and> c_generation (l_impl woken) = c_generation (l_impl entry) \<and>
                l_delivered woken) \<and>
       (r = Inr False \<longrightarrow>
          c_generation (l_impl entry) = 0 \<or> c_generation (l_impl woken) \<noteq> c_generation (l_impl entry) \<or>
          c_stopping (l_impl woken) \<or> impl_faulted (l_impl woken) \<or> list_ex fst sights)))"
proof (cases "c_generation (l_impl entry) = 0")
  case True
  then show ?thesis using assms(4,5) by (auto simp: wait_for_first_sample_def intro!: bexI [of _ entry])
next
  case False
  let ?g = "c_generation (l_impl entry)"
  let ?ws = "map (\<lambda>(expired, l). (expired, \<lambda>_. l_impl l)) sights"
  have inv: "lifecycle_inv entry" using client.inv_reachable [OF assms(1,2)] .
  have x: "list_ex fst ?ws = list_ex fst sights" by (induction sights) auto
  show ?thesis
  proof (cases "wait_for (first_sample_awake ?g) ?ws (l_impl entry)")
    case None
    then show ?thesis
      using False assms(4,5) x wait_for_ends [of ?ws "first_sample_awake ?g" "l_impl entry"]
      by (auto simp: wait_for_first_sample_def Let_def)
  next
    case (Some bs)
    then obtain b s where s: "wait_for (first_sample_awake ?g) ?ws (l_impl entry) = Some (b, s)" by (cases bs) simp
    obtain woken where wk: "woken \<in> insert entry (snd ` set sights)" "s = l_impl woken"
      using wait_for_seen [OF s] by blast
    have "lifecycle_inv woken" using wk(1) assms(3) inv client.inv_run [OF inv] by blast
    moreover have "w = Some (if c_generation s \<noteq> ?g then Inr False else Inr (c_delivered_generation s = ?g))"
      using False assms(4,5) s by (simp add: wait_for_first_sample_def Let_def)
    moreover have "first_sample_awake ?g s \<or> list_ex fst sights" using wait_for_result [OF s] x by auto
    ultimately show ?thesis
      using False wk by (intro conjI impI allI bexI [OF _ wk(1)]) (auto simp: lifecycle_inv_def first_sample_awake_def)
  qed
qed

theorem first_sample_of_this_run_witness:
  "\<exists>entry woken. run_steps lifecycle_step [DoStart 0 (Some 5) (Inr 1) True] example_lifecycle = Some entry \<and>
     run_steps lifecycle_step
       [Deliver 1 linux_x86_64 (make_sample linux_x86_64 example_record 5 example_configuration)] entry = Some woken \<and>
     wait_for_first_sample linux_x86_64 0 (Fin 1) [(True, \<lambda>_. l_impl entry)] (l_impl entry) = Some (Inr False) \<and>
     wait_for_first_sample linux_x86_64 0 (Fin 1) [(True, \<lambda>_. l_impl woken)] (l_impl woken) = Some (Inr True)"
proof -
  let ?smp = "make_sample linux_x86_64 example_record 5 example_configuration"
  obtain entry where e: "run_steps lifecycle_step [DoStart 0 (Some 5) (Inr 1) True] example_lifecycle = Some entry"
    "l_live entry = [1]" "c_generation (l_impl entry) = 1" "\<not> c_worker_exited (l_impl entry)" "\<not> l_delivered entry"
    by (simp add: example_lifecycle_def start_section_def example_impl_def prepare_start_def)
  obtain woken where w: "run_steps lifecycle_step [Deliver 1 linux_x86_64 ?smp] entry = Some woken"
    "l_delivered woken" "c_generation (l_impl woken) = 1"
    using e by (simp add: record_delivery_def Let_def)
  have ew: "run_steps lifecycle_step ([DoStart 0 (Some 5) (Inr 1) True] @ [Deliver 1 linux_x86_64 ?smp])
      example_lifecycle = Some woken"
    unfolding run_steps_append using e(1) w(1) by simp
  have n: "\<forall>l \<in> snd ` set [(True, x)]. \<exists>bs. run_steps lifecycle_step bs x = Some l" for x
    using run_steps.simps(1) [of lifecycle_step x] by (auto simp del: run_steps.simps)
  obtain k where "checked_duration linux_x86_64 (Fin 1) = Inr k" "k \<le> 2 ^ 49"
    using checked_duration_ordinary [of linux_x86_64 1] by auto
  then have d: "checked_deadline linux_x86_64 0 (Fin 1) = Inr k"
    by (simp add: checked_deadline_def steady_max_def)
  show ?thesis
    using first_sample_of_this_run [OF example_lifecycle_init ew n d refl]
      first_sample_of_this_run [OF example_lifecycle_init e(1) n d refl] e w by auto
qed

end
