(* ===== verification/Sample_Queue.thy ===== *)
theory Sample_Queue
  imports Types
begin

text \<open>
  The bounded queue between the worker's callback and the Python reader
  (\<open>bindings/python/sample_queue.hpp\<close> and \<open>sample_queue.cpp\<close>). Every critical section under the mutex
  is one step; a wait on the condition variable is the library's loop over the wake-ups, with what
  other threads do to the queue while the lock is released as an argument. The laws of a queue that
  drops its oldest element when it is full are the locale \<open>fifo_queue\<close>, interpreted here on
  \<open>push\<close> and \<open>read_for\<close>, and for the client facade on its unbounded list of pending
  destructions. The lemmas show that nothing is lost without being counted, that order is kept, that a
  reader from before a close never sees a later sample, and that a read ends.
\<close>

section \<open>State\<close>

datatype read_status = ReadSample | ReadTimeout | ReadClosed

record read_result =
  rr_status :: read_status
  rr_sample :: "sample option"

record sample_queue =
  q_capacity :: nat
  q_samples :: "sample list"
  q_dropped_count :: u64
  q_close_generation :: u64
  q_closed :: bool

section \<open>Operations\<close>

definition queue_new :: "nat \<Rightarrow> sample_queue res" where
  "queue_new capacity =
     (if capacity = 0 then Inl (InvalidArgument ''sample queue capacity must be greater than zero'')
      else Inr \<lparr>q_capacity = capacity, q_samples = [], q_dropped_count = 0, q_close_generation = 0,
                q_closed = False\<rparr>)"

definition push :: "sample \<Rightarrow> sample_queue \<Rightarrow> sample_queue" where
  "push smp q =
     (let q = (if length (q_samples q) = q_capacity q
               then q\<lparr>q_samples := tl (q_samples q), q_dropped_count := q_dropped_count q + 1\<rparr> else q) in
      q\<lparr>q_samples := q_samples q @ [smp]\<rparr>)"

definition read_ready :: "u64 \<Rightarrow> sample_queue \<Rightarrow> bool" where
  "read_ready generation q \<longleftrightarrow>
     q_closed q \<or> q_close_generation q \<noteq> generation \<or> q_samples q \<noteq> []"

text \<open>The part of \<open>read_for_locked\<close> after the wait.\<close>

definition take_sample :: "u64 \<Rightarrow> bool \<Rightarrow> sample_queue \<Rightarrow> read_result \<times> sample_queue" where
  "take_sample generation ready q =
     (if \<not> ready then (\<lparr>rr_status = ReadTimeout, rr_sample = None\<rparr>, q)
      else if q_closed q \<or> q_close_generation q \<noteq> generation
      then (\<lparr>rr_status = ReadClosed, rr_sample = None\<rparr>, q)
      else (\<lparr>rr_status = ReadSample, rr_sample = Some (hd (q_samples q))\<rparr>,
            q\<lparr>q_samples := tl (q_samples q)\<rparr>))"

definition read_for_locked ::
  "u64 \<Rightarrow> sample_queue wake list \<Rightarrow> sample_queue \<Rightarrow> (read_result \<times> sample_queue) option" where
  "read_for_locked generation ws q =
     (case wait_for (read_ready generation) ws q of
        None \<Rightarrow> None
      | Some (ready, q') \<Rightarrow> Some (take_sample generation ready q'))"

text \<open>The overload without a generation uses the one in force when the read begins.\<close>

definition read_for :: "sample_queue wake list \<Rightarrow> sample_queue \<Rightarrow> (read_result \<times> sample_queue) option" where
  "read_for ws q = read_for_locked (q_close_generation q) ws q"

text \<open>The overload that is given the generation.\<close>

definition read_for_generation ::
  "u64 \<Rightarrow> sample_queue wake list \<Rightarrow> sample_queue \<Rightarrow> (read_result \<times> sample_queue) option" where
  [simp]: "read_for_generation generation ws q = read_for_locked generation ws q"

definition close :: "sample_queue \<Rightarrow> sample_queue" where
  "close q = q\<lparr>q_closed := True, q_close_generation := q_close_generation q + 1\<rparr>"

definition reset :: "sample_queue \<Rightarrow> sample_queue" where
  "reset q = q\<lparr>q_samples := [], q_dropped_count := 0, q_closed := False\<rparr>"

definition queue_generation :: "sample_queue \<Rightarrow> u64" where
  "queue_generation q = q_close_generation q"

definition dropped_count :: "sample_queue \<Rightarrow> u64" where
  "dropped_count q = q_dropped_count q"

text \<open>What other threads do: any sequence of completed operations.\<close>

datatype queue_op = Push sample | Take u64 | Close | Reset

fun queue_step :: "queue_op \<Rightarrow> sample_queue \<Rightarrow> sample_queue" where
  "queue_step (Push smp) q = push smp q"
| "queue_step (Take g) q = snd (take_sample g (read_ready g q) q)"
| "queue_step Close q = close q"
| "queue_step Reset q = reset q"

definition queue_ops :: "queue_op list \<Rightarrow> sample_queue \<Rightarrow> sample_queue" where
  "queue_ops ops q = fold queue_step ops q"

definition queue_ok :: "sample_queue \<Rightarrow> bool" where
  "queue_ok q \<longleftrightarrow> 0 < q_capacity q \<and> length (q_samples q) \<le> q_capacity q"

text \<open>A read that finds a sample or runs out of its time at once: the sample it returns, if any, and the queue.\<close>

definition read_now :: "sample_queue \<Rightarrow> (sample \<times> sample_queue) option" where
  "read_now q =
     (case read_for [(True, \<lambda>q. q)] q of
        None \<Rightarrow> None
      | Some (r, q') \<Rightarrow> map_option (\<lambda>smp. (smp, q')) (rr_sample r))"

section \<open>Queues that drop the oldest element\<close>

text \<open>What happens to a queue between two resets, and the fate of each element that left it.\<close>

datatype 'a queue_event = Put 'a | Get
datatype fate = Dropped | Fetched

text \<open>The reference: a list with an optional bound.\<close>

definition spec_put :: "nat option \<Rightarrow> 'a \<Rightarrow> 'a list \<Rightarrow> 'a list" where
  "spec_put cap x xs = (if cap = Some (length xs) then tl xs else xs) @ [x]"

text \<open>A run of events: the queue and the elements that left it, with their fate.\<close>

fun history ::
  "('a \<Rightarrow> 'q \<Rightarrow> 'q) \<Rightarrow> ('q \<Rightarrow> ('a \<times> 'q) option) \<Rightarrow> ('q \<Rightarrow> 'a list) \<Rightarrow> ('q \<Rightarrow> nat option) \<Rightarrow>
     'a queue_event list \<Rightarrow> 'q \<Rightarrow> ('a \<times> fate) list \<times> 'q" where
  "history put get contents cap [] q = ([], q)"
| "history put get contents cap (Put x # es) q =
     (let gone = (if cap q = Some (length (contents q)) then [(hd (contents q), Dropped)] else []);
          (rest, q') = history put get contents cap es (put x q) in (gone @ rest, q'))"
| "history put get contents cap (Get # es) q =
     (case get q of
        None \<Rightarrow> history put get contents cap es q
      | Some (x, q1) \<Rightarrow> let (rest, q') = history put get contents cap es q1 in ((x, Fetched) # rest, q'))"

definition puts :: "'a queue_event list \<Rightarrow> 'a list" where
  "puts es = concat (map (\<lambda>e. case e of Put x \<Rightarrow> [x] | Get \<Rightarrow> []) es)"

lemma puts_simps [simp]: "puts [] = []" "puts (Put x # es) = x # puts es" "puts (Get # es) = puts es"
  by (simp_all add: puts_def)

locale fifo_queue =
  fixes put :: "'a \<Rightarrow> 'q \<Rightarrow> 'q"
    and get :: "'q \<Rightarrow> ('a \<times> 'q) option"
    and contents :: "'q \<Rightarrow> 'a list"
    and cap :: "'q \<Rightarrow> nat option"
    and valid :: "'q \<Rightarrow> bool"
  assumes put_contents: "valid q \<Longrightarrow> contents (put x q) = spec_put (cap q) x (contents q)"
    and put_cap: "valid q \<Longrightarrow> cap (put x q) = cap q"
    and put_valid: "valid q \<Longrightarrow> valid (put x q)"
    and get_contents: "valid q \<Longrightarrow> get q = Some (x, q') \<Longrightarrow> contents q = x # contents q'"
    and get_cap: "valid q \<Longrightarrow> get q = Some (x, q') \<Longrightarrow> cap q' = cap q"
    and get_valid: "valid q \<Longrightarrow> get q = Some (x, q') \<Longrightarrow> valid q'"
    and get_none: "valid q \<Longrightarrow> get q = None \<Longrightarrow> contents q = []"
    and cap_pos: "valid q \<Longrightarrow> cap q \<noteq> Some 0"
    and cap_holds: "valid q \<Longrightarrow> cap q = Some n \<Longrightarrow> length (contents q) \<le> n"
begin

text \<open>Everything put is gone, in order, or still there, in order.\<close>

lemma history_conserves:
  assumes "valid q" and "history put get contents cap es q = (out, q')"
  shows "contents q @ puts es = map fst out @ contents q' \<and> valid q' \<and> cap q' = cap q"
  using assms
proof (induction es arbitrary: q out)
  case (Cons e es)
  show ?case
  proof (cases e)
    case (Put x)
    obtain rest where r: "history put get contents cap es (put x q) = (rest, q')"
      "out = (if cap q = Some (length (contents q)) then [(hd (contents q), Dropped)] else []) @ rest"
      using Cons.prems(2) Put by (auto simp: Let_def split: prod.splits)
    have "contents q = hd (contents q) # tl (contents q)" if "cap q = Some (length (contents q))"
      using that cap_pos [OF Cons.prems(1)] by (cases "contents q") auto
    then show ?thesis
      using Cons.IH [OF put_valid [OF Cons.prems(1)] r(1)] r(2) Put Cons.prems(1)
      by (cases "contents q") (auto simp: put_contents put_cap spec_put_def)
  next
    case Get
    show ?thesis
    proof (cases "get q")
      case (Some p)
      then obtain x q1 where g: "get q = Some (x, q1)" by (cases p) auto
      then obtain rest where r: "history put get contents cap es q1 = (rest, q')" "out = (x, Fetched) # rest"
        using Cons.prems(2) Get by (auto split: prod.splits)
      show ?thesis
        using Cons.IH [OF get_valid [OF Cons.prems(1) g] r(1)] r(2) g Get
          get_contents [OF Cons.prems(1) g] get_cap [OF Cons.prems(1) g] by simp
    qed (use Cons Get in auto)
  qed
qed simp

text \<open>With no reader the queue holds the last elements put, as many as fit.\<close>

lemma put_all_last:
  assumes "valid q" and "cap q = Some n"
  shows "contents (fold put xs q) =
     drop (length (contents q) + length xs - n) (contents q @ xs) \<and> valid (fold put xs q) \<and> cap (fold put xs q) = Some n"
  using assms
proof (induction xs arbitrary: q)
  case (Cons x xs)
  have c: "contents (put x q) = spec_put (Some n) x (contents q)"
    using Cons.prems put_contents by simp
  have n: "length (contents q) \<le> n" "0 < n"
    using Cons.prems cap_holds cap_pos by fastforce+
  have "contents (fold put xs (put x q)) =
      drop (length (contents (put x q)) + length xs - n) (contents (put x q) @ xs) \<and>
      valid (fold put xs (put x q)) \<and> cap (fold put xs (put x q)) = Some n"
    using Cons.IH put_valid put_cap Cons.prems by simp
  moreover have "drop (length (contents (put x q)) + length xs - n) (contents (put x q) @ xs) =
      drop (length (contents q) + length (x # xs) - n) (contents q @ x # xs)"
  proof (cases "length (contents q) = n")
    case True
    then obtain y ys where "contents q = y # ys" using n by (cases "contents q") auto
    then show ?thesis using c True by (simp add: spec_put_def)
  qed (use c n in \<open>simp add: spec_put_def\<close>)
  ultimately show ?case by simp
next
  case Nil
  then show ?case using cap_holds [OF Nil] by simp
qed

end

section \<open>The sample queue is one\<close>

lemma push_samples: "q_samples (push smp q) = spec_put (Some (q_capacity q)) smp (q_samples q)"
  by (auto simp: push_def spec_put_def Let_def)

lemma push_fields [simp]:
  "q_capacity (push smp q) = q_capacity q" "q_closed (push smp q) = q_closed q"
  "q_close_generation (push smp q) = q_close_generation q"
  "q_dropped_count (push smp q) =
     q_dropped_count q + (if length (q_samples q) = q_capacity q then 1 else 0)"
  by (simp_all add: push_def Let_def)

lemma push_ok: "queue_ok q \<Longrightarrow> queue_ok (push smp q)"
  by (auto simp: queue_ok_def push_samples spec_put_def)

text \<open>An open queue, as the readers and the callback use it between a start and a stop.\<close>

definition open_queue :: "sample_queue \<Rightarrow> bool" where
  "open_queue q \<longleftrightarrow> queue_ok q \<and> \<not> q_closed q"

lemma read_for_open:
  "\<not> q_closed q \<Longrightarrow> read_for [(True, \<lambda>q. q)] q = Some (case q_samples q of
        [] \<Rightarrow> (\<lparr>rr_status = ReadTimeout, rr_sample = None\<rparr>, q)
      | smp # rest \<Rightarrow> (\<lparr>rr_status = ReadSample, rr_sample = Some smp\<rparr>, q\<lparr>q_samples := rest\<rparr>))"
  by (auto simp: read_for_def read_for_locked_def take_sample_def read_ready_def split: list.splits)

lemma read_now_cases:
  "read_now q = (if q_closed q \<or> q_samples q = [] then None
     else Some (hd (q_samples q), q\<lparr>q_samples := tl (q_samples q)\<rparr>))"
  by (auto simp: read_now_def read_for_def read_for_locked_def take_sample_def read_ready_def)

interpretation sq: fifo_queue push read_now q_samples "\<lambda>q. Some (q_capacity q)" open_queue
proof unfold_locales
  fix q :: sample_queue and x :: sample and q'
  assume o: "open_queue q" and g: "read_now q = Some (x, q')"
  then have "q_samples q \<noteq> []" "x = hd (q_samples q)" "q' = q\<lparr>q_samples := tl (q_samples q)\<rparr>"
    by (auto simp: read_now_cases split: if_splits)
  then show "q_samples q = x # q_samples q'" "Some (q_capacity q') = Some (q_capacity q)" "open_queue q'"
    using o by (auto simp: open_queue_def queue_ok_def)
qed (auto simp: open_queue_def queue_ok_def push_samples read_now_cases push_ok spec_put_def split: if_splits)

text \<open>The counter of dropped samples, modulo its width.\<close>

definition dropped_in :: "('a \<times> fate) list \<Rightarrow> nat" where
  "dropped_in gone = length (filter (\<lambda>p. snd p = Dropped) gone)"

lemma history_dropped_count:
  assumes "history push read_now q_samples (\<lambda>q. Some (q_capacity q)) es q = (gone, q')"
  shows "q_dropped_count q' = q_dropped_count q + of_nat (dropped_in gone)"
  using assms
proof (induction es arbitrary: q gone)
  case (Cons e es)
  show ?case
  proof (cases e)
    case (Put x)
    then obtain rest where "history push read_now q_samples (\<lambda>q. Some (q_capacity q)) es (push x q) = (rest, q')"
      "gone = (if length (q_samples q) = q_capacity q then [(hd (q_samples q), Dropped)] else []) @ rest"
      using Cons.prems by (auto simp: Let_def split: prod.splits)
    then show ?thesis using Cons.IH by (auto simp: dropped_in_def)
  next
    case Get
    then show ?thesis
      using Cons by (auto simp: dropped_in_def read_now_cases split: if_splits prod.splits)
  qed
qed (simp add: dropped_in_def)

lemma push_all_dropped_count:
  assumes "queue_ok q"
  shows "q_dropped_count (fold push xs q) =
     q_dropped_count q + of_nat (length (q_samples q) + length xs - q_capacity q)"
  using assms
proof (induction xs arbitrary: q)
  case (Cons x xs)
  have l: "length (q_samples (push x q)) = min (q_capacity q) (length (q_samples q) + 1)"
    using Cons.prems by (auto simp: push_samples spec_put_def queue_ok_def)
  show ?case
  proof (cases "length (q_samples q) = q_capacity q")
    case True
    then show ?thesis using Cons.IH [OF push_ok [OF Cons.prems]] l by simp
  next
    case False
    then have "min (q_capacity q) (length (q_samples q) + 1) = length (q_samples q) + 1"
      using Cons.prems by (simp add: queue_ok_def)
    then show ?thesis using Cons.IH [OF push_ok [OF Cons.prems]] l False by simp
  qed
qed (simp add: queue_ok_def)

text \<open>The generation counts the closes.\<close>

fun closes :: "queue_op list \<Rightarrow> nat" where
  "closes [] = 0"
| "closes (Close # ops) = Suc (closes ops)"
| "closes (_ # ops) = closes ops"

lemma take_sample_fields [simp]:
  "q_close_generation (snd (take_sample g b q)) = q_close_generation q"
  "q_capacity (snd (take_sample g b q)) = q_capacity q" "q_closed (snd (take_sample g b q)) = q_closed q"
  by (simp_all add: take_sample_def)

lemma queue_ops_simps [simp]:
  "queue_ops [] q = q" "queue_ops (a # ops) q = queue_ops ops (queue_step a q)"
  by (simp_all add: queue_ops_def)

lemma queue_ops_generation: "q_close_generation (queue_ops ops q) = q_close_generation q + of_nat (closes ops)"
  by (induction ops arbitrary: q rule: closes.induct)
    (simp_all add: close_def reset_def)

lemma queue_step_ok: "queue_ok q \<Longrightarrow> queue_ok (queue_step a q)"
  by (cases a) (simp_all add: push_ok, auto simp: take_sample_def close_def reset_def queue_ok_def)

lemma stale_generation:
  assumes "0 < k" and "k < 2 ^ 64"
  shows "(of_nat k :: u64) \<noteq> 0"
proof
  assume "(of_nat k :: u64) = 0"
  then have "unat (of_nat k :: u64) = 0" by simp
  then show False using assms by (simp add: unat_of_nat)
qed

lemma read_for_ends: "list_ex fst ws \<Longrightarrow> \<exists>r q'. read_for_locked g ws q = Some (r, q')"
  using wait_for_ends [of ws "read_ready g" q] by (auto simp: read_for_locked_def)

section \<open>Properties\<close>

text \<open>
  C11. Nothing gets lost unaccounted. Over any sequence of \<open>push\<close> and \<open>read_for\<close> on an open queue, the
  samples that were there and the samples pushed are, in order, the samples that left followed by
  the samples that remain; each of those that left was fetched by a read or dropped as the oldest of
  a full queue, the drop counter grew by exactly the number of the latter, and the capacity is never
  exceeded. The next \<open>read_for\<close> takes the oldest sample that remains, and times out only if none does.
  (A read that waits counts as one at the moment its wait ends.)
\<close>

theorem queue_conserves_samples:
  assumes "open_queue q"
    and "history push read_now q_samples (\<lambda>q. Some (q_capacity q)) es q = (gone, q')"
  shows "q_samples q @ puts es = map fst gone @ q_samples q' \<and>
    dropped_count q' = dropped_count q + of_nat (dropped_in gone) \<and>
    length (q_samples q') \<le> q_capacity q \<and>
    read_for [(True, \<lambda>q. q)] q' = Some (case q_samples q' of
        [] \<Rightarrow> (\<lparr>rr_status = ReadTimeout, rr_sample = None\<rparr>, q')
      | smp # rest \<Rightarrow> (\<lparr>rr_status = ReadSample, rr_sample = Some smp\<rparr>, q'\<lparr>q_samples := rest\<rparr>))"
proof -
  have c: "q_samples q @ puts es = map fst gone @ q_samples q'" "open_queue q'" "q_capacity q' = q_capacity q"
    using sq.history_conserves [OF assms] by simp_all
  then show ?thesis
    using history_dropped_count [OF assms(2)] read_for_open [of q'] by (auto simp: open_queue_def queue_ok_def dropped_count_def)
qed

definition sample_numbered :: "u32 \<Rightarrow> sample" where
  "sample_numbered n = \<lparr>s_rdt_sequence = n, s_ft_sequence = n, s_status = 0, s_raw_wrench = [0, 0, 0, 0, 0, 0],
     s_force = [Fin 0, Fin 0, Fin 0], s_torque = [Fin 0, Fin 0, Fin 0], s_force_unit = Newton,
     s_torque_unit = NewtonMeter, s_configuration_revision = 1, s_received_at = 0\<rparr>"

definition queue_of_two :: sample_queue where
  "queue_of_two = \<lparr>q_capacity = 2, q_samples = [], q_dropped_count = 0, q_close_generation = 0, q_closed = False\<rparr>"

theorem queue_conserves_samples_witness:
  "\<exists>gone q'. history push read_now q_samples (\<lambda>q. Some (q_capacity q))
       [Put (sample_numbered 1), Put (sample_numbered 2), Put (sample_numbered 3), Get] queue_of_two = (gone, q') \<and>
     dropped_in gone = 1 \<and> dropped_count q' = 1 \<and> map s_rdt_sequence (map fst gone @ q_samples q') = [1, 2, 3]"
proof -
  let ?es = "[Put (sample_numbered 1), Put (sample_numbered 2), Put (sample_numbered 3), Get]"
  obtain gone q' where h: "history push read_now q_samples (\<lambda>q. Some (q_capacity q)) ?es queue_of_two = (gone, q')"
    "dropped_in gone = 1"
    by (simp add: queue_of_two_def push_def read_now_cases dropped_in_def)
  have o: "open_queue queue_of_two" by (simp add: open_queue_def queue_ok_def queue_of_two_def)
  have "q_samples queue_of_two @ puts ?es = map fst gone @ q_samples q'" "dropped_count q' = 1"
    using queue_conserves_samples [OF o h(1)] h(2) by (simp_all add: dropped_count_def queue_of_two_def)
  moreover have "map s_rdt_sequence (q_samples queue_of_two @ puts ?es) = [1, 2, 3]"
    by (simp add: queue_of_two_def sample_numbered_def)
  ultimately show ?thesis using h by metis
qed

text \<open>
  Without a reader the queue holds the newest samples. After any number of pushes on a new queue
  of capacity \<open>n\<close> it holds the last \<open>n\<close> of them in order, and the drop counter is the number of the
  others, modulo its 64 bits.
\<close>

lemma queue_keeps_newest:
  assumes "queue_new n = Inr q"
  shows "q_samples (fold push xs q) = drop (length xs - n) xs \<and>
    dropped_count (fold push xs q) = of_nat (length xs - n)"
proof -
  have q: "q_samples q = []" "q_capacity q = n" "open_queue q" "q_dropped_count q = 0"
    using assms by (auto simp: queue_new_def open_queue_def queue_ok_def split: if_splits)
  then show ?thesis
    using sq.put_all_last [of q n xs] push_all_dropped_count [of q xs]
    by (simp add: open_queue_def dropped_count_def)
qed

text \<open>
  A read from before a close never returns a later sample. Whatever operations follow the moment
  at which the reader took the generation, if they include a close (and fewer than \<open>2 ^ 64\<close>), the read
  answers Closed at once and leaves the queue alone, also when the queue was reset and filled again.
\<close>

lemma stale_read_is_closed:
  assumes "0 < closes ops" and "closes ops < 2 ^ 64"
  shows "read_for_locked (queue_generation q) ws (queue_ops ops q) =
    Some (\<lparr>rr_status = ReadClosed, rr_sample = None\<rparr>, queue_ops ops q)"
proof -
  have g: "q_close_generation (queue_ops ops q) \<noteq> queue_generation q"
    using stale_generation [OF assms] by (simp add: queue_ops_generation queue_generation_def)
  then have "read_ready (queue_generation q) (queue_ops ops q)" by (simp add: read_ready_def)
  then show ?thesis
    using g wait_for_ready [of "read_ready (queue_generation q)"]
    by (simp add: read_for_locked_def take_sample_def)
qed

text \<open>
  A read ends, and its answer is the truth. If the time runs out at some wake-up, the read has
  returned by then. It returns a sample only from an open queue of its generation, and then the oldest
  one, which it removes; it reports a time-out only if its time ran out and there was nothing to
  return; otherwise the queue is closed or its generation has changed.
\<close>

lemma read_for_outcome:
  "(list_ex fst ws \<longrightarrow> read_for_locked g ws q \<noteq> None) \<and>
   (\<forall>r q'. read_for_locked g ws q = Some (r, q') \<longrightarrow>
      (case rr_status r of
         ReadSample \<Rightarrow> \<exists>smp. rr_sample r = Some smp \<and> \<not> q_closed q' \<and> q_close_generation q' = g \<and>
           wait_for (read_ready g) ws q = Some (True, q'\<lparr>q_samples := smp # q_samples q'\<rparr>)
       | ReadTimeout \<Rightarrow> rr_sample r = None \<and> list_ex fst ws \<and> \<not> read_ready g q'
       | ReadClosed \<Rightarrow> rr_sample r = None \<and> (q_closed q' \<or> q_close_generation q' \<noteq> g)))"
proof -
  have a: "list_ex fst ws \<Longrightarrow> read_for_locked g ws q \<noteq> None"
    using read_for_ends by fastforce
  moreover
  { fix r q' assume r: "read_for_locked g ws q = Some (r, q')"
    then obtain b q1 where w: "wait_for (read_ready g) ws q = Some (b, q1)" "take_sample g b q1 = (r, q')"
      by (auto simp: read_for_locked_def split: option.splits)
    have "(case rr_status r of
         ReadSample \<Rightarrow> \<exists>smp. rr_sample r = Some smp \<and> \<not> q_closed q' \<and> q_close_generation q' = g \<and>
           wait_for (read_ready g) ws q = Some (True, q'\<lparr>q_samples := smp # q_samples q'\<rparr>)
       | ReadTimeout \<Rightarrow> rr_sample r = None \<and> list_ex fst ws \<and> \<not> read_ready g q'
       | ReadClosed \<Rightarrow> rr_sample r = None \<and> (q_closed q' \<or> q_close_generation q' \<noteq> g))"
      using wait_for_result [OF w(1)] w by (auto simp: take_sample_def read_ready_def split: if_splits) }
  ultimately show ?thesis by blast
qed

end
