(* ===== verification/Client_Facade.thy ===== *)
theory Client_Facade
  imports Client_Threads Sample_Queue
begin

text \<open>
  The calls as the user of the library makes them: the loops of \<open>start\<close> and \<open>stop\<close>
  (\<open>core/src/detail/client_impl.cpp\<close>) over the sections of \<open>Client_Lifecycle\<close>, and the object
  \<open>Client\<close> with its destructor and the deferred destruction it needs when the callback destroys its own
  client (\<open>core/src/client.cpp\<close>). The other methods of the facade forward to the operations of
  \<open>Client_Impl\<close> and \<open>Client_Lifecycle\<close>. A process with any number of clients is a transition system;
  the lemmas show that no implementation object is freed while a thread uses it, that deferred
  destructions happen in order and none is lost, and that a stop returns and a faulted client can be
  started again.
\<close>

section \<open>The loops of start and stop\<close>

text \<open>One turn: what other threads do before the section and during a join, and the new thread.\<close>

record start_turn =
  st_others :: "impl \<Rightarrow> impl"
  st_created :: "exn + nat"
  st_lock_ok :: bool
  st_join_others :: "impl \<Rightarrow> impl"

fun impl_start :: "nat \<Rightarrow> nat option \<Rightarrow> start_turn list \<Rightarrow> impl \<Rightarrow> unit res option \<times> impl" where
  "impl_start self callback [] s = (None, s)"
| "impl_start self callback (t # ts) s =
     (case start_section self callback (st_created t) (st_lock_ok t) (st_others t s) of
        (StartReturns, s') \<Rightarrow> (Some (Inr ()), s')
      | (StartThrows e, s') \<Rightarrow> (Some (Inl e), s')
      | (StartWaits, s') \<Rightarrow> impl_start self callback ts s'
      | (StartReaps _, s') \<Rightarrow> impl_start self callback ts (start_joined (st_join_others t s')))"

record stop_turn =
  sp_others :: "impl \<Rightarrow> impl"
  sp_join_others :: "impl \<Rightarrow> impl"

text \<open>Whether \<open>stop\<close> has returned, and the state.\<close>

fun impl_stop :: "os \<Rightarrow> nat \<Rightarrow> stop_turn list \<Rightarrow> impl \<Rightarrow> bool \<times> impl" where
  "impl_stop os self [] s = (False, s)"
| "impl_stop os self (t # ts) s =
     (case stop_section os self (sp_others t s) of
        (StopReturns, s') \<Rightarrow> (True, s')
      | (StopWaits, s') \<Rightarrow> impl_stop os self ts s'
      | (StopJoins _, s') \<Rightarrow> (True, stop_joined (sp_join_others t s')))"

section \<open>Deferred destruction\<close>

definition enqueue :: "'v \<Rightarrow> 'v list \<Rightarrow> 'v list" where
  "enqueue v pending = pending @ [v]"

text \<open>The destroyer's thread waits while nothing is pending.\<close>

fun destroyer_take :: "'v list \<Rightarrow> ('v \<times> 'v list) option" where
  "destroyer_take [] = None"
| "destroyer_take (v # pending) = Some (v, pending)"

interpretation dd: fifo_queue enqueue destroyer_take "\<lambda>pending. pending" "\<lambda>_. None" "\<lambda>_. True"
  by unfold_locales (auto simp: enqueue_def spec_put_def elim: destroyer_take.elims)

section \<open>The other methods of the facade\<close>

text \<open>The remaining methods of \<open>Client\<close> hand the call to the implementation object; they are unfolded everywhere.\<close>

definition client_start :: "nat \<Rightarrow> nat option \<Rightarrow> start_turn list \<Rightarrow> impl \<Rightarrow> unit res option \<times> impl" where
  [simp]: "client_start self callback ts s = impl_start self callback ts s"

definition client_stop :: "os \<Rightarrow> nat \<Rightarrow> stop_turn list \<Rightarrow> impl \<Rightarrow> bool \<times> impl" where
  [simp]: "client_stop os self ts s = impl_stop os self ts s"

definition client_bias :: "os \<Rightarrow> send_outcome \<Rightarrow> send_outcome \<Rightarrow> impl \<Rightarrow> unit res \<times> impl \<times> u8 list list" where
  [simp]: "client_bias os r1 r2 s = bias os r1 r2 s"

definition client_wait_for_first_sample ::
  "platform \<Rightarrow> time_point \<Rightarrow> fl \<Rightarrow> impl wake list \<Rightarrow> impl \<Rightarrow> bool res option" where
  [simp]: "client_wait_for_first_sample P now timeout ws s = wait_for_first_sample P now timeout ws s"

definition client_faulted :: "impl \<Rightarrow> bool" where
  [simp]: "client_faulted s = impl_faulted s"

definition client_fault_code :: "impl \<Rightarrow> fault_code" where
  [simp]: "client_fault_code s = impl_fault_code s"

definition client_health :: "platform \<Rightarrow> time_point \<Rightarrow> impl \<Rightarrow> health \<times> impl" where
  [simp]: "client_health P now s = impl_health P now s"

definition client_latest_sample :: "impl \<Rightarrow> sample option" where
  [simp]: "client_latest_sample s = latest_sample s"

section \<open>The process\<close>

text \<open>
  The implementation objects in memory by address, the addresses waiting for the destroyer, the thread
  that is destroying an object, and the destroyer's thread.
\<close>

record process =
  p_clients :: "nat \<rightharpoonup> lifecycle"
  p_pending :: "nat list"
  p_dying :: "nat \<rightharpoonup> nat"
  p_destroyer :: nat

definition owned :: "process \<Rightarrow> nat \<Rightarrow> bool" where
  "owned r p \<longleftrightarrow> p_clients r p \<noteq> None \<and> p_dying r p = None \<and> p \<notin> set (p_pending r)"

text \<open>The constructor.\<close>

definition client_new ::
  "platform \<Rightarrow> (nat \<Rightarrow> time_point) \<Rightarrow> config \<Rightarrow> bool option \<Rightarrow> nat \<Rightarrow> process \<Rightarrow> unit res \<times> process" where
  "client_new P clock cfg once_result p r =
     (case impl_new P clock cfg once_result of
        Inl e \<Rightarrow> (Inl e, r)
      | Inr s \<Rightarrow>
          (Inr (), r\<lparr>p_clients := (p_clients r)(p \<mapsto>
                      \<lparr>l_impl = s, l_live = [], l_join = None, l_delivered = False\<rparr>)\<rparr>))"

text \<open>
  The beginning of the destructor, run by the thread \<open>self\<close>: on the worker's own thread one section of
  \<open>stop\<close>, which returns, and the hand-over to the destroyer; otherwise the thread goes on to \<open>stop\<close>.
\<close>

definition client_destroy :: "os \<Rightarrow> nat \<Rightarrow> nat \<Rightarrow> lifecycle \<Rightarrow> process \<Rightarrow> process" where
  "client_destroy os self p l r =
     (if called_from_worker_thread self (l_impl l)
      then r\<lparr>p_clients := (p_clients r)(p \<mapsto> l\<lparr>l_impl := snd (stop_section os self (l_impl l))\<rparr>),
             p_pending := enqueue p (p_pending r)\<rparr>
      else r\<lparr>p_dying := (p_dying r)(p \<mapsto> self)\<rparr>)"

text \<open>The destroyer takes the oldest pending object and goes on to its \<open>stop\<close>.\<close>

definition destroyer_run :: "process \<Rightarrow> process option" where
  "destroyer_run r =
     (case destroyer_take (p_pending r) of
        None \<Rightarrow> None
      | Some (p, pending) \<Rightarrow>
          Some (r\<lparr>p_pending := pending, p_dying := (p_dying r)(p \<mapsto> p_destroyer r)\<rparr>))"

text \<open>
  A section of \<open>stop\<close> by the thread \<open>d\<close> that destroys the object. The last call of \<open>stop\<close> is the one in
  the destructor of \<open>Impl\<close>: when a section returns without a join, the object may be freed.
\<close>

definition destroy_section :: "os \<Rightarrow> nat \<Rightarrow> nat \<Rightarrow> lifecycle \<Rightarrow> process \<Rightarrow> process" where
  "destroy_section os d p l r =
     (case stop_section os d (l_impl l) of
        (StopReturns, s) \<Rightarrow> r\<lparr>p_clients := (p_clients r)(p := None), p_dying := (p_dying r)(p := None)\<rparr>
      | (StopWaits, s) \<Rightarrow> r\<lparr>p_clients := (p_clients r)(p \<mapsto> l\<lparr>l_impl := s\<rparr>)\<rparr>
      | (StopJoins w, s) \<Rightarrow>
          r\<lparr>p_clients := (p_clients r)(p \<mapsto> l\<lparr>l_impl := s, l_join := Some (w, ByStop)\<rparr>)\<rparr>)"

text \<open>
  The steps. \<open>start\<close> and \<open>stop\<close> are called on a client whose destructor has not begun: a call that
  overlaps the destructor is undefined in C++. No worker has the destroyer's thread id. The worker's
  own steps go on whatever happens to the facade.
\<close>

datatype process_action =
    Create nat platform "nat \<Rightarrow> time_point" config "bool option"
  | Use nat lifecycle_action
  | Destroy nat os nat
  | TakeDeferred
  | DestroySection nat os

fun allowed :: "process \<Rightarrow> nat \<Rightarrow> lifecycle_action \<Rightarrow> bool" where
  "allowed r p (DoStart self callback created lock_ok) = (owned r p \<and> created \<noteq> Inr (p_destroyer r))"
| "allowed r p (DoStop os self) = owned r p"
| "allowed r p _ = True"

fun process_step :: "process_action \<Rightarrow> process \<Rightarrow> process option" where
  "process_step (Create p P clock cfg once_result) r =
     (if p_clients r p = None then Some (snd (client_new P clock cfg once_result p r)) else None)"
| "process_step (Use p a) r =
     (case p_clients r p of
        None \<Rightarrow> None
      | Some l \<Rightarrow>
          if \<not> allowed r p a then None
          else case lifecycle_step a l of
            None \<Rightarrow> None
          | Some l' \<Rightarrow> Some (r\<lparr>p_clients := (p_clients r)(p \<mapsto> l')\<rparr>))"
| "process_step (Destroy p os self) r =
     (case p_clients r p of
        None \<Rightarrow> None
      | Some l \<Rightarrow> if owned r p then Some (client_destroy os self p l r) else None)"
| "process_step TakeDeferred r = destroyer_run r"
| "process_step (DestroySection p os) r =
     (case (p_clients r p, p_dying r p) of
        (Some l, Some d) \<Rightarrow> Some (destroy_section os d p l r)
      | _ \<Rightarrow> None)"

definition process_init :: "process \<Rightarrow> bool" where
  "process_init r \<longleftrightarrow> p_clients r = Map.empty \<and> p_pending r = [] \<and> p_dying r = Map.empty"

section \<open>The invariant\<close>

definition object_inv :: "process \<Rightarrow> nat \<Rightarrow> lifecycle \<Rightarrow> bool" where
  "object_inv r p l \<longleftrightarrow> lifecycle_inv l \<and> c_active_worker_id (l_impl l) \<noteq> Some (p_destroyer r) \<and>
     (\<forall>d. p_dying r p = Some d \<longrightarrow> \<not> called_from_worker_thread d (l_impl l))"

definition process_inv :: "process \<Rightarrow> bool" where
  "process_inv r \<longleftrightarrow> (\<forall>p l. p_clients r p = Some l \<longrightarrow> object_inv r p l) \<and>
     (\<forall>p. (p_dying r p \<noteq> None \<or> p \<in> set (p_pending r)) \<longrightarrow> p_clients r p \<noteq> None) \<and>
     distinct (p_pending r) \<and> (\<forall>p \<in> set (p_pending r). p_dying r p = None)"

text \<open>How the steps of a client change the id of its worker.\<close>

lemma start_section_owner:
  assumes "start_section self cb created b s = (r, s')"
  shows "c_active_worker_id s' = c_active_worker_id s \<or> (\<exists>w. created = Inr w \<and> c_active_worker_id s' = Some w)"
  using assms roll_back_frame(1) [of s b cb] prepare_start_frame(3) [of cb s]
  by (auto simp: start_section_def Let_def same_owner_def split: if_splits option.splits sum.splits)

lemma stop_section_owner:
  "c_active_worker_id (snd (stop_section os self s)) = c_active_worker_id s"
  "c_worker_exited (snd (stop_section os self s)) = c_worker_exited s"
  using worker_ops_same_owner(5) [of s os] worker_ops_same_owner(4) [of "fst (request_stop os s)"]
    worker_ops_exited(3) [of "fst (request_stop os s)"] worker_ops_exited(4) [of os s]
  by (auto simp: stop_section_def Let_def same_owner_def split: option.splits)

lemma lifecycle_step_DoStop:
  "\<exists>l'. lifecycle_step (DoStop os self) l = Some l' \<and> l_impl l' = snd (stop_section os self (l_impl l)) \<and>
     (l_join l' = l_join l \<or> (\<exists>w. fst (stop_section os self (l_impl l)) = StopJoins w \<and> l_join l' = Some (w, ByStop)))"
  by (auto split: prod.splits stop_result.splits)

lemma lifecycle_step_owner:
  assumes "lifecycle_step a l = Some l'"
  shows "c_active_worker_id (l_impl l') = c_active_worker_id (l_impl l) \<or> c_active_worker_id (l_impl l') = None \<or>
      (\<exists>self cb w b. a = DoStart self cb (Inr w) b \<and> c_active_worker_id (l_impl l') = Some w)"
proof (cases a)
  case (DoStart self cb created b)
  obtain r s where st: "start_section self cb created b (l_impl l) = (r, s)" by fastforce
  then have "l_impl l' = s" using assms DoStart by (auto split: if_splits start_result.splits)
  then show ?thesis using start_section_owner [OF st] DoStart by auto
next
  case (DoStop os self)
  then show ?thesis using assms lifecycle_step_DoStop [of os self l] stop_section_owner(1) by auto
next
  case Joined
  then show ?thesis using assms by (auto simp: start_joined_def stop_joined_def split: option.splits if_splits joiner.splits)
next
  case (Deliver w P smp)
  then show ?thesis using assms worker_ops_same_owner(1) by (auto simp: same_owner_def split: if_splits)
next
  case (Fault w b c m)
  then show ?thesis using assms worker_ops_same_owner(2) by (auto simp: same_owner_def split: if_splits)
next
  case (Finish w os b)
  then show ?thesis using assms worker_ops_same_owner(3) by (auto simp: same_owner_def split: if_splits)
qed (use assms in \<open>auto split: if_splits\<close>)

text \<open>Once a thread is not the running worker, only a start can make it one.\<close>

lemma lifecycle_step_not_worker:
  assumes "lifecycle_step a l = Some l'" and "\<not> called_from_worker_thread d (l_impl l)"
    and "\<forall>self cb created b. a \<noteq> DoStart self cb created b"
  shows "\<not> called_from_worker_thread d (l_impl l')"
proof -
  have own: "c_active_worker_id (l_impl l') = c_active_worker_id (l_impl l) \<or> c_active_worker_id (l_impl l') = None"
    using lifecycle_step_owner [OF assms(1)] assms(3) by auto
  have "c_worker_exited (l_impl l')" if "c_worker_exited (l_impl l)"
  proof (cases a)
    case (DoStop os self)
    then show ?thesis using that assms(1) lifecycle_step_DoStop [of os self l] stop_section_owner(2) by auto
  qed (use that assms worker_ops_exited(3) [of "l_impl l"] in
      \<open>auto simp: start_joined_def stop_joined_def worker_ops_exited split: if_splits option.splits joiner.splits\<close>)
  then show ?thesis using own assms(2) by (auto simp: called_from_worker_thread_def)
qed


lemma object_inv_step:
  assumes "object_inv r p l" and "lifecycle_step a l = Some l'"
    and "\<forall>self cb b. a \<noteq> DoStart self cb (Inr (p_destroyer r)) b"
    and "p_dying r p \<noteq> None \<longrightarrow> (\<forall>self cb created b. a \<noteq> DoStart self cb created b)"
  shows "object_inv r p l'"
  using assms lifecycle_step_inv [OF _ assms(2)] lifecycle_step_owner [OF assms(2)] lifecycle_step_not_worker [OF assms(2)]
  unfolding object_inv_def by (metis option.inject option.distinct(1))

lemma object_inv_frame:
  assumes "p_dying r' p = p_dying r p" and "p_destroyer r' = p_destroyer r"
  shows "object_inv r' p l = object_inv r p l"
  using assms by (simp add: object_inv_def)

text \<open>A section of \<open>stop\<close> that returns to a thread other than the worker: the worker is gone.\<close>

lemma stop_returns_idle:
  assumes "lifecycle_inv l" and "\<not> called_from_worker_thread d (l_impl l)"
    and "stop_section os d (l_impl l) = (StopReturns, s)"
  shows "l_live l = [] \<and> l_join l = None \<and> (impl_faulted s \<or> h_state (c_health s) = Stopped)"
proof -
  have f: "c_worker_exited (fst (request_stop os (l_impl l))) = c_worker_exited (l_impl l)"
    "c_active_worker_id (fst (request_stop os (l_impl l))) = c_active_worker_id (l_impl l)"
    "c_joining (fst (request_stop os (l_impl l))) = c_joining (l_impl l)"
    "c_worker (fst (request_stop os (l_impl l))) = c_worker (l_impl l)"
    using worker_ops_same_owner(5) [of "l_impl l" os] worker_ops_exited(4) [of os "l_impl l"] by (auto simp: same_owner_def)
  have w: "c_worker (l_impl l) = None" "\<not> c_joining (l_impl l)" "s = show_stopped (fst (request_stop os (l_impl l)))"
    using assms(2,3) f by (auto simp: stop_section_def Let_def called_from_worker_thread_def split: if_splits option.splits)
  then show ?thesis
    using assms(1) by (auto simp: lifecycle_inv_def owner_inv_def show_stopped_def split: option.splits)
qed

lemma process_inv_create:
  assumes "process_inv r" and "p_clients r p = None"
  shows "process_inv (snd (client_new P clock cfg once_result p r))"
proof (cases "impl_new P clock cfg once_result")
  case (Inr s)
  let ?l = "\<lparr>l_impl = s, l_live = [], l_join = None, l_delivered = False\<rparr>"
  have "lifecycle_init ?l" using impl_new_init [OF Inr] .
  then have "lifecycle_inv ?l" "c_active_worker_id s = None" using lifecycle_init_inv by (auto simp: lifecycle_init_def)
  then have "object_inv r p ?l" by (simp add: object_inv_def called_from_worker_thread_def)
  then show ?thesis
    using assms Inr by (auto simp: client_new_def process_inv_def object_inv_def)
qed (use assms in \<open>simp add: client_new_def\<close>)

text \<open>An object changes, nothing else.\<close>

lemma process_inv_upd:
  assumes "process_inv r" and "p_clients r p \<noteq> None" and "object_inv r p l"
  shows "process_inv (r\<lparr>p_clients := (p_clients r)(p \<mapsto> l)\<rparr>)"
  using assms by (auto simp: process_inv_def object_inv_def)

lemma process_inv_use:
  assumes "process_inv r" and "process_step (Use p a) r = Some r'"
  shows "process_inv r'"
proof -
  obtain l l' where l: "p_clients r p = Some l" "allowed r p a" "lifecycle_step a l = Some l'"
    "r' = r\<lparr>p_clients := (p_clients r)(p \<mapsto> l')\<rparr>"
    using assms(2) by (auto split: option.splits if_splits)
  have "object_inv r p l" using assms(1) l(1) by (simp add: process_inv_def)
  then have "object_inv r p l'"
    using object_inv_step [OF _ l(3)] l(2) by (cases a) (auto simp: owned_def)
  then show ?thesis using process_inv_upd [OF assms(1)] l by simp
qed

lemma process_inv_destroy:
  assumes "process_inv r" and "process_step (Destroy p os self) r = Some r'"
  shows "process_inv r'"
proof -
  obtain l where l: "p_clients r p = Some l" "owned r p" "r' = client_destroy os self p l r"
    using assms(2) by (auto split: option.splits if_splits)
  have o: "object_inv r p l" using assms(1) l(1) by (simp add: process_inv_def)
  show ?thesis
  proof (cases "called_from_worker_thread self (l_impl l)")
    case True
    obtain l' where s: "lifecycle_step (DoStop os self) l = Some l'" "l_impl l' = snd (stop_section os self (l_impl l))"
      using lifecycle_step_DoStop by blast
    have "fst (stop_section os self (l_impl l)) = StopReturns"
      using True by (auto simp: stop_section_def called_from_worker_thread_def Let_def request_stop_def)
    then have "l' = l\<lparr>l_impl := snd (stop_section os self (l_impl l))\<rparr>" (is "_ = ?l")
      using s by (cases "stop_section os self (l_impl l)") auto
    then have "object_inv r p ?l" using object_inv_step [OF o s(1)] by simp
    then have "process_inv (r\<lparr>p_clients := (p_clients r)(p \<mapsto> ?l)\<rparr>)"
      using process_inv_upd assms(1) l(1) by simp
    then show ?thesis
      using l True by (auto simp: client_destroy_def enqueue_def owned_def process_inv_def object_inv_def)
  next
    case False
    then show ?thesis
      using assms(1) l o by (auto simp: client_destroy_def owned_def process_inv_def object_inv_def)
  qed
qed

lemma process_inv_take:
  assumes "process_inv r" and "destroyer_run r = Some r'"
  shows "process_inv r'"
proof -
  obtain p ps where p: "p_pending r = p # ps" "r' = r\<lparr>p_pending := ps, p_dying := (p_dying r)(p \<mapsto> p_destroyer r)\<rparr>"
    using assms(2) by (cases "p_pending r") (auto simp: destroyer_run_def)
  then show ?thesis
    using assms(1) by (auto simp: process_inv_def object_inv_def called_from_worker_thread_def)
qed

lemma process_inv_section:
  assumes "process_inv r" and "process_step (DestroySection p os) r = Some r'"
  shows "process_inv r'"
proof -
  obtain l d where l: "p_clients r p = Some l" "p_dying r p = Some d" "r' = destroy_section os d p l r"
    using assms(2) by (auto split: option.splits)
  have o: "object_inv r p l" using assms(1) l(1) by (simp add: process_inv_def)
  obtain q s where q: "stop_section os d (l_impl l) = (q, s)" by fastforce
  show ?thesis
  proof (cases "q = StopReturns")
    case True
    then show ?thesis
      using assms(1) l q by (auto simp: destroy_section_def process_inv_def object_inv_def)
  next
    case False
    then obtain l' where s: "lifecycle_step (DoStop os d) l = Some l'"
      "r' = r\<lparr>p_clients := (p_clients r)(p \<mapsto> l')\<rparr>"
      using q l(3) by (cases q) (auto simp: destroy_section_def)
    then show ?thesis using process_inv_upd [OF assms(1)] object_inv_step [OF o s(1)] l(1) by simp
  qed
qed

lemma process_step_inv:
  assumes "process_inv r" and "process_step a r = Some r'"
  shows "process_inv r'"
proof (cases a)
  case (Create p P clock cfg once_result)
  then have "p_clients r p = None" "r' = snd (client_new P clock cfg once_result p r)"
    using assms(2) by (simp_all split: if_splits)
  then show ?thesis using process_inv_create [OF assms(1)] by simp
next
  case (Use p b)
  then show ?thesis using process_inv_use [OF assms(1)] assms(2) by blast
next
  case (Destroy p os self)
  then show ?thesis using process_inv_destroy [OF assms(1)] assms(2) by blast
next
  case TakeDeferred
  then show ?thesis using process_inv_take [OF assms(1)] assms(2) by simp
next
  case (DestroySection p os)
  then show ?thesis using process_inv_section [OF assms(1)] assms(2) by blast
qed

lemma process_init_inv: "process_init r \<Longrightarrow> process_inv r"
  by (simp add: process_init_def process_inv_def)

interpretation process: invariant_system process_step process_init process_inv
  by unfold_locales (fact process_init_inv, fact process_step_inv)

text \<open>Only a section of the destroying thread frees an object.\<close>

lemma freeing_step:
  assumes "process_step a r = Some r'" and "p_clients r p = Some l" and "p_clients r' p = None"
  shows "\<exists>os d s. a = DestroySection p os \<and> p_dying r p = Some d \<and> stop_section os d (l_impl l) = (StopReturns, s)"
proof (cases a)
  case (DestroySection q os)
  then obtain l1 d where q: "p_clients r q = Some l1" "p_dying r q = Some d" "r' = destroy_section os d q l1 r"
    using assms(1) by (auto split: option.splits)
  then have "q = p" using assms(2,3) by (auto simp: destroy_section_def split: prod.splits stop_result.splits if_splits)
  then show ?thesis
    using q assms(2,3) DestroySection by (auto simp: destroy_section_def split: prod.splits stop_result.splits)
qed (use assms in \<open>auto simp: client_new_def client_destroy_def destroyer_run_def split: if_splits option.splits sum.splits\<close>)

text \<open>The loops of \<open>start\<close> and \<open>stop\<close>.\<close>

lemma stop_section_no_wait:
  "\<not> c_joining s \<Longrightarrow> fst (stop_section os self s) \<noteq> StopWaits"
  by (auto simp: stop_section_def request_stop_def Let_def split: option.splits)

lemma impl_stop_returns:
  assumes "t \<in> set ts" and "\<forall>s. \<not> c_joining (sp_others t s)"
  shows "fst (impl_stop os self ts s)"
  using assms(1)
proof (induction ts arbitrary: s)
  case (Cons u ts)
  show ?case
  proof (cases "u = t")
    case True
    then show ?thesis
      using stop_section_no_wait [of "sp_others t s" os self] assms(2)
      by (auto split: prod.splits stop_result.splits)
  qed (use Cons in \<open>auto split: prod.splits stop_result.splits\<close>)
qed simp

lemma impl_start_waits:
  assumes "c_worker s = Some w" and "\<not> c_worker_exited s" and "impl_faulted s" and "c_active_worker_id s \<noteq> Some self"
    and "list_all (\<lambda>t. st_others t = id) ts"
  shows "impl_start self callback (ts @ us) s = impl_start self callback us s"
  using assms by (induction ts) (auto simp: start_section_def)

section \<open>Properties\<close>

text \<open>
  C5. No use after free. Whatever clients are created, used and destroyed in whatever order, also by
  their own callbacks, an implementation object leaves memory only in a section of \<open>stop\<close> made by the
  thread that destroys it, and then no worker of it is alive and no join is pending.
\<close>

theorem freed_only_when_idle:
  assumes "process_init r0" and "run_steps process_step as r0 = Some r" and "process_step a r = Some r'"
    and "p_clients r p = Some l" and "p_clients r' p = None"
  shows "(\<exists>os. a = DestroySection p os) \<and> l_live l = [] \<and> l_join l = None"
proof -
  have i: "process_inv r" using process.inv_reachable [OF assms(1,2)] .
  obtain os d s where f: "a = DestroySection p os" "p_dying r p = Some d" "stop_section os d (l_impl l) = (StopReturns, s)"
    using freeing_step [OF assms(3-5)] by blast
  then have "lifecycle_inv l" "\<not> called_from_worker_thread d (l_impl l)"
    using i assms(4) by (auto simp: process_inv_def object_inv_def)
  then show ?thesis using stop_returns_idle f by blast
qed

definition example_process :: process where
  "example_process = \<lparr>p_clients = Map.empty, p_pending = [], p_dying = Map.empty, p_destroyer = 9\<rparr>"

text \<open>A client whose callback, on the worker thread 1, destroys it; the destroyer finds it idle at last.\<close>

definition example_story :: "process_action list" where
  "example_story =
     [Create 7 linux_x86_64 (\<lambda>_. 0) config_default (Some True), Use 7 (DoStart 0 (Some 5) (Inr 1) True),
      Destroy 7 Windows 1, TakeDeferred, DestroySection 7 Windows, Use 7 (Finish 1 Windows True), Use 7 (Exit 1),
      Use 7 Joined]"

theorem freed_only_when_idle_witness:
  "\<exists>r l r'. run_steps process_step example_story example_process = Some r \<and> p_clients r 7 = Some l \<and>
     process_step (DestroySection 7 Windows) r = Some r' \<and> p_clients r' 7 = None \<and> l_live l = [] \<and> l_join l = None"
proof -
  have v: "validate_config linux_x86_64 (\<lambda>_. 0) config_default = Inr ()"
    by (rule default_config_valid) simp_all
  obtain r l r' where x: "run_steps process_step example_story example_process = Some r" "p_clients r 7 = Some l"
    "process_step (DestroySection 7 Windows) r = Some r'" "p_clients r' 7 = None"
    by (simp add: example_story_def example_process_def client_new_def impl_new_def v start_section_def prepare_start_def
        owned_def client_destroy_def called_from_worker_thread_def enqueue_def destroyer_run_def destroy_section_def
        stop_section_def request_stop_def finish_session_def close_session_def stop_joined_def show_stopped_def Let_def
        impl_faulted_def latch_faulted_def latch_init_def latch_reset_def)
  have "process_init example_process" by (simp add: process_init_def example_process_def)
  from freed_only_when_idle [OF this x(1,3,2,4)] x show ?thesis by blast
qed

text \<open>
  C13. When \<open>stop\<close> has returned there is no worker. In every reachable state, a section that returns to
  a thread other than the running worker finds no live worker and no pending join, and leaves the
  state Stopped unless a fault is latched; and the end of a join leaves no live worker.
\<close>

theorem stop_leaves_no_worker:
  assumes "lifecycle_init l0" and "run_steps lifecycle_step as l0 = Some l"
  shows "(\<not> called_from_worker_thread d (l_impl l) \<and> stop_section os d (l_impl l) = (StopReturns, s) \<longrightarrow>
      l_live l = [] \<and> l_join l = None \<and> (impl_faulted s \<or> h_state (c_health s) = Stopped)) \<and>
    (lifecycle_step Joined l = Some l' \<longrightarrow> l_live l' = [] \<and> c_worker (l_impl l') = None \<and> \<not> c_joining (l_impl l'))"
proof -
  have i: "lifecycle_inv l" using client.inv_reachable [OF assms] .
  moreover have "l_live l' = [] \<and> c_worker (l_impl l') = None \<and> \<not> c_joining (l_impl l')"
    if j: "lifecycle_step Joined l = Some l'"
  proof -
    obtain w k where k: "l_join l = Some (w, k)" "l_join l' = None"
      "l_impl l' = (case k of ByStart \<Rightarrow> start_joined | ByStop \<Rightarrow> stop_joined) (l_impl l)"
      using j by (auto split: option.splits if_splits)
    have "c_worker (l_impl l) = None"
      using i k(1) by (auto simp: lifecycle_inv_def owner_inv_def split: option.splits)
    then have "c_worker (l_impl l') = None"
      using k(3) by (cases k) (simp_all add: start_joined_def stop_joined_def show_stopped_def)
    then show ?thesis
      using inv_joined [OF i j] k(2) by (auto simp: lifecycle_inv_def owner_inv_def split: option.splits)
  qed
  ultimately show ?thesis using stop_returns_idle by blast
qed

theorem stop_leaves_no_worker_witness:
  "\<exists>l l'. run_steps lifecycle_step
       [DoStart 0 (Some 5) (Inr 1) True, DoStop Windows 0, Finish 1 Windows True, Exit 1] example_lifecycle = Some l \<and>
     lifecycle_step Joined l = Some l' \<and> l_live l' = []"
proof -
  let ?as = "[DoStart 0 (Some 5) (Inr 1) True, DoStop Windows 0, Finish 1 Windows True, Exit 1]"
  obtain l' where "run_steps lifecycle_step (?as @ [Joined]) example_lifecycle = Some l'"
    by (simp add: example_lifecycle_def start_section_def example_impl_def prepare_start_def stop_section_def
        request_stop_def finish_session_def close_session_def stop_joined_def show_stopped_def Let_def
        impl_faulted_def latch_faulted_def latch_init_def latch_reset_def)
  from run_steps_snocD [OF this] obtain l
    where l: "run_steps lifecycle_step ?as example_lifecycle = Some l" "lifecycle_step Joined l = Some l'" by (elim exE conjE)
  show ?thesis using stop_leaves_no_worker [OF example_lifecycle_init l(1)] l by blast
qed

text \<open>
  C26. A faulted client can be started again. However often \<open>start\<close> looks while the faulted worker is
  still running, it waits; when the worker has finished it reaps it and then creates a new one, and
  the client begins a new run: the fault, its message and the latest sample are cleared and the
  generation is advanced.
\<close>

theorem restart_after_fault:
  assumes "c_worker s = Some w" and "c_active_worker_id s = Some w" and "\<not> c_worker_exited s" and "impl_faulted s"
    and "\<not> c_joining s" and "self \<noteq> w" and "list_all (\<lambda>t. st_others t = id) waits"
    and "st_others t1 = finish_session os b" and "st_join_others t1 = id"
    and "st_others t2 = id" and "st_created t2 = Inr w'"
  shows "\<exists>s'. impl_start self callback (waits @ [t1, t2]) s = (Some (Inr ()), s') \<and>
    \<not> impl_faulted s' \<and> c_worker s' = Some w' \<and> c_active_worker_id s' = Some w' \<and> c_callback s' = callback \<and>
    c_generation s' = c_generation s + 1 \<and> c_latest s' = None \<and> \<not> c_stopping s' \<and>
    h_state (c_health s') = Connecting \<and> h_fault_code (c_health s') = FaultNone \<and> h_last_error (c_health s') = []"
proof -
  define f where "f = finish_session os b s"
  have f: "c_worker f = Some w" "c_worker_exited f" "\<not> c_joining f" "c_generation f = c_generation s"
    using worker_ops_same_owner(3) [of s os b] assms(1,5) finish_session_props
    by (auto simp: f_def same_owner_def)
  have "impl_start self callback (waits @ [t1, t2]) s = impl_start self callback [t1, t2] s"
    using assms(1-7) by (intro impl_start_waits) auto
  also have "\<dots> = impl_start self callback [t2] (start_joined (f\<lparr>c_joining := True, c_worker := None\<rparr>))"
    using f assms(8,9) by (simp add: start_section_def f_def [symmetric])
  finally show ?thesis
    using f assms(10,11)
    by (simp add: start_section_def start_joined_def prepare_start_def impl_faulted_def latch_faulted_def latch_reset_def Let_def)
qed

definition plain_turn :: "nat \<Rightarrow> start_turn" where
  "plain_turn w = \<lparr>st_others = id, st_created = Inr w, st_lock_ok = True, st_join_others = id\<rparr>"

theorem restart_after_fault_witness:
  "\<exists>s'. impl_start 0 None ([plain_turn 2] @ [(plain_turn 2)\<lparr>st_others := finish_session Windows True\<rparr>, plain_turn 2])
      (set_fault True FaultTimeout ''late'' example_impl) = (Some (Inr ()), s') \<and>
    c_worker s' = Some 2 \<and> \<not> impl_faulted s'"
proof -
  let ?s = "set_fault True FaultTimeout ''late'' example_impl"
  have s: "c_worker ?s = Some 1" "c_active_worker_id ?s = Some 1" "\<not> c_worker_exited ?s" "impl_faulted ?s" "\<not> c_joining ?s"
    by (simp_all add: example_impl_def set_fault_def publish_def latch_init_def impl_faulted_def latch_faulted_def)
  have "\<exists>s'. impl_start 0 None ([plain_turn 2] @ [(plain_turn 2)\<lparr>st_others := finish_session Windows True\<rparr>, plain_turn 2]) ?s =
      (Some (Inr ()), s') \<and>
    \<not> impl_faulted s' \<and> c_worker s' = Some 2 \<and> c_active_worker_id s' = Some 2 \<and> c_callback s' = None \<and>
    c_generation s' = c_generation ?s + 1 \<and> c_latest s' = None \<and> \<not> c_stopping s' \<and>
    h_state (c_health s') = Connecting \<and> h_fault_code (c_health s') = FaultNone \<and> h_last_error (c_health s') = []"
    by (rule restart_after_fault [OF s]) (simp_all add: plain_turn_def)
  then show ?thesis by blast
qed

text \<open>
  Deferred destructions keep their order and none is lost: the objects enqueued are, in order,
  those the destroyer has taken followed by those still pending.
\<close>

lemma deferred_destructions_in_order:
  assumes "history enqueue destroyer_take (\<lambda>pending. pending) (\<lambda>_. None) es pending = (gone, pending')"
  shows "pending @ puts es = map fst gone @ pending'"
  using dd.history_conserves [OF TrueI assms] by simp

end
