(* ===== verification/Native_Client.thy ===== *)
theory Native_Client
  imports Client_Facade
begin

text \<open>
  The object behind the Python client (\<open>bindings/python/native_client.hpp\<close> and
  \<open>native_client.cpp\<close>): it owns a core client and a sample queue, starts the client with a callback
  that pushes into the queue, and reads from the queue in slices so that a stop or a fault is noticed.
  \<open>start\<close> and \<open>stop\<close> hold a mutex for their whole length; the reading calls take none, so every read of
  the flag \<open>running_\<close>, of the fault and of the clock is an argument, as is what other threads do to
  the queue. A list of turns says how long a call is observed, \<open>None\<close> that it has not returned. The
  remaining methods forward to the core client or the queue. The lemmas show what a start and a stop do
  to readers, that every wait is a bounded slice, that reads return, and that a wait for the first
  sample cannot fail once its time-out is accepted.
\<close>

section \<open>State, start and stop\<close>

record native_client =
  n_queue :: sample_queue
  n_client :: impl
  n_running :: bool

definition native_new ::
  "platform \<Rightarrow> (nat \<Rightarrow> time_point) \<Rightarrow> config \<Rightarrow> nat \<Rightarrow> bool option \<Rightarrow> native_client res" where
  "native_new P clock cfg queue_size once_result =
     res_bind (queue_new queue_size) (\<lambda>q.
       res_bind (impl_new P clock cfg once_result) (\<lambda>s.
         Inr \<lparr>n_queue = q, n_client = s, n_running = False\<rparr>))"

text \<open>The name of the callback that pushes into the queue.\<close>

definition push_callback :: nat where "push_callback = 0"

text \<open>
  \<open>start\<close> on the thread \<open>self\<close>: \<open>ts\<close> are the turns of the core's \<open>start\<close>, \<open>others\<close> what the new worker
  pushes before the call returns.
\<close>

definition native_start ::
  "nat \<Rightarrow> start_turn list \<Rightarrow> (sample_queue \<Rightarrow> sample_queue) \<Rightarrow> native_client \<Rightarrow> unit res option \<times> native_client" where
  "native_start self ts others n =
     (if n_running n \<and> \<not> client_faulted (n_client n) then (Some (Inr ()), n)
      else
        let q = reset (close (n_queue n)) in
        case client_start self (Some push_callback) ts (n_client n) of
          (None, s) \<Rightarrow> (None, n\<lparr>n_running := False, n_queue := others q, n_client := s\<rparr>)
        | (Some (Inr _), s) \<Rightarrow> (Some (Inr ()), n\<lparr>n_running := True, n_queue := others q, n_client := s\<rparr>)
        | (Some (Inl e), s) \<Rightarrow>
            (Some (Inl e), n\<lparr>n_running := False, n_queue := close (others q), n_client := s\<rparr>))"

definition native_stop ::
  "os \<Rightarrow> nat \<Rightarrow> stop_turn list \<Rightarrow> (sample_queue \<Rightarrow> sample_queue) \<Rightarrow> native_client \<Rightarrow> bool \<times> native_client" where
  "native_stop os self ts others n =
     (let (returned, s) = client_stop os self ts (n_client n) in
      (returned, n\<lparr>n_running := False, n_queue := others (close (n_queue n)), n_client := s\<rparr>))"

section \<open>Time-outs\<close>

definition require_representable_timeout :: "platform \<Rightarrow> string \<Rightarrow> fl \<Rightarrow> unit res" where
  "require_representable_timeout P label seconds =
     (let F = long_double P; R = rounding_mode P;
          maximum_seconds = fl_div F R (fl_of_int F R steady_max) (fl_of_int F R 1000000000) in
      if \<not> is_finite seconds \<or> fl_less seconds (Fin 0)
      then Inl (InvalidArgument (label @ '' must be finite and non-negative''))
      else if fl_less maximum_seconds (fl_convert F R seconds)
      then Inl (InvalidArgument (label @ '' exceeds the native clock range''))
      else Inr ())"

text \<open>\<open>duration<double>{kReadSlice}\<close>, fifty milliseconds in seconds.\<close>

definition kReadSlice :: "rounding \<Rightarrow> fl" where
  "kReadSlice R = fl_div binary64 R (fl_of_int binary64 R 50) (fl_of_int binary64 R 1000)"

text \<open>The length of the next wait: a slice, or what is left of the time-out.\<close>

definition wait_duration :: "rounding \<Rightarrow> fl option \<Rightarrow> time_point \<Rightarrow> time_point \<Rightarrow> fl" where
  "wait_duration R timeout started_at now =
     (case timeout of
        None \<Rightarrow> kReadSlice R
      | Some d \<Rightarrow>
          fl_min (kReadSlice R)
            (fl_max (Fin 0) (fl_sub binary64 R d (seconds_of_ticks R (now - started_at)))))"

definition timed_out :: "rounding \<Rightarrow> fl option \<Rightarrow> time_point \<Rightarrow> time_point \<Rightarrow> bool" where
  "timed_out R timeout started_at now \<longleftrightarrow>
     (case timeout of None \<Rightarrow> False | Some d \<Rightarrow> fl_le d (seconds_of_ticks R (now - started_at)))"

section \<open>Reading\<close>

text \<open>One turn of \<open>read\<close>, in the order of the code.\<close>

record read_turn =
  rd_running :: bool
  rd_faulted :: bool
  rd_now :: time_point
  rd_others :: "sample_queue \<Rightarrow> sample_queue"
  rd_wakes :: "sample_queue wake list"
  rd_running_after :: bool
  rd_faulted_after :: bool
  rd_now_after :: time_point

definition closed_result :: read_result where
  "closed_result = \<lparr>rr_status = ReadClosed, rr_sample = None\<rparr>"

text \<open>The loop: the result, the queue and the lengths of the waits.\<close>

fun read_loop ::
  "rounding \<Rightarrow> fl option \<Rightarrow> u64 \<Rightarrow> time_point \<Rightarrow> read_turn list \<Rightarrow> sample_queue \<Rightarrow>
     read_result option \<times> sample_queue \<times> fl list" where
  "read_loop R timeout g started_at [] q = (None, q, [])"
| "read_loop R timeout g started_at (t # ts) q =
     (if \<not> rd_running t \<or> rd_faulted t then (Some closed_result, q, [])
      else
        let w = wait_duration R timeout started_at (rd_now t) in
        case read_for_generation g (rd_wakes t) (rd_others t q) of
          None \<Rightarrow> (None, rd_others t q, [w])
        | Some (r, q1) \<Rightarrow>
            if rr_status r \<noteq> ReadTimeout then (Some r, q1, [w])
            else if \<not> rd_running_after t \<or> rd_faulted_after t then (Some closed_result, q1, [w])
            else if timed_out R timeout started_at (rd_now_after t) then (Some r, q1, [w])
            else
              let (r', q2, ws) = read_loop R timeout g started_at ts q1 in (r', q2, w # ws))"

definition native_read ::
  "platform \<Rightarrow> fl option \<Rightarrow> time_point \<Rightarrow> read_turn list \<Rightarrow> native_client \<Rightarrow>
     read_result res option \<times> native_client \<times> fl list" where
  "native_read P timeout started_at ts n =
     (case (case timeout of None \<Rightarrow> Inr () | Some d \<Rightarrow> require_representable_timeout P ''timeout'' d) of
        Inl e \<Rightarrow> (Some (Inl e), n, [])
      | Inr _ \<Rightarrow>
          let (r, q, ws) =
            read_loop (rounding_mode P) timeout (queue_generation (n_queue n)) started_at ts (n_queue n) in
          (map_option Inr r, n\<lparr>n_queue := q\<rparr>, ws))"

section \<open>Waiting for the first sample\<close>

text \<open>
  One turn: the core's call reads the clock itself (\<open>fs_call_now\<close>), finds the core in the state
  \<open>fs_entry\<close> and waits through the wake-ups \<open>fs_wakes\<close>.
\<close>

record first_turn =
  fs_running :: bool
  fs_faulted :: bool
  fs_generation :: u64
  fs_now :: time_point
  fs_call_now :: time_point
  fs_entry :: impl
  fs_wakes :: "impl wake list"
  fs_generation_after :: u64
  fs_now_after :: time_point

fun first_sample_loop ::
  "platform \<Rightarrow> fl \<Rightarrow> u64 \<Rightarrow> time_point \<Rightarrow> first_turn list \<Rightarrow> bool res option" where
  "first_sample_loop P d g started_at [] = None"
| "first_sample_loop P d g started_at (t # ts) =
     (if \<not> fs_running t \<or> fs_faulted t \<or> fs_generation t \<noteq> g then Some (Inr False)
      else
        case client_wait_for_first_sample P (fs_call_now t)
               (wait_duration (rounding_mode P) (Some d) started_at (fs_now t)) (fs_wakes t) (fs_entry t) of
          None \<Rightarrow> None
        | Some (Inl e) \<Rightarrow> Some (Inl e)
        | Some (Inr received_sample) \<Rightarrow>
            if fs_generation_after t \<noteq> g then Some (Inr False)
            else if received_sample then Some (Inr True)
            else if timed_out (rounding_mode P) (Some d) started_at (fs_now_after t) then Some (Inr False)
            else first_sample_loop P d g started_at ts)"

definition native_wait_for_first_sample ::
  "platform \<Rightarrow> fl \<Rightarrow> time_point \<Rightarrow> first_turn list \<Rightarrow> native_client \<Rightarrow> bool res option" where
  "native_wait_for_first_sample P d started_at ts n =
     (case require_representable_timeout P ''timeout'' d of
        Inl e \<Rightarrow> Some (Inl e)
      | Inr _ \<Rightarrow> first_sample_loop P d (queue_generation (n_queue n)) started_at ts)"

section \<open>The other methods\<close>

definition native_destroy ::
  "os \<Rightarrow> nat \<Rightarrow> stop_turn list \<Rightarrow> (sample_queue \<Rightarrow> sample_queue) \<Rightarrow> native_client \<Rightarrow> bool \<times> native_client" where
  "native_destroy os self ts others n = native_stop os self ts others n"

definition native_bias ::
  "os \<Rightarrow> send_outcome \<Rightarrow> send_outcome \<Rightarrow> native_client \<Rightarrow> unit res \<times> native_client \<times> u8 list list" where
  "native_bias os r1 r2 n =
     (let (r, s, datagrams) = client_bias os r1 r2 (n_client n) in (r, n\<lparr>n_client := s\<rparr>, datagrams))"

definition native_latest_sample :: "native_client \<Rightarrow> sample option" where
  "native_latest_sample n = client_latest_sample (n_client n)"

definition native_health :: "platform \<Rightarrow> time_point \<Rightarrow> native_client \<Rightarrow> health \<times> native_client" where
  "native_health P now n = (let (h, s) = client_health P now (n_client n) in (h, n\<lparr>n_client := s\<rparr>))"

definition native_faulted :: "native_client \<Rightarrow> bool" where
  "native_faulted n = client_faulted (n_client n)"

definition native_fault_code :: "native_client \<Rightarrow> fault_code" where
  "native_fault_code n = client_fault_code (n_client n)"

definition queue_dropped_count :: "native_client \<Rightarrow> u64" where
  "queue_dropped_count n = dropped_count (n_queue n)"

section \<open>Slices\<close>

lemma read_slice:
  "\<exists>v. kReadSlice R = Fin v \<and> 2 powi (- 5) \<le> v \<and> v \<le> 2 powi (- 4)"
proof -
  have "fl_of_int binary64 R 50 = Fin 50" "fl_of_int binary64 R 1000 = Fin 1000"
    using fl_round_int [of binary64 50 R] fl_round_int [of binary64 1000 R] by (simp_all add: fl_of_int_def)
  moreover have "\<exists>v. fl_round binary64 R (50 / 1000) = Fin v \<and> 2 powi (- 5) \<le> v \<and> v \<le> 2 powi (- 4)"
    by (rule fl_round_between) simp_all
  ultimately show ?thesis by (simp add: kReadSlice_def)
qed

lemma wait_duration_slice:
  "\<exists>v. wait_duration R timeout started_at now = Fin v \<and> 0 \<le> v \<and> v \<le> 2 powi (- 4)"
proof -
  obtain v where v: "kReadSlice R = Fin v" "2 powi (- 5) \<le> v" "v \<le> 2 powi (- 4)" using read_slice by blast
  moreover have "0 \<le> v" using v(2) by (rule order_trans [rotated]) simp
  ultimately have "\<exists>u. fl_min (kReadSlice R) (fl_max (Fin 0) x) = Fin u \<and> 0 \<le> u \<and> u \<le> 2 powi (- 4)" for x
    by (cases x) (auto simp: fl_min_def fl_max_def)
  then show ?thesis using v \<open>0 \<le> v\<close> by (auto simp: wait_duration_def split: option.splits)
qed

text \<open>The core's clock arithmetic accepts every slice.\<close>

lemma checked_duration_slice:
  assumes "std_platform P" and "0 \<le> r" and "r \<le> 2 powi (- 4)"
  shows "\<exists>t. checked_duration P (Fin r) = Inr t \<and> t \<le> 2 ^ 26"
proof -
  let ?F = "long_double P" and ?R = "rounding_mode P"
  note sp = std_platformD [OF assms(1)]
  obtain x where x: "fl_round ?F ?R r = Fin x" "0 \<le> x" "x \<le> 2 powi (- 4)"
    using fl_round_le_pow2 [OF sp(1) assms(2,3), of ?R] sp by auto
  obtain y where y: "fl_round ?F ?R (x * 1000000000) = Fin y" "0 \<le> y" "y \<le> 2 powi 26"
    using fl_round_le_pow2 [OF sp(1), of "x * 1000000000" 26 ?R] sp x by auto
  obtain z where z: "fl_round ?F ?R y = Fin z" "0 \<le> z" "z \<le> 2 powi 26"
    using fl_round_le_pow2 [OF sp(1) y(2,3), of ?R] sp by auto
  obtain M where M: "fl_of_int ?F ?R steady_max = Fin M" "2 powi 62 \<le> M"
    using std_fl_between [OF assms(1), of 62 "of_int steady_max" 63 ?R]
    by (auto simp: steady_max_def fl_of_int_def)
  have "steady_ticks P (Fin r) = Fin z" using x y z by (simp add: steady_ticks_Fin [OF assms(1)])
  moreover have "\<lfloor>z\<rfloor> \<le> 2 ^ 26" using z by (auto simp: floor_le_iff)
  ultimately show ?thesis using z M by (auto simp: checked_duration_def fl_le_def rat_trunc_def)
qed

lemma slice_call_accepted:
  assumes "std_platform P" and "now \<le> 2 ^ 62"
  shows "wait_for_first_sample P now (wait_duration R timeout started_at now') ws s \<noteq> Some (Inl e)"
    and "list_ex fst ws \<Longrightarrow> wait_for_first_sample P now (wait_duration R timeout started_at now') ws s \<noteq> None"
proof -
  obtain v where v: "wait_duration R timeout started_at now' = Fin v" "0 \<le> v" "v \<le> 2 powi (- 4)"
    using wait_duration_slice by blast
  then obtain t where "checked_duration P (Fin v) = Inr t" "t \<le> 2 ^ 26" using checked_duration_slice [OF assms(1)] by blast
  then have c: "checked_deadline P now (Fin v) = Inr (now + t)"
    using assms(2) by (simp add: checked_deadline_def steady_max_def)
  show "wait_for_first_sample P now (wait_duration R timeout started_at now') ws s \<noteq> Some (Inl e)"
    using c by (auto simp: wait_for_first_sample_def v Let_def split: option.splits)
  show "list_ex fst ws \<Longrightarrow> wait_for_first_sample P now (wait_duration R timeout started_at now') ws s \<noteq> None"
    using c wait_for_ends [of ws "first_sample_awake (c_generation s)" s]
    by (auto simp: wait_for_first_sample_def v Let_def)
qed

lemma require_representable_ordinary:
  assumes "std_platform P" and "0 \<le> r" and "r \<le> 2 ^ 19"
  shows "require_representable_timeout P label (Fin r) = Inr ()"
proof -
  let ?F = "long_double P" and ?R = "rounding_mode P"
  note sp = std_platformD [OF assms(1)]
  obtain M where M: "fl_of_int ?F ?R steady_max = Fin M" "2 powi 62 \<le> M" "M \<le> 2 powi 63"
    using std_fl_between [OF assms(1), of 62 "of_int steady_max" 63 ?R] by (auto simp: steady_max_def fl_of_int_def)
  obtain m where m: "fl_round ?F ?R (M / 1000000000) = Fin m" "2 powi 32 \<le> m"
    using std_fl_between [OF assms(1), of 32 "M / 1000000000" 63 ?R] M(2,3) by auto
  obtain x where x: "fl_round ?F ?R r = Fin x" "x \<le> 2 powi 19"
    using fl_round_le_pow2 [OF sp(1) assms(2), of 19 ?R] assms(3) sp by auto
  show ?thesis
    using M m x assms(2) std_fl_int [OF assms(1), of 1000000000 ?R] by (simp add: require_representable_timeout_def Let_def)
qed

section \<open>The read loop\<close>

lemma read_loop_waits:
  "list_all (\<lambda>w. \<exists>v. w = Fin v \<and> 0 \<le> v \<and> v \<le> 2 powi (- 4))
     (snd (snd (read_loop R timeout g started_at ts q)))"
proof (induction ts arbitrary: q)
  case (Cons t ts)
  then show ?case
    using wait_duration_slice [of R timeout started_at "rd_now t"]
    by (auto simp: Let_def split_beta split: option.splits)
qed simp

text \<open>When the loop is left for good: a turn that sees the client stopped or faulted, or the time gone.\<close>

definition read_end_turn :: "rounding \<Rightarrow> fl option \<Rightarrow> time_point \<Rightarrow> read_turn \<Rightarrow> bool" where
  "read_end_turn R timeout started_at t \<longleftrightarrow>
     \<not> rd_running t \<or> rd_faulted t \<or> \<not> rd_running_after t \<or> rd_faulted_after t \<or>
     timed_out R timeout started_at (rd_now_after t)"

lemma read_loop_returns:
  assumes "list_all (\<lambda>t. list_ex fst (rd_wakes t)) ts" and "list_ex (read_end_turn R timeout started_at) ts"
  shows "fst (read_loop R timeout g started_at ts q) \<noteq> None"
  using assms
proof (induction ts arbitrary: q)
  case (Cons t ts)
  obtain r q1 where r: "read_for_locked g (rd_wakes t) (rd_others t q) = Some (r, q1)"
    using Cons.prems(1) read_for_ends [of "rd_wakes t" g "rd_others t q"] by auto
  show ?case
    using Cons.IH [of q1] Cons.prems r by (auto simp: Let_def split_beta read_end_turn_def)
qed simp

lemma read_for_sample_iff:
  "read_for_locked g ws q = Some (r, q') \<Longrightarrow> rr_status r = ReadSample \<longleftrightarrow> rr_sample r \<noteq> None"
  by (auto simp: read_for_locked_def take_sample_def split: option.splits if_splits)

lemma read_loop_result:
  assumes "read_loop R timeout g started_at ts q = (Some r, q', ws)"
  shows "(rr_status r = ReadTimeout \<longrightarrow> list_ex (\<lambda>t. timed_out R timeout started_at (rd_now_after t)) ts) \<and>
    (rr_status r = ReadSample \<longleftrightarrow> rr_sample r \<noteq> None)"
  using assms
proof (induction ts arbitrary: q ws)
  case (Cons t ts)
  consider "\<not> rd_running t \<or> rd_faulted t" | r1 q1 where "rd_running t" "\<not> rd_faulted t"
      "read_for_locked g (rd_wakes t) (rd_others t q) = Some (r1, q1)"
    using Cons.prems by (cases "read_for_locked g (rd_wakes t) (rd_others t q)") (fastforce split: if_splits)+
  then show ?case
  proof cases
    case 1
    then show ?thesis using Cons.prems by (auto simp: closed_result_def)
  next
    case 2
    then show ?thesis
      using Cons.prems Cons.IH [of q1] read_for_sample_iff [OF 2(3)]
      by (auto simp: Let_def closed_result_def split: if_splits prod.splits)
  qed
qed simp

text \<open>A read whose generation is gone is closed.\<close>

lemma read_loop_stale:
  assumes "q_close_generation (rd_others t q) \<noteq> g"
  shows "\<exists>q' ws. read_loop R timeout g started_at (t # ts) q = (Some closed_result, q', ws)"
proof -
  have "read_ready g (rd_others t q)" using assms by (simp add: read_ready_def)
  then have "read_for_locked g (rd_wakes t) (rd_others t q) = Some (closed_result, rd_others t q)"
    using assms wait_for_ready [of "read_ready g"] by (simp add: read_for_locked_def take_sample_def closed_result_def)
  then show ?thesis by (simp add: Let_def closed_result_def)
qed

section \<open>Starting\<close>

lemma push_all_fields [simp]:
  "q_capacity (fold push xs q) = q_capacity q" "q_closed (fold push xs q) = q_closed q"
  "q_close_generation (fold push xs q) = q_close_generation q"
  by (induction xs arbitrary: q) simp_all

lemma restarted_queue:
  assumes "queue_ok q"
  shows "q_samples (fold push xs (reset (close q))) = drop (length xs - q_capacity q) xs"
    "q_dropped_count (fold push xs (reset (close q))) = of_nat (length xs - q_capacity q)"
proof -
  have "open_queue (reset (close q))" "q_samples (reset (close q)) = []" "q_capacity (reset (close q)) = q_capacity q"
    "q_dropped_count (reset (close q)) = 0"
    using assms by (simp_all add: open_queue_def queue_ok_def reset_def close_def)
  then show "q_samples (fold push xs (reset (close q))) = drop (length xs - q_capacity q) xs"
    "q_dropped_count (fold push xs (reset (close q))) = of_nat (length xs - q_capacity q)"
    using sq.put_all_last [of "reset (close q)" "q_capacity q" xs] push_all_dropped_count [of "reset (close q)" xs]
    by (simp_all add: open_queue_def)
qed

lemma one_two_nonzero: "(1::u64) \<noteq> 0" "(2::u64) \<noteq> 0" by simp_all

section \<open>Waiting for the first sample\<close>

definition first_end_turn :: "platform \<Rightarrow> fl \<Rightarrow> u64 \<Rightarrow> time_point \<Rightarrow> first_turn \<Rightarrow> bool" where
  "first_end_turn P d g started_at t \<longleftrightarrow>
     \<not> fs_running t \<or> fs_faulted t \<or> fs_generation t \<noteq> g \<or> fs_generation_after t \<noteq> g \<or>
     timed_out (rounding_mode P) (Some d) started_at (fs_now_after t)"

definition core_saw_sample :: "platform \<Rightarrow> fl \<Rightarrow> time_point \<Rightarrow> first_turn \<Rightarrow> bool" where
  "core_saw_sample P d started_at t \<longleftrightarrow>
     wait_for_first_sample P (fs_call_now t)
       (wait_duration (rounding_mode P) (Some d) started_at (fs_now t)) (fs_wakes t) (fs_entry t) = Some (Inr True)"

lemma first_sample_loop_result:
  assumes "std_platform P" and "list_all (\<lambda>t. fs_call_now t \<le> 2 ^ 62) ts"
  shows "\<not> (\<exists>e. first_sample_loop P d g started_at ts = Some (Inl e))"
    and "list_all (\<lambda>t. list_ex fst (fs_wakes t)) ts \<Longrightarrow> list_ex (first_end_turn P d g started_at) ts \<Longrightarrow>
      first_sample_loop P d g started_at ts \<noteq> None"
    and "first_sample_loop P d g started_at ts = Some (Inr True) \<Longrightarrow>
      list_ex (\<lambda>t. core_saw_sample P d started_at t \<and> fs_generation_after t = g \<and> fs_running t) ts"
proof -
  have "\<not> (\<exists>e. first_sample_loop P d g started_at ts = Some (Inl e)) \<and>
    (list_all (\<lambda>t. list_ex fst (fs_wakes t)) ts \<longrightarrow> list_ex (first_end_turn P d g started_at) ts \<longrightarrow>
      first_sample_loop P d g started_at ts \<noteq> None) \<and>
    (first_sample_loop P d g started_at ts = Some (Inr True) \<longrightarrow>
      list_ex (\<lambda>t. core_saw_sample P d started_at t \<and> fs_generation_after t = g \<and> fs_running t) ts)"
    using assms(2)
  proof (induction ts)
    case (Cons t ts)
    let ?w = "wait_for_first_sample P (fs_call_now t)
        (wait_duration (rounding_mode P) (Some d) started_at (fs_now t)) (fs_wakes t) (fs_entry t)"
    have "?w \<noteq> Some (Inl e)" "list_ex fst (fs_wakes t) \<Longrightarrow> ?w \<noteq> None" for e
      using slice_call_accepted [OF assms(1)] Cons.prems by simp_all
    then show ?case
      using Cons.IH Cons.prems by (auto simp: first_end_turn_def core_saw_sample_def split: option.splits sum.splits)
  qed simp
  then show "\<not> (\<exists>e. first_sample_loop P d g started_at ts = Some (Inl e))"
    and "list_all (\<lambda>t. list_ex fst (fs_wakes t)) ts \<Longrightarrow> list_ex (first_end_turn P d g started_at) ts \<Longrightarrow>
      first_sample_loop P d g started_at ts \<noteq> None"
    and "first_sample_loop P d g started_at ts = Some (Inr True) \<Longrightarrow>
      list_ex (\<lambda>t. core_saw_sample P d started_at t \<and> fs_generation_after t = g \<and> fs_running t) ts"
    by blast+
qed

section \<open>Properties\<close>

text \<open>
  C12. A start begins with a fresh queue, and readers of the previous run are turned away. Unless the
  client is already running without a fault, a start that succeeds leaves the client running and the
  queue open, holding only what the new worker has pushed; one that fails leaves it stopped and the
  queue closed. A read that took its generation before the start and looks at the queue after it is
  answered Closed, whatever was pushed meanwhile.
\<close>

theorem start_separates_runs:
  assumes "queue_ok (n_queue n)" and "\<not> n_running n \<or> impl_faulted (n_client n)"
    and "native_start self ts (fold push xs) n = (Some r, n')" and "rd_others t (n_queue n) = n_queue n'"
  shows "(case r of
       Inr _ \<Rightarrow> n_running n' \<and> \<not> q_closed (n_queue n') \<and>
         q_samples (n_queue n') = drop (length xs - q_capacity (n_queue n)) xs \<and>
         queue_dropped_count n' = of_nat (length xs - q_capacity (n_queue n))
     | Inl _ \<Rightarrow> \<not> n_running n' \<and> q_closed (n_queue n')) \<and>
    (\<exists>q ws. read_loop R timeout (queue_generation (n_queue n)) started_at (t # us) (n_queue n) =
       (Some closed_result, q, ws))"
proof -
  obtain s where "impl_start self (Some push_callback) ts (n_client n) = (Some r, s)" and
    n': "n' = (case r of
       Inr _ \<Rightarrow> n\<lparr>n_running := True, n_queue := fold push xs (reset (close (n_queue n))), n_client := s\<rparr>
     | Inl _ \<Rightarrow> n\<lparr>n_running := False, n_queue := close (fold push xs (reset (close (n_queue n)))), n_client := s\<rparr>)"
    using assms(2,3) by (auto simp: native_start_def Let_def split: if_splits prod.splits option.splits sum.splits)
  then have "q_close_generation (n_queue n') \<noteq> queue_generation (n_queue n)"
    by (auto simp: queue_generation_def close_def reset_def split: sum.splits)
  then have "\<exists>q ws. read_loop R timeout (queue_generation (n_queue n)) started_at (t # us) (n_queue n) =
       (Some closed_result, q, ws)"
    using assms(4) by (intro read_loop_stale) simp
  then show ?thesis
    using n' restarted_queue [OF assms(1), of xs]
    by (auto simp: queue_dropped_count_def dropped_count_def close_def reset_def split: sum.splits)
qed

definition example_native :: native_client where
  "example_native = \<lparr>n_queue = push (sample_numbered 3) queue_of_two, n_client = l_impl example_lifecycle, n_running = False\<rparr>"

definition quiet_turn :: "(sample_queue \<Rightarrow> sample_queue) \<Rightarrow> read_turn" where
  "quiet_turn f = \<lparr>rd_running = True, rd_faulted = False, rd_now = 0, rd_others = f, rd_wakes = [(True, id)],
     rd_running_after = True, rd_faulted_after = False, rd_now_after = 1000000000\<rparr>"

theorem start_separates_runs_witness:
  "\<exists>n'. native_start 0 [plain_turn 1] (fold push [sample_numbered 4]) example_native = (Some (Inr ()), n') \<and>
     n_running n' \<and> q_samples (n_queue n') = [sample_numbered 4] \<and>
     (\<exists>q ws. read_loop ToNearest None (queue_generation (n_queue example_native)) 0 [quiet_turn (\<lambda>_. n_queue n')]
        (n_queue example_native) = (Some closed_result, q, ws))"
proof -
  have q: "queue_ok (n_queue example_native)" "\<not> n_running example_native"
    by (simp_all add: example_native_def queue_ok_def push_def queue_of_two_def)
  obtain n' where n: "native_start 0 [plain_turn 1] (fold push [sample_numbered 4]) example_native = (Some (Inr ()), n')"
    "q_capacity (n_queue example_native) = 2"
    by (simp add: native_start_def push_def queue_of_two_def example_native_def example_lifecycle_def start_section_def plain_turn_def example_impl_def Let_def)
  have "rd_others (quiet_turn (\<lambda>_. n_queue n')) (n_queue example_native) = n_queue n'" by (simp add: quiet_turn_def)
  from start_separates_runs [OF q(1) disjI1 [OF q(2)] n(1) this, of ToNearest None 0 "[]"] n show ?thesis
    by (simp del: read_loop.simps)
qed

text \<open>
  C30. A read returns and tells the truth. If every wait on the queue ends and some turn sees the
  client stopped, faulted or the time-out expired, the call has returned. It answers Timeout only when
  a reading of the clock showed the time-out expired, it carries a sample exactly when it says so, and
  every wait it makes is between zero and a sixteenth of a second.
\<close>

theorem native_read_outcome:
  assumes "native_read P timeout started_at ts n = (res, n', ws)"
  shows "(list_all (\<lambda>t. list_ex fst (rd_wakes t)) ts \<and>
      list_ex (read_end_turn (rounding_mode P) timeout started_at) ts \<longrightarrow> res \<noteq> None) \<and>
    (\<forall>r. res = Some (Inr r) \<longrightarrow>
      (rr_status r = ReadTimeout \<longrightarrow> list_ex (\<lambda>t. timed_out (rounding_mode P) timeout started_at (rd_now_after t)) ts) \<and>
      (rr_status r = ReadSample \<longleftrightarrow> rr_sample r \<noteq> None)) \<and>
    list_all (\<lambda>w. \<exists>v. w = Fin v \<and> 0 \<le> v \<and> v \<le> 1 / 16) ws"
proof (cases "(case timeout of None \<Rightarrow> Inr () | Some d \<Rightarrow> require_representable_timeout P ''timeout'' d)")
  case (Inl e)
  then show ?thesis using assms by (auto simp: native_read_def)
next
  case (Inr u)
  obtain r q w where l: "read_loop (rounding_mode P) timeout (queue_generation (n_queue n)) started_at ts (n_queue n) = (r, q, w)"
    by (metis prod_cases3)
  then have e: "res = map_option Inr r" "ws = w" using assms Inr by (auto simp: native_read_def)
  have "list_all (\<lambda>w. \<exists>v. w = Fin v \<and> 0 \<le> v \<and> v \<le> 1 / 16) w"
    using read_loop_waits [of "rounding_mode P" timeout "queue_generation (n_queue n)" started_at ts "n_queue n"] l by simp
  moreover have "list_all (\<lambda>t. list_ex fst (rd_wakes t)) ts \<Longrightarrow>
      list_ex (read_end_turn (rounding_mode P) timeout started_at) ts \<Longrightarrow> r \<noteq> None"
    using read_loop_returns [of ts "rounding_mode P" timeout started_at "queue_generation (n_queue n)" "n_queue n"] l by simp
  moreover note read_loop_result
  ultimately show ?thesis using l e by fastforce
qed

theorem native_read_outcome_witness:
  "\<exists>res n' ws. native_read linux_x86_64 None 0 [(quiet_turn id)\<lparr>rd_faulted_after := True\<rparr>]
       (example_native\<lparr>n_queue := queue_of_two\<rparr>) = (res, n', ws) \<and> res \<noteq> None"
proof -
  let ?ts = "[(quiet_turn id)\<lparr>rd_faulted_after := True\<rparr>]"
  obtain res n' ws where r: "native_read linux_x86_64 None 0 ?ts (example_native\<lparr>n_queue := queue_of_two\<rparr>) = (res, n', ws)"
    by (metis prod_cases3)
  show ?thesis using native_read_outcome [OF r] r by (auto simp: quiet_turn_def read_end_turn_def)
qed

text \<open>
  C31. Waiting for the first sample. With an accepted time-out the call never throws, because the
  slices it hands to the core fit the clock; if every wait of the core ends, it has returned once a
  turn sees the client stopped, faulted, restarted or the time-out expired; and it answers true only when the core saw a sample of
  this run while the generation of the queue was still the one the call began with.
\<close>

theorem native_first_sample_outcome:
  assumes "std_platform P" and "list_all (\<lambda>t. fs_call_now t \<le> 2 ^ 62) ts"
    and "require_representable_timeout P ''timeout'' d = Inr ()"
  shows "(\<nexists>e. native_wait_for_first_sample P d started_at ts n = Some (Inl e)) \<and>
    (list_all (\<lambda>t. list_ex fst (fs_wakes t)) ts \<and> list_ex (first_end_turn P d (queue_generation (n_queue n)) started_at) ts \<longrightarrow>
      native_wait_for_first_sample P d started_at ts n \<noteq> None) \<and>
    (native_wait_for_first_sample P d started_at ts n = Some (Inr True) \<longrightarrow>
      list_ex (\<lambda>t. core_saw_sample P d started_at t \<and> fs_generation_after t = queue_generation (n_queue n) \<and> fs_running t) ts)"
  using first_sample_loop_result [OF assms(1,2), of d "queue_generation (n_queue n)" started_at] assms(3)
  by (auto simp: native_wait_for_first_sample_def)

theorem native_first_sample_outcome_witness:
  "native_wait_for_first_sample windows_x86_64 (Fin 0) 0
     [\<lparr>fs_running = True, fs_faulted = False, fs_generation = 0, fs_now = 0, fs_call_now = 0, fs_entry = example_impl,
       fs_wakes = [(True, id)], fs_generation_after = 1, fs_now_after = 0\<rparr>] example_native \<noteq> None"
proof -
  have r: "require_representable_timeout windows_x86_64 ''timeout'' (Fin 0) = Inr ()"
    by (rule require_representable_ordinary) simp_all
  show ?thesis
    using native_first_sample_outcome [OF _ _ r, of "[\<lparr>fs_running = True, fs_faulted = False, fs_generation = 0, fs_now = 0, fs_call_now = 0,
       fs_entry = example_impl, fs_wakes = [(True, id)], fs_generation_after = 1, fs_now_after = 0\<rparr>]" 0 example_native]
    by (simp add: first_end_turn_def example_native_def push_def queue_of_two_def queue_generation_def)
qed

end
