(* ===== verification/Bindings.thy ===== *)
theory Bindings
  imports Native_Client
begin

text \<open>
  What the extension module \<open>_native\<close> shows to Python (\<open>bindings/python/bind_types.cpp\<close> and
  \<open>module.cpp\<close>): the names of the enumerators, the attributes of the bound classes with the members they
  read and write, and the Python class each C++ exception becomes. pybind11 converts the values and
  looks names up in these tables; the tables are the code's. An attribute is a name with the reading
  of a member and, where it is writable, the writing. The lemmas show that names and enumerators
  correspond one to one, that attributes are independent and read back what was written, that no
  member is hidden, and which exceptions a Python caller of the client can see.
\<close>

section \<open>Enumerations\<close>

definition force_unit_values :: "(string \<times> force_unit) list" where
  "force_unit_values =
     [(''UNKNOWN'', ForceUnknown), (''POUND_FORCE'', PoundForce), (''NEWTON'', Newton),
      (''KILO_POUND_FORCE'', KiloPoundForce), (''KILO_NEWTON'', KiloNewton), (''KILOGRAM_FORCE'', KilogramForce)]"

definition torque_unit_values :: "(string \<times> torque_unit) list" where
  "torque_unit_values =
     [(''UNKNOWN'', TorqueUnknown), (''POUND_FORCE_INCH'', PoundForceInch), (''POUND_FORCE_FOOT'', PoundForceFoot),
      (''NEWTON_METER'', NewtonMeter), (''NEWTON_MILLIMETER'', NewtonMillimeter),
      (''KILOGRAM_FORCE_CENTIMETER'', KilogramForceCentimeter), (''KILO_NEWTON_METER'', KiloNewtonMeter)]"

definition calibration_source_values :: "(string \<times> calibration_source) list" where
  "calibration_source_values = [(''SENSOR'', Sensor), (''OVERRIDE'', Override)]"

definition recovery_policy_values :: "(string \<times> recovery_policy) list" where
  "recovery_policy_values = [(''RECONNECT'', Reconnect), (''FAIL_STOP'', FailStop)]"

definition client_state_values :: "(string \<times> client_state) list" where
  "client_state_values =
     [(''STOPPED'', Stopped), (''CONNECTING'', Connecting), (''STREAMING'', Streaming), (''BACKOFF'', Backoff),
      (''FAULTED'', Faulted)]"

definition fault_code_values :: "(string \<times> fault_code) list" where
  "fault_code_values =
     [(''NONE'', FaultNone), (''SENSOR_CONFIGURATION'', FaultSensorConfiguration), (''TIMEOUT'', FaultTimeout),
      (''SOCKET'', FaultSocket), (''SERIOUS_STATUS'', FaultSeriousStatus), (''FT_STALL'', FaultFtStall),
      (''FT_BACKWARD'', FaultFtBackward), (''MALFORMED_STORM'', FaultMalformedStorm), (''CALLBACK'', FaultCallback)]"

definition status_severity_values :: "(string \<times> status_severity) list" where
  "status_severity_values = [(''OK'', SeverityOk), (''WARN'', SeverityWarn), (''ERROR'', SeverityError)]"

definition read_status_values :: "(string \<times> read_status) list" where
  "read_status_values = [(''SAMPLE'', ReadSample), (''TIMEOUT'', ReadTimeout), (''CLOSED'', ReadClosed)]"

text \<open>The name of an enumerator, as the other direction of a table.\<close>

fun name_of :: "(string \<times> 'e) list \<Rightarrow> 'e \<Rightarrow> string option" where
  "name_of [] e = None"
| "name_of ((n, x) # t) e = (if x = e then Some n else name_of t e)"

section \<open>Attributes\<close>

text \<open>The values of the members, as pybind11 receives them.\<close>

datatype val =
    VInt int | VU32 u32 | VU64 u64 | VDouble fl | VBool bool | VString string
  | VForceUnit force_unit | VTorqueUnit torque_unit | VSource calibration_source | VPolicy recovery_policy
  | VState client_state | VFault fault_code | VReadStatus read_status
  | VInts "int list" | VDoubles "fl list"
  | VCalibration calibration | VOptCalibration "calibration option" | VOptConfiguration "sensor_configuration option"
  | VOptU32 "u32 option" | VOptDouble "fl option" | VOptSample "sample option"

text \<open>
  An attribute: how it is read, and how it is written if it can be. Writing a value of another type is
  refused (\<open>None\<close>), as is writing a read-only attribute.
\<close>

record 'o attribute =
  a_name :: string
  a_get :: "'o \<Rightarrow> val"
  a_set :: "val \<Rightarrow> 'o \<Rightarrow> 'o option"

definition readonly :: "string \<Rightarrow> ('o \<Rightarrow> val) \<Rightarrow> 'o attribute" where
  "readonly n g = \<lparr>a_name = n, a_get = g, a_set = (\<lambda>_ _. None)\<rparr>"

definition readwrite :: "string \<Rightarrow> ('o \<Rightarrow> val) \<Rightarrow> (val \<Rightarrow> 'o \<Rightarrow> 'o option) \<Rightarrow> 'o attribute" where
  "readwrite n g w = \<lparr>a_name = n, a_get = g, a_set = w\<rparr>"

text \<open>The conversions of a value to the type of the member, and the writing of a member.\<close>

definition setter :: "(val \<Rightarrow> 'a option) \<Rightarrow> ('a \<Rightarrow> 'o \<Rightarrow> 'o) \<Rightarrow> val \<Rightarrow> 'o \<Rightarrow> 'o option" where
  "setter cast f v s = map_option (\<lambda>x. f x s) (cast v)"

fun as_int :: "val \<Rightarrow> int option" where "as_int (VInt x) = Some x" | "as_int _ = None"
fun as_u64 :: "val \<Rightarrow> u64 option" where "as_u64 (VU64 x) = Some x" | "as_u64 _ = None"
fun as_double :: "val \<Rightarrow> fl option" where "as_double (VDouble x) = Some x" | "as_double _ = None"
fun as_bool :: "val \<Rightarrow> bool option" where "as_bool (VBool x) = Some x" | "as_bool _ = None"
fun as_string :: "val \<Rightarrow> string option" where "as_string (VString x) = Some x" | "as_string _ = None"
fun as_force_unit :: "val \<Rightarrow> force_unit option" where "as_force_unit (VForceUnit x) = Some x" | "as_force_unit _ = None"
fun as_torque_unit :: "val \<Rightarrow> torque_unit option" where "as_torque_unit (VTorqueUnit x) = Some x" | "as_torque_unit _ = None"
fun as_source :: "val \<Rightarrow> calibration_source option" where "as_source (VSource x) = Some x" | "as_source _ = None"
fun as_policy :: "val \<Rightarrow> recovery_policy option" where "as_policy (VPolicy x) = Some x" | "as_policy _ = None"
fun as_calibration :: "val \<Rightarrow> calibration option" where "as_calibration (VCalibration x) = Some x" | "as_calibration _ = None"
fun as_opt_calibration :: "val \<Rightarrow> calibration option option" where
  "as_opt_calibration (VOptCalibration x) = Some x" | "as_opt_calibration _ = None"

text \<open>\<open>duration_getter\<close> and \<open>duration_setter\<close>: the seconds of a \<open>duration<double>\<close>.\<close>

definition duration_attribute :: "string \<Rightarrow> ('o \<Rightarrow> fl) \<Rightarrow> (fl \<Rightarrow> 'o \<Rightarrow> 'o) \<Rightarrow> 'o attribute" where
  "duration_attribute n g f = readwrite n (\<lambda>s. VDouble (g s)) (setter as_double f)"

definition calibration_attributes :: "calibration attribute list" where
  "calibration_attributes =
     [readwrite ''counts_per_force_unit'' (\<lambda>k. VDouble (counts_per_force_unit k))
        (setter as_double (\<lambda>x k. k\<lparr>counts_per_force_unit := x\<rparr>)),
      readwrite ''counts_per_torque_unit'' (\<lambda>k. VDouble (counts_per_torque_unit k))
        (setter as_double (\<lambda>x k. k\<lparr>counts_per_torque_unit := x\<rparr>)),
      readwrite ''force_unit'' (\<lambda>k. VForceUnit (force_unit k))
        (setter as_force_unit (\<lambda>u k. k\<lparr>force_unit := u\<rparr>)),
      readwrite ''torque_unit'' (\<lambda>k. VTorqueUnit (torque_unit k))
        (setter as_torque_unit (\<lambda>u k. k\<lparr>torque_unit := u\<rparr>))]"

definition sensor_configuration_attributes :: "sensor_configuration attribute list" where
  "sensor_configuration_attributes =
     [readwrite ''product_name'' (\<lambda>c. VString (product_name c))
        (setter as_string (\<lambda>x c. c\<lparr>product_name := x\<rparr>)),
      readwrite ''calibration'' (\<lambda>c. VCalibration (calibration c))
        (setter as_calibration (\<lambda>x c. c\<lparr>calibration := x\<rparr>)),
      readwrite ''source'' (\<lambda>c. VSource (source c))
        (setter as_source (\<lambda>x c. c\<lparr>source := x\<rparr>)),
      readwrite ''revision'' (\<lambda>c. VU64 (revision c))
        (setter as_u64 (\<lambda>x c. c\<lparr>revision := x\<rparr>))]"

definition config_attributes :: "config attribute list" where
  "config_attributes =
     [readwrite ''sensor_host'' (\<lambda>c. VString (sensor_host c))
        (setter as_string (\<lambda>x c. c\<lparr>sensor_host := x\<rparr>)),
      readwrite ''rdt_port'' (\<lambda>c. VInt (rdt_port c))
        (setter as_int (\<lambda>x c. c\<lparr>rdt_port := x\<rparr>)),
      readwrite ''http_port'' (\<lambda>c. VInt (http_port c))
        (setter as_int (\<lambda>x c. c\<lparr>http_port := x\<rparr>)),
      duration_attribute ''receive_timeout'' receive_timeout (\<lambda>x c. c\<lparr>receive_timeout := x\<rparr>),
      duration_attribute ''configuration_connect_timeout'' configuration_connect_timeout
        (\<lambda>x c. c\<lparr>configuration_connect_timeout := x\<rparr>),
      duration_attribute ''configuration_timeout'' configuration_timeout (\<lambda>x c. c\<lparr>configuration_timeout := x\<rparr>),
      duration_attribute ''reconnect_initial_delay'' reconnect_initial_delay
        (\<lambda>x c. c\<lparr>reconnect_initial_delay := x\<rparr>),
      duration_attribute ''reconnect_max_delay'' reconnect_max_delay (\<lambda>x c. c\<lparr>reconnect_max_delay := x\<rparr>),
      readwrite ''sample_rate_limit_hz'' (\<lambda>c. VDouble (sample_rate_limit_hz c))
        (setter as_double (\<lambda>x c. c\<lparr>sample_rate_limit_hz := x\<rparr>)),
      readwrite ''deliver_samples_with_error_status'' (\<lambda>c. VBool (deliver_samples_with_error_status c))
        (setter as_bool (\<lambda>x c. c\<lparr>deliver_samples_with_error_status := x\<rparr>)),
      readwrite ''recovery_policy'' (\<lambda>c. VPolicy (recovery_policy c))
        (setter as_policy (\<lambda>x c. c\<lparr>recovery_policy := x\<rparr>)),
      readwrite ''calibration_override'' (\<lambda>c. VOptCalibration (calibration_override c))
        (setter as_opt_calibration (\<lambda>x c. c\<lparr>calibration_override := x\<rparr>))]"

text \<open>\<open>received_at_ns\<close> is the clock's count, which is in nanoseconds already.\<close>

definition sample_attributes :: "sample attribute list" where
  "sample_attributes =
     [readonly ''rdt_sequence'' (\<lambda>s. VU32 (s_rdt_sequence s)),
      readonly ''ft_sequence'' (\<lambda>s. VU32 (s_ft_sequence s)),
      readonly ''status'' (\<lambda>s. VU32 (s_status s)),
      readonly ''raw_wrench'' (\<lambda>s. VInts (s_raw_wrench s)),
      readonly ''force'' (\<lambda>s. VDoubles (s_force s)),
      readonly ''torque'' (\<lambda>s. VDoubles (s_torque s)),
      readonly ''force_unit'' (\<lambda>s. VForceUnit (s_force_unit s)),
      readonly ''torque_unit'' (\<lambda>s. VTorqueUnit (s_torque_unit s)),
      readonly ''configuration_revision'' (\<lambda>s. VU64 (s_configuration_revision s)),
      readonly ''received_at_ns'' (\<lambda>s. VInt (s_received_at s))]"

definition health_attributes :: "health attribute list" where
  "health_attributes =
     [readonly ''state'' (\<lambda>h. VState (h_state h)),
      readonly ''fault_code'' (\<lambda>h. VFault (h_fault_code h)),
      readonly ''sensor_host'' (\<lambda>h. VString (h_sensor_host h)),
      readonly ''rdt_port'' (\<lambda>h. VInt (h_rdt_port h)),
      readonly ''sensor_configuration'' (\<lambda>h. VOptConfiguration (h_sensor_configuration h)),
      readonly ''last_rdt_sequence'' (\<lambda>h. VOptU32 (h_last_rdt_sequence h)),
      readonly ''last_ft_sequence'' (\<lambda>h. VOptU32 (h_last_ft_sequence h)),
      readonly ''last_status'' (\<lambda>h. VU32 (h_last_status h)),
      readonly ''receive_rate_hz'' (\<lambda>h. VDouble (h_receive_rate_hz h)),
      readonly ''delivery_rate_hz'' (\<lambda>h. VDouble (h_delivery_rate_hz h)),
      readonly ''received_count'' (\<lambda>h. VU64 (h_received_count h)),
      readonly ''delivered_count'' (\<lambda>h. VU64 (h_delivered_count h)),
      readonly ''rate_limited_count'' (\<lambda>h. VU64 (h_rate_limited_count h)),
      readonly ''device_error_count'' (\<lambda>h. VU64 (h_device_error_count h)),
      readonly ''warning_count'' (\<lambda>h. VU64 (h_warning_count h)),
      readonly ''lost_count'' (\<lambda>h. VU64 (h_lost_count h)),
      readonly ''duplicate_count'' (\<lambda>h. VU64 (h_duplicate_count h)),
      readonly ''out_of_order_count'' (\<lambda>h. VU64 (h_out_of_order_count h)),
      readonly ''malformed_count'' (\<lambda>h. VU64 (h_malformed_count h)),
      readonly ''reconnect_count'' (\<lambda>h. VU64 (h_reconnect_count h)),
      readonly ''timeout_count'' (\<lambda>h. VU64 (h_timeout_count h)),
      readonly ''callback_error_count'' (\<lambda>h. VU64 (h_callback_error_count h)),
      readonly ''ft_stall_count'' (\<lambda>h. VU64 (h_ft_stall_count h)),
      readonly ''ft_backward_count'' (\<lambda>h. VU64 (h_ft_backward_count h)),
      readonly ''ft_restart_count'' (\<lambda>h. VU64 (h_ft_restart_count h)),
      readonly ''calibration_change_count'' (\<lambda>h. VU64 (h_calibration_change_count h)),
      readonly ''last_record_age'' (\<lambda>h. VOptDouble (h_last_record_age h)),
      readonly ''last_error'' (\<lambda>h. VString (h_last_error h)),
      readonly ''last_ft_progress'' (\<lambda>h. VString (h_last_ft_progress h))]"

definition read_result_attributes :: "read_result attribute list" where
  "read_result_attributes =
     [readonly ''status'' (\<lambda>r. VReadStatus (rr_status r)),
      readonly ''sample'' (\<lambda>r. VOptSample (rr_sample r))]"

text \<open>Reading and writing by name; \<open>None\<close> is an \<open>AttributeError\<close> or \<open>TypeError\<close>.\<close>

definition getattr :: "'o attribute list \<Rightarrow> string \<Rightarrow> 'o \<Rightarrow> val option" where
  "getattr t n s = map_option (\<lambda>a. a_get a s) (find (\<lambda>a. a_name a = n) t)"

definition setattr :: "'o attribute list \<Rightarrow> string \<Rightarrow> val \<Rightarrow> 'o \<Rightarrow> 'o option" where
  "setattr t n v s = (case find (\<lambda>a. a_name a = n) t of None \<Rightarrow> None | Some a \<Rightarrow> a_set a v s)"

section \<open>Exceptions\<close>

text \<open>
  A translator of the module: the exceptions it catches, the Python class and its base. The one
  registered last is asked first; an exception none of them catches is left to pybind11's own.
\<close>

fun is_invalid_argument :: "exn \<Rightarrow> bool" where
  "is_invalid_argument (InvalidArgument _) = True"
| "is_invalid_argument _ = False"

fun is_not_connected :: "exn \<Rightarrow> bool" where
  "is_not_connected (NotConnectedError _) = True"
| "is_not_connected _ = False"

definition translators :: "((exn \<Rightarrow> bool) \<times> string \<times> string) list" where
  "translators =
     [(is_invalid_argument, ''ValidationError'', ''ValueError''),
      (is_not_connected, ''NotConnectedError'', ''ConnectionError''),
      (is_discovery_error, ''DiscoveryError'', ''ConnectionError'')]"

definition translate :: "exn \<Rightarrow> (string \<times> string) option" where
  "translate e = map_option snd (find (\<lambda>t. fst t e) (rev translators))"

section \<open>Tables of attributes\<close>

text \<open>
  What a class binding promises: names are unique, an attribute reads back what was written to it, and
  writing one leaves the others alone.
\<close>

locale attribute_table =
  fixes table :: "'o attribute list"
  assumes names: "distinct (map a_name table)"
    and put_get: "a \<in> set table \<Longrightarrow> a_set a v s = Some s' \<Longrightarrow> a_get a s' = v"
    and put_other: "a \<in> set table \<Longrightarrow> b \<in> set table \<Longrightarrow> a_name b \<noteq> a_name a \<Longrightarrow> a_set a v s = Some s' \<Longrightarrow>
      a_get b s' = a_get b s"
begin

lemma find_in: "find (\<lambda>a. a_name a = n) table = Some a \<Longrightarrow> a \<in> set table \<and> a_name a = n"
  by (auto simp: find_Some_iff)

lemma set_get:
  assumes "setattr table n v s = Some s'"
  shows "getattr table n s' = Some v"
proof -
  obtain a where a: "find (\<lambda>a. a_name a = n) table = Some a" "a_set a v s = Some s'"
    using assms by (auto simp: setattr_def split: option.splits)
  then have "a_get a s' = v" using put_get find_in by blast
  then show ?thesis using a by (simp add: getattr_def)
qed

lemma set_other:
  assumes "setattr table n v s = Some s'" and "n' \<noteq> n"
  shows "getattr table n' s' = getattr table n' s"
proof (cases "find (\<lambda>a. a_name a = n') table")
  case (Some b)
  obtain a where a: "find (\<lambda>a. a_name a = n) table = Some a" "a_set a v s = Some s'"
    using assms by (auto simp: setattr_def split: option.splits)
  have "a_get b s' = a_get b s" using put_other [of a b v s s'] find_in [OF a(1)] find_in [OF Some] a(2) assms(2) by simp
  then show ?thesis using Some by (simp add: getattr_def)
qed (simp add: getattr_def)

lemma find_name: "a \<in> set table \<Longrightarrow> find (\<lambda>b. a_name b = a_name a) table = Some a"
  using names by (induction table) auto

end

text \<open>No member is hidden: the attributes determine the object.\<close>

locale complete_table = attribute_table +
  assumes complete: "\<forall>a \<in> set table. a_get a s = a_get a s' \<Longrightarrow> s = s'"
begin

lemma same_attributes:
  assumes "\<And>n. getattr table n s = getattr table n s'"
  shows "s = s'"
proof (rule complete, rule ballI)
  fix a assume a: "a \<in> set table"
  show "a_get a s = a_get a s'"
    using assms [of "a_name a"] find_name [OF a] by (simp add: getattr_def)
qed

text \<open>An object is what was written last to each attribute, whatever the order of the writes.\<close>

lemma writes_commute:
  assumes "setattr table n v s = Some s1" and "setattr table m w s1 = Some s2"
    and "setattr table m w s = Some s3" and "setattr table n v s3 = Some s4" and "n \<noteq> m"
  shows "s2 = s4"
proof (rule same_attributes)
  fix k show "getattr table k s2 = getattr table k s4"
    using set_get [OF assms(1)] set_get [OF assms(2)] set_get [OF assms(3)] set_get [OF assms(4)]
      set_other [OF assms(1), of k] set_other [OF assms(2), of k] set_other [OF assms(3), of k] set_other [OF assms(4), of k]
      assms(5)
    by (cases "k = n"; cases "k = m") simp_all
qed

end

lemma setter_Some: "setter cast f v s = Some s' \<longleftrightarrow> (\<exists>x. cast v = Some x \<and> s' = f x s)"
  by (auto simp: setter_def)

lemma cast_Some:
  "as_int v = Some i \<longleftrightarrow> v = VInt i" "as_u64 v = Some u \<longleftrightarrow> v = VU64 u" "as_double v = Some d \<longleftrightarrow> v = VDouble d"
  "as_bool v = Some b \<longleftrightarrow> v = VBool b" "as_string v = Some x \<longleftrightarrow> v = VString x"
  "as_force_unit v = Some fu \<longleftrightarrow> v = VForceUnit fu" "as_torque_unit v = Some tu \<longleftrightarrow> v = VTorqueUnit tu"
  "as_source v = Some cs \<longleftrightarrow> v = VSource cs" "as_policy v = Some rp \<longleftrightarrow> v = VPolicy rp"
  "as_calibration v = Some k \<longleftrightarrow> v = VCalibration k" "as_opt_calibration v = Some ok \<longleftrightarrow> v = VOptCalibration ok"
  by (cases v; simp)+

text \<open>
  A class whose every attribute can be written, with a value read from another object at least: then
  an object can be copied attribute by attribute.
\<close>

fun write_all :: "'o attribute list \<Rightarrow> 'o \<Rightarrow> 'o \<Rightarrow> 'o option" where
  "write_all [] d s = Some s"
| "write_all (a # t) d s = Option.bind (a_set a (a_get a d) s) (write_all t d)"

locale writable_table = complete_table +
  assumes accepts: "a \<in> set table \<Longrightarrow> \<exists>s'. a_set a (a_get a d) s = Some s'"
begin

lemma write_part:
  assumes "set t \<subseteq> set table" and "distinct (map a_name t)"
  shows "\<exists>s'. write_all t d s = Some s' \<and> (\<forall>a \<in> set t. a_get a s' = a_get a d) \<and>
    (\<forall>b \<in> set table. a_name b \<notin> a_name ` set t \<longrightarrow> a_get b s' = a_get b s)"
  using assms
proof (induction t arbitrary: s)
  case (Cons a t)
  obtain s1 where s1: "a_set a (a_get a d) s = Some s1" using accepts [of a d s] Cons.prems(1) by auto
  obtain s' where s': "write_all t d s1 = Some s'" "\<forall>a \<in> set t. a_get a s' = a_get a d"
    "\<forall>b \<in> set table. a_name b \<notin> a_name ` set t \<longrightarrow> a_get b s' = a_get b s1"
    using Cons.IH [of s1] Cons.prems by auto
  have a: "a \<in> set table" "a_name a \<notin> a_name ` set t" using Cons.prems by auto
  have "a_get a s' = a_get a d" using s'(3) a put_get [OF a(1) s1] by simp
  moreover have "a_get b s' = a_get b s" if "b \<in> set table" "a_name b \<notin> a_name ` set (a # t)" for b
    using s'(3) put_other [OF a(1) that(1) _ s1] that by auto
  ultimately show ?case using s1 s' by auto
qed simp

lemma write_all_copies: "write_all table d s = Some d"
proof -
  obtain s' where "write_all table d s = Some s'" "\<forall>a \<in> set table. a_get a s' = a_get a d"
    using write_part [OF order.refl names] by blast
  then show ?thesis using complete [of s' d] by simp
qed

end

text \<open>The laws as one check over a table.\<close>

definition independent :: "'o attribute \<Rightarrow> 'o attribute \<Rightarrow> bool" where
  "independent a b \<longleftrightarrow> (\<forall>v s s'. a_set a v s = Some s' \<longrightarrow> a_get b s' = a_get b s)"

definition reads_back :: "'o attribute \<Rightarrow> bool" where
  "reads_back a \<longleftrightarrow> (\<forall>v s s'. a_set a v s = Some s' \<longrightarrow> a_get a s' = v)"

fun pairwise_independent :: "'o attribute list \<Rightarrow> bool" where
  "pairwise_independent [] = True"
| "pairwise_independent (a # t) =
     (list_all (\<lambda>b. independent a b \<and> independent b a) t \<and> pairwise_independent t)"

lemma pairwise_independentD:
  "pairwise_independent t \<Longrightarrow> a \<in> set t \<Longrightarrow> b \<in> set t \<Longrightarrow> a \<noteq> b \<Longrightarrow> independent a b"
  by (induction t) (auto simp: list_all_iff)

lemma attribute_tableI:
  assumes "distinct (map a_name t)" and "list_all reads_back t" and "pairwise_independent t"
  shows "attribute_table t"
proof
  show "distinct (map a_name t)" by fact
  show "a_get a s' = v" if "a \<in> set t" "a_set a v s = Some s'" for a v s s'
    using assms(2) that by (auto simp: list_all_iff reads_back_def)
  show "a_get b s' = a_get b s" if "a \<in> set t" "b \<in> set t" "a_name b \<noteq> a_name a" "a_set a v s = Some s'" for a b v s s'
    using pairwise_independentD [OF assms(3) that(1,2)] that by (auto simp: independent_def)
qed

lemma readwrite_laws:
  "reads_back (readwrite n g (setter cast f)) \<longleftrightarrow> (\<forall>v x s. cast v = Some x \<longrightarrow> g (f x s) = v)"
  "independent (readwrite n g (setter cast f)) b \<longleftrightarrow> (\<forall>v x s. cast v = Some x \<longrightarrow> a_get b (f x s) = a_get b s)"
  "reads_back (readonly n g)" "independent (readonly n g) b"
  "a_name (readwrite n g w) = n" "a_get (readwrite n g w) = g" "a_name (readonly n g) = n" "a_get (readonly n g) = g"
  "a_set (readwrite n g w) = w" "a_set (readonly n g) v s = None"
  by (auto simp: reads_back_def independent_def readwrite_def readonly_def setter_Some)

lemmas table_simps = readwrite_laws duration_attribute_def cast_Some

interpretation py_calibration: writable_table calibration_attributes
proof (intro writable_table.intro complete_table.intro attribute_tableI complete_table_axioms.intro writable_table_axioms.intro)
  show "s = s'" if "\<forall>a \<in> set calibration_attributes. a_get a s = a_get a s'" for s s'
    using that by (simp add: calibration_attributes_def table_simps)
  show "\<exists>s'. a_set a (a_get a d) s = Some s'" if "a \<in> set calibration_attributes" for a d s
    using that by (auto simp: calibration_attributes_def table_simps setter_def)
qed (simp_all add: calibration_attributes_def table_simps)

interpretation py_sensor_configuration: writable_table sensor_configuration_attributes
proof (intro writable_table.intro complete_table.intro attribute_tableI complete_table_axioms.intro writable_table_axioms.intro)
  show "s = s'" if "\<forall>a \<in> set sensor_configuration_attributes. a_get a s = a_get a s'" for s s'
    using that by (simp add: sensor_configuration_attributes_def table_simps)
  show "\<exists>s'. a_set a (a_get a d) s = Some s'" if "a \<in> set sensor_configuration_attributes" for a d s
    using that by (auto simp: sensor_configuration_attributes_def table_simps setter_def)
qed (simp_all add: sensor_configuration_attributes_def table_simps)

interpretation py_config: writable_table config_attributes
proof (intro writable_table.intro complete_table.intro attribute_tableI complete_table_axioms.intro writable_table_axioms.intro)
  show "s = s'" if "\<forall>a \<in> set config_attributes. a_get a s = a_get a s'" for s s'
    using that by (simp add: config_attributes_def table_simps)
  show "\<exists>s'. a_set a (a_get a d) s = Some s'" if "a \<in> set config_attributes" for a d s
    using that by (auto simp: config_attributes_def table_simps setter_def)
qed (simp_all add: config_attributes_def table_simps)

interpretation py_sample: complete_table sample_attributes
proof (intro complete_table.intro attribute_tableI complete_table_axioms.intro)
  show "s = s'" if "\<forall>a \<in> set sample_attributes. a_get a s = a_get a s'" for s s'
    using that by (simp add: sample_attributes_def table_simps)
qed (simp_all add: sample_attributes_def table_simps)

interpretation py_health: complete_table health_attributes
proof (intro complete_table.intro attribute_tableI complete_table_axioms.intro)
  show "s = s'" if "\<forall>a \<in> set health_attributes. a_get a s = a_get a s'" for s s'
    using that by (simp add: health_attributes_def table_simps)
qed (simp_all add: health_attributes_def table_simps)

interpretation py_read_result: complete_table read_result_attributes
proof (intro complete_table.intro attribute_tableI complete_table_axioms.intro)
  show "s = s'" if "\<forall>a \<in> set read_result_attributes. a_get a s = a_get a s'" for s s'
    using that by (simp add: read_result_attributes_def table_simps)
qed (simp_all add: read_result_attributes_def table_simps)

lemma readonly_table: "\<forall>a \<in> set t. \<forall>v x. a_set a v x = None \<Longrightarrow> setattr t n v x = None"
  by (auto simp: setattr_def find_Some_iff split: option.splits)

section \<open>Enumerations and exceptions\<close>

text \<open>A table of an enumeration names every enumerator once.\<close>

definition enum_table :: "(string \<times> 'e) list \<Rightarrow> bool" where
  "enum_table t \<longleftrightarrow> distinct (map fst t) \<and> distinct (map snd t) \<and> snd ` set t = UNIV"

lemma enum_tableD:
  assumes "enum_table t"
  shows "\<exists>n. name_of t e = Some n" and "name_of t e = Some n \<longleftrightarrow> map_of t n = Some e"
proof -
  have n: "name_of u e = Some n \<longleftrightarrow> (n, e) \<in> set u" if "distinct (map snd u)" for u n
    using that by (induction u) (auto simp: image_iff split: if_splits)
  show "name_of t e = Some n \<longleftrightarrow> map_of t n = Some e"
    using n assms by (simp add: enum_table_def)
  have "e \<in> snd ` set t" using assms by (simp add: enum_table_def)
  then obtain n where "(n, e) \<in> set t" by auto
  then show "\<exists>n. name_of t e = Some n" using n assms by (auto simp: enum_table_def)
qed

lemma enum_tables:
  "enum_table force_unit_values" "enum_table torque_unit_values" "enum_table calibration_source_values"
  "enum_table recovery_policy_values" "enum_table client_state_values" "enum_table fault_code_values"
  "enum_table status_severity_values" "enum_table read_status_values"
  by (auto simp: enum_table_def force_unit_values_def torque_unit_values_def calibration_source_values_def
      recovery_policy_values_def client_state_values_def fault_code_values_def status_severity_values_def
      read_status_values_def)
    (metis force_unit.exhaust, metis torque_unit.exhaust, metis calibration_source.exhaust, metis recovery_policy.exhaust,
     metis client_state.exhaust, metis fault_code.exhaust, metis status_severity.exhaust, metis read_status.exhaust)

text \<open>What validation throws is an \<open>invalid_argument\<close>.\<close>

definition throws_only :: "(exn \<Rightarrow> bool) \<Rightarrow> 'a res \<Rightarrow> bool" where
  "throws_only Q r \<longleftrightarrow> (\<forall>e. r = Inl e \<longrightarrow> Q e)"

lemma throws_only_bind:
  "throws_only Q r \<Longrightarrow> (\<And>x. throws_only Q (f x)) \<Longrightarrow> throws_only Q (res_bind r f)"
  by (auto simp: throws_only_def res_bind_Inl_iff)

lemma throws_only_simps [simp]: "throws_only Q (Inr x)" "throws_only Q (Inl e) = Q e"
  by (simp_all add: throws_only_def)

lemma throws_invalid:
  "throws_only is_invalid_argument (checked_duration P d)"
  "throws_only is_invalid_argument (checked_deadline P now d)"
  "throws_only is_invalid_argument (require_positive_finite nm d)"
  "throws_only is_invalid_argument (require_port nm i)"
  "throws_only is_invalid_argument (require_safe_count nm d)"
  "throws_only is_invalid_argument (require_safe_timeout P now nm d http)"
  "throws_only is_invalid_argument (require_representable_timeout P nm d)"
  "throws_only is_invalid_argument (queue_new n)"
proof -
  show d: "throws_only is_invalid_argument (checked_duration P d)" for P d
    by (simp add: checked_duration_def Let_def)
  show l: "throws_only is_invalid_argument (checked_deadline P now d)" for P now d
    unfolding checked_deadline_def by (rule throws_only_bind) (simp_all add: d)
  show p: "throws_only is_invalid_argument (require_positive_finite nm d)" for nm d
    by (simp add: require_positive_finite_def)
  show "throws_only is_invalid_argument (require_safe_count nm d)"
    unfolding require_safe_count_def by (rule throws_only_bind) (simp_all add: p)
  show "throws_only is_invalid_argument (require_safe_timeout P now nm d http)"
    unfolding require_safe_timeout_def by (intro throws_only_bind) (auto simp: p d l intro: throws_only_bind)
qed (simp_all add: require_port_def require_representable_timeout_def queue_new_def Let_def)

lemma validate_calibration_throws: "throws_only is_invalid_argument (validate_calibration k)"
  unfolding validate_calibration_def by (intro throws_only_bind) (simp_all add: throws_invalid)

lemma validate_config_throws: "throws_only is_invalid_argument (validate_config P clock cfg)"
proof -
  have tail: "throws_only is_invalid_argument
      (if a then Inl (InvalidArgument m) else if b then Inl (InvalidArgument m')
       else case ok of None \<Rightarrow> Inr () | Some k \<Rightarrow> validate_calibration k)" for a b m m' ok
    by (simp add: validate_calibration_throws split: option.splits)
  show ?thesis
    unfolding validate_config_def
    by (cases "is_blank (sensor_host cfg)") (simp, simp only: if_False, intro throws_only_bind throws_invalid tail)
qed

lemma native_new_throws: "throws_only is_invalid_argument (native_new P clock cfg n once_result)"
  unfolding native_new_def impl_new_def
  by (intro throws_only_bind throws_invalid validate_config_throws) simp_all

lemma native_read_throws:
  assumes "native_read P timeout started_at ts n = (Some r, n', ws)"
  shows "throws_only is_invalid_argument r"
proof -
  have "throws_only is_invalid_argument
      (case timeout of None \<Rightarrow> Inr () | Some d \<Rightarrow> require_representable_timeout P ''timeout'' d)"
    by (simp add: throws_invalid split: option.splits)
  then show ?thesis
    using assms by (auto simp: native_read_def throws_only_def split: sum.splits prod.splits)
qed

lemma first_sample_loop_throws:
  "first_sample_loop P d g started_at ts = Some r \<Longrightarrow> throws_only is_invalid_argument r"
proof (induction ts)
  case (Cons t ts)
  have "is_invalid_argument e" if "wait_for_first_sample P now w ws s = Some (Inl e)" for now w ws s e
    using that throws_invalid(2) [of P now w]
    by (auto simp: wait_for_first_sample_def throws_only_def Let_def split: sum.splits if_splits option.splits)
  then show ?case using Cons by (auto simp: throws_only_def split: if_splits sum.splits option.splits)
qed simp

lemma native_wait_throws:
  "native_wait_for_first_sample P d started_at ts n = Some r \<Longrightarrow> throws_only is_invalid_argument r"
  using throws_invalid(7) [of P "''timeout''" d] first_sample_loop_throws
  by (auto simp: native_wait_for_first_sample_def throws_only_def split: sum.splits)

lemma translate_simps [simp]:
  "translate (InvalidArgument m) = Some (''ValidationError'', ''ValueError'')"
  "translate (NotConnectedError m) = Some (''NotConnectedError'', ''ConnectionError'')"
  "translate (DiscoveryError m) = Some (''DiscoveryError'', ''ConnectionError'')"
  "translate (LogicError m) = None" "translate (RuntimeError m) = None" "translate (ProtocolError m) = None"
  by (simp_all add: translate_def translators_def)

lemma translate_invalid: "is_invalid_argument e \<Longrightarrow> translate e = Some (''ValidationError'', ''ValueError'')"
  by (cases e) auto

section \<open>Properties\<close>

text \<open>
  C21. Python sees every member, and writes what it means to. A configuration can be copied to any other
  object attribute by attribute; an attribute that was written reads back the value and leaves the
  others alone; two samples, or two snapshots, whose attributes all agree are equal, and none of
  their attributes can be written.
\<close>

theorem python_attributes_faithful:
  "write_all config_attributes c d = Some c \<and>
   (setattr config_attributes n v c = Some c' \<longrightarrow>
      getattr config_attributes n c' = Some v \<and>
      (n' \<noteq> n \<longrightarrow> getattr config_attributes n' c' = getattr config_attributes n' c)) \<and>
   ((\<forall>k. getattr sample_attributes k s = getattr sample_attributes k s') \<longrightarrow> s = s') \<and>
   ((\<forall>k. getattr health_attributes k h = getattr health_attributes k h') \<longrightarrow> h = h') \<and>
   setattr sample_attributes n v s = None \<and> setattr health_attributes n v h = None"
proof -
  have "\<forall>a \<in> set sample_attributes. \<forall>v x. a_set a v x = None" "\<forall>a \<in> set health_attributes. \<forall>v x. a_set a v x = None"
    by (simp_all add: sample_attributes_def health_attributes_def table_simps)
  then show ?thesis
    using py_config.write_all_copies py_config.set_get py_config.set_other py_sample.same_attributes
      py_health.same_attributes
    by (auto intro: readonly_table)
qed

theorem python_attributes_faithful_witness:
  "\<exists>c'. setattr config_attributes ''rdt_port'' (VInt 5000) config_default = Some c' \<and>
     getattr config_attributes ''rdt_port'' c' = Some (VInt 5000) \<and>
     getattr config_attributes ''http_port'' c' = getattr config_attributes ''http_port'' config_default"
proof -
  obtain c' where c: "setattr config_attributes ''rdt_port'' (VInt 5000) config_default = Some c'"
    by (simp add: setattr_def config_attributes_def table_simps setter_def)
  from python_attributes_faithful [of config_default config_default "''rdt_port''" "VInt 5000" c' "''http_port''"] c
  show ?thesis by auto
qed

text \<open>
  C32. What a Python caller can catch. A configuration or queue size that is refused, and a time-out that
  is refused by \<open>read\<close> or \<open>wait_for_first_sample\<close>, are a \<open>ValidationError\<close>, which is a \<open>ValueError\<close>; a bias
  command on a client that is not streaming is a \<open>NotConnectedError\<close>; a failed send is left to
  pybind11.
\<close>

theorem python_errors:
  "(native_new P clock cfg capacity once_result = Inl e \<longrightarrow> translate e = Some (''ValidationError'', ''ValueError'')) \<and>
   (fst (native_read P timeout started_at ts n) = Some (Inl e) \<longrightarrow> translate e = Some (''ValidationError'', ''ValueError'')) \<and>
   (native_wait_for_first_sample P d started_at us n = Some (Inl e) \<longrightarrow>
      translate e = Some (''ValidationError'', ''ValueError'')) \<and>
   (fst (native_bias os r1 r2 n) = Inl e \<longrightarrow>
      translate e = (if c_stopping (n_client n) \<or> \<not> c_session_started (n_client n) \<or> native_faulted n \<or>
                        h_state (c_health (n_client n)) \<noteq> Streaming
                     then Some (''NotConnectedError'', ''ConnectionError'') else None))"
proof -
  have send: "translate e = None" if "transport_send os r t = Inl e" for r t
    using that by (cases os) (auto simp: posix_send_def win_send_def not_connected_def socket_error_def winsock_error_def
        split: option.splits send_outcome.splits if_splits)
  have "native_new P clock cfg capacity once_result = Inl e \<longrightarrow> is_invalid_argument e"
    using native_new_throws by (auto simp: throws_only_def)
  moreover have "fst (native_read P timeout started_at ts n) = Some (Inl e) \<longrightarrow> is_invalid_argument e"
    using native_read_throws by (metis prod.collapse throws_only_simps(2))
  moreover have "native_wait_for_first_sample P d started_at us n = Some (Inl e) \<longrightarrow> is_invalid_argument e"
    using native_wait_throws by (metis throws_only_simps(2))
  ultimately show ?thesis
    using translate_invalid send
    by (auto simp: native_bias_def bias_def native_faulted_def split: if_splits sum.splits)
qed

theorem python_errors_witness:
  "native_new linux_x86_64 (\<lambda>_. 0) config_default 0 None =
     Inl (InvalidArgument ''sample queue capacity must be greater than zero'') \<and>
   translate (InvalidArgument ''sample queue capacity must be greater than zero'') =
     Some (''ValidationError'', ''ValueError'')"
proof -
  have r: "native_new linux_x86_64 (\<lambda>_. 0) config_default 0 None =
     Inl (InvalidArgument ''sample queue capacity must be greater than zero'')"
    by (simp add: native_new_def queue_new_def)
  from python_errors [of linux_x86_64 "\<lambda>_. 0" config_default 0 None
      "InvalidArgument ''sample queue capacity must be greater than zero''"] r
  show ?thesis by (simp del: translate_simps)
qed

end
