(* ===== verification/Wakeups.thy ===== *)
theory Wakeups
  imports Prelude
begin

text \<open>
  Waiting on a condition variable, one level below the critical sections of the other theories. A
  thread that waits evaluates its predicate with the mutex held and then gives the mutex up and blocks
  in one step; a notification wakes it only if it has blocked. Whether a change of the predicate can
  be missed depends on whether the changing thread holds the same mutex. The theory states the
  discipline that makes a wait safe, shows that it suffices for any number of signalling threads in
  any order, and looks at every place of \<open>core/src/detail/client_impl.cpp\<close>, \<open>core/src/client.cpp\<close> and
  \<open>bindings/python/sample_queue.cpp\<close> that changes a predicate somebody waits for.
\<close>

section \<open>The model\<close>

text \<open>
  What a signalling thread does to one condition variable, its mutex and its predicate. \<open>Remove\<close> takes
  away something that made the predicate true; the predicate is false afterwards, or stays as it is when
  something else makes it true.
\<close>

datatype instr = LockM | UnlockM | Store bool | Remove | Notify

text \<open>
  The waiting thread: about to evaluate the predicate with the mutex held, about to block with the
  mutex held, blocked, woken and in need of the mutex, or back with the predicate true.
\<close>

datatype waiter = Checking | Deciding | Blocked | Woken | Returned

datatype owner = Free | ByWaiter | BySignaller nat

record cv =
  cv_pred :: bool
  cv_owner :: owner
  cv_waiter :: waiter
  cv_signals :: "instr list list"

text \<open>\<open>notify_all\<close>, and \<open>notify_one\<close> with one waiter.\<close>

fun wake_up :: "waiter \<Rightarrow> waiter" where
  "wake_up Blocked = Woken"
| "wake_up w = w"

inductive cv_step :: "cv \<Rightarrow> cv \<Rightarrow> bool" where
  CheckTrue: "cv_waiter c = Checking \<Longrightarrow> cv_pred c \<Longrightarrow> cv_step c (c\<lparr>cv_waiter := Returned, cv_owner := Free\<rparr>)"
| CheckFalse: "cv_waiter c = Checking \<Longrightarrow> \<not> cv_pred c \<Longrightarrow> cv_step c (c\<lparr>cv_waiter := Deciding\<rparr>)"
| Block: "cv_waiter c = Deciding \<Longrightarrow> cv_step c (c\<lparr>cv_waiter := Blocked, cv_owner := Free\<rparr>)"
| Reacquire: "cv_waiter c = Woken \<Longrightarrow> cv_owner c = Free \<Longrightarrow>
    cv_step c (c\<lparr>cv_waiter := Checking, cv_owner := ByWaiter\<rparr>)"
| Lock: "i < length (cv_signals c) \<Longrightarrow> cv_signals c ! i = LockM # p \<Longrightarrow> cv_owner c = Free \<Longrightarrow>
    cv_step c (c\<lparr>cv_owner := BySignaller i, cv_signals := (cv_signals c)[i := p]\<rparr>)"
| Unlock: "i < length (cv_signals c) \<Longrightarrow> cv_signals c ! i = UnlockM # p \<Longrightarrow> cv_owner c = BySignaller i \<Longrightarrow>
    cv_step c (c\<lparr>cv_owner := Free, cv_signals := (cv_signals c)[i := p]\<rparr>)"
| Storing: "i < length (cv_signals c) \<Longrightarrow> cv_signals c ! i = Store b # p \<Longrightarrow>
    cv_step c (c\<lparr>cv_pred := b, cv_signals := (cv_signals c)[i := p]\<rparr>)"
| Removing: "i < length (cv_signals c) \<Longrightarrow> cv_signals c ! i = Remove # p \<Longrightarrow>
    cv_step c (c\<lparr>cv_pred := False, cv_signals := (cv_signals c)[i := p]\<rparr>)"
| Remaining: "i < length (cv_signals c) \<Longrightarrow> cv_signals c ! i = Remove # p \<Longrightarrow>
    cv_step c (c\<lparr>cv_signals := (cv_signals c)[i := p]\<rparr>)"
| Notifying: "i < length (cv_signals c) \<Longrightarrow> cv_signals c ! i = Notify # p \<Longrightarrow>
    cv_step c (c\<lparr>cv_waiter := wake_up (cv_waiter c), cv_signals := (cv_signals c)[i := p]\<rparr>)"

text \<open>A spurious wake-up or the end of the time of a timed wait: possible, never promised.\<close>

inductive cv_spurious :: "cv \<Rightarrow> cv \<Rightarrow> bool" where
  "cv_waiter c = Blocked \<Longrightarrow> cv_spurious c (c\<lparr>cv_waiter := Woken\<rparr>)"

inductive_cases cv_stepE: "cv_step c c'"
inductive_cases cv_spuriousE: "cv_spurious c c'"

definition cv_init :: "bool \<Rightarrow> instr list list \<Rightarrow> cv" where
  "cv_init b ps = \<lparr>cv_pred = b, cv_owner = ByWaiter, cv_waiter = Checking, cv_signals = ps\<rparr>"

inductive cv_reach :: "bool \<Rightarrow> instr list list \<Rightarrow> cv \<Rightarrow> bool" for b ps where
  start: "cv_reach b ps (cv_init b ps)"
| step: "cv_reach b ps c \<Longrightarrow> cv_step c c' \<Longrightarrow> cv_reach b ps c'"
| spurious: "cv_reach b ps c \<Longrightarrow> cv_spurious c c' \<Longrightarrow> cv_reach b ps c'"

text \<open>Blocked although the predicate holds, and nobody is going to notify.\<close>

definition stuck :: "cv \<Rightarrow> bool" where
  "stuck c \<longleftrightarrow> cv_waiter c = Blocked \<and> cv_pred c \<and> list_all (\<lambda>p. Notify \<notin> set p) (cv_signals c)"

section \<open>The discipline\<close>

text \<open>
  The predicate is changed only with the mutex held, and a change to true is followed by a
  notification; \<open>held\<close> says whether the thread holds the mutex.
\<close>

fun disciplined :: "bool \<Rightarrow> instr list \<Rightarrow> bool" where
  "disciplined held [] = (\<not> held)"
| "disciplined held (LockM # p) = (\<not> held \<and> disciplined True p)"
| "disciplined held (UnlockM # p) = (held \<and> disciplined False p)"
| "disciplined held (Store b # p) = (held \<and> (b \<longrightarrow> Notify \<in> set p) \<and> disciplined held p)"
| "disciplined held (Remove # p) = (held \<and> disciplined held p)"
| "disciplined held (Notify # p) = disciplined held p"

definition cv_inv :: "cv \<Rightarrow> bool" where
  "cv_inv c \<longleftrightarrow>
     (cv_owner c = ByWaiter \<longleftrightarrow> cv_waiter c \<in> {Checking, Deciding}) \<and>
     (\<forall>i < length (cv_signals c). disciplined (cv_owner c = BySignaller i) (cv_signals c ! i)) \<and>
     (cv_waiter c = Deciding \<longrightarrow> \<not> cv_pred c) \<and>
     (cv_waiter c = Blocked \<and> cv_pred c \<longrightarrow> (\<exists>i < length (cv_signals c). Notify \<in> set (cv_signals c ! i)))"

lemma cv_inv_waiter:
  assumes "cv_inv c" and "cv_signals c' = cv_signals c" and "cv_pred c' = cv_pred c"
    and "\<And>i. cv_owner c' = BySignaller i \<longleftrightarrow> cv_owner c = BySignaller i"
    and "cv_owner c' = ByWaiter \<longleftrightarrow> cv_waiter c' \<in> {Checking, Deciding}"
    and "cv_waiter c' = Deciding \<longrightarrow> \<not> cv_pred c"
    and "cv_waiter c' = Blocked \<longrightarrow> cv_waiter c = Blocked \<or> \<not> cv_pred c"
  shows "cv_inv c'"
  using assms unfolding cv_inv_def by auto

lemma disciplined_others:
  assumes "\<forall>j < length ps. disciplined (cv_own = BySignaller j) (ps ! j)" and "i < length ps"
    and "disciplined (cv_own' = BySignaller i) p"
    and "\<And>j. j \<noteq> i \<Longrightarrow> cv_own' = BySignaller j \<longleftrightarrow> cv_own = BySignaller j"
  shows "\<forall>j < length (ps[i := p]). disciplined (cv_own' = BySignaller j) (ps[i := p] ! j)"
  using assms by (auto simp: nth_list_update)

lemma notify_elsewhere:
  assumes "\<exists>j < length ps. Notify \<in> set (ps ! j)" and "i < length ps" and "Notify \<in> set (ps ! i) \<Longrightarrow> Notify \<in> set p"
  shows "\<exists>j < length (ps[i := p]). Notify \<in> set (ps[i := p] ! j)"
  using assms by (metis length_list_update nth_list_update_eq nth_list_update_neq)

lemma remove_inv:
  assumes "cv_inv c" and "i < length (cv_signals c)" and "cv_signals c ! i = Remove # p" and "b \<longrightarrow> cv_pred c"
  shows "cv_inv (c\<lparr>cv_pred := b, cv_signals := (cv_signals c)[i := p]\<rparr>)"
proof -
  have d: "\<forall>j < length (cv_signals c). disciplined (cv_owner c = BySignaller j) (cv_signals c ! j)"
    using assms(1) by (simp add: cv_inv_def)
  have "disciplined (cv_owner c = BySignaller i) p" using d assms(2,3) by force
  from disciplined_others [OF d assms(2) this] notify_elsewhere [OF _ assms(2), of p] assms
  show ?thesis by (auto simp: cv_inv_def)
qed

lemma cv_step_inv: "cv_step c c' \<Longrightarrow> cv_inv c \<Longrightarrow> cv_inv c'"
proof (induction rule: cv_step.induct)
  case (CheckTrue c)
  then show ?case by (intro cv_inv_waiter [OF CheckTrue(3)]) (auto simp: cv_inv_def)
next
  case (CheckFalse c)
  then show ?case by (intro cv_inv_waiter [OF CheckFalse(3)]) (auto simp: cv_inv_def)
next
  case (Block c)
  then show ?case by (intro cv_inv_waiter [OF Block(2)]) (auto simp: cv_inv_def)
next
  case (Reacquire c)
  then show ?case by (intro cv_inv_waiter [OF Reacquire(3)]) (auto simp: cv_inv_def)
next
  case (Lock i c p)
  then have i: "i < length (cv_signals c)" "cv_signals c ! i = LockM # p" "cv_owner c = Free"
    and d: "\<forall>j < length (cv_signals c). disciplined (cv_owner c = BySignaller j) (cv_signals c ! j)"
    by (auto simp: cv_inv_def)
  have "disciplined True p" using d i by force
  from disciplined_others [OF d i(1), of "BySignaller i" p] this i(3)
    notify_elsewhere [OF _ i(1), of p] i(2) Lock.prems
  show ?case by (auto simp: cv_inv_def)
next
  case (Unlock i c p)
  then have i: "i < length (cv_signals c)" "cv_signals c ! i = UnlockM # p" "cv_owner c = BySignaller i"
    and d: "\<forall>j < length (cv_signals c). disciplined (cv_owner c = BySignaller j) (cv_signals c ! j)"
    by (auto simp: cv_inv_def)
  have "disciplined False p" using d i by force
  from disciplined_others [OF d i(1), of Free p] this i(3)
    notify_elsewhere [OF _ i(1), of p] i(2) Unlock.prems
  show ?case by (auto simp: cv_inv_def)
next
  case (Storing i c b p)
  then have i: "i < length (cv_signals c)" "cv_signals c ! i = Store b # p"
    and d: "\<forall>j < length (cv_signals c). disciplined (cv_owner c = BySignaller j) (cv_signals c ! j)"
    by (auto simp: cv_inv_def)
  have h: "cv_owner c = BySignaller i" "b \<longrightarrow> Notify \<in> set p" "disciplined True p" using d i by force+
  have n: "b \<Longrightarrow> \<exists>j < length ((cv_signals c)[i := p]). Notify \<in> set ((cv_signals c)[i := p] ! j)"
    using h(2) i(1) by (intro exI [of _ i]) simp
  have "\<forall>j < length ((cv_signals c)[i := p]). disciplined (cv_owner c = BySignaller j) ((cv_signals c)[i := p] ! j)"
    using disciplined_others [OF d i(1), of "cv_owner c" p] h by simp
  then show ?case using h(1) n Storing.prems by (auto simp: cv_inv_def)
next
  case (Removing i c p)
  then show ?case using remove_inv [of c i p False] by simp
next
  case (Remaining i c p)
  then show ?case using remove_inv [of c i p "cv_pred c"] by simp
next
  case (Notifying i c p)
  then have i: "i < length (cv_signals c)" "cv_signals c ! i = Notify # p"
    and d: "\<forall>j < length (cv_signals c). disciplined (cv_owner c = BySignaller j) (cv_signals c ! j)"
    by (auto simp: cv_inv_def)
  have "disciplined (cv_owner c = BySignaller i) p" using d i by force
  from disciplined_others [OF d i(1) this]
  have "\<forall>j < length ((cv_signals c)[i := p]). disciplined (cv_owner c = BySignaller j) ((cv_signals c)[i := p] ! j)" by simp
  then show ?case using Notifying.prems by (cases "cv_waiter c") (auto simp: cv_inv_def)
qed

lemma cv_reach_inv:
  assumes "list_all (disciplined False) ps" and "cv_reach b ps c"
  shows "cv_inv c"
  using assms(2)
proof (induction rule: cv_reach.induct)
  case start
  then show ?case using assms(1) by (auto simp: cv_inv_def cv_init_def list_all_length)
next
  case (step c c')
  then show ?case using cv_step_inv by blast
next
  case (spurious c c')
  then show ?case by (auto elim!: cv_spuriousE simp: cv_inv_def)
qed

lemma cv_inv_not_stuck: "cv_inv c \<Longrightarrow> \<not> stuck c"
  by (auto simp: cv_inv_def stuck_def list_all_length)

text \<open>A stuck waiter stays stuck: no step of any thread changes that, only luck does.\<close>

lemma stuck_step:
  assumes "stuck c" and "list_all (\<lambda>p. p = []) (cv_signals c)"
  shows "\<not> cv_step c c'"
  using assms by (auto simp: stuck_def list_all_length elim!: cv_stepE)

section \<open>The signals of the code\<close>

text \<open>
  Each is the order in which the code takes the mutex of the condition variable, changes what the
  waiting predicate reads, lets the mutex go, and notifies.
\<close>

text \<open>
  The sample queue: \<open>push\<close>, \<open>close\<close>, and the removals by \<open>read_for_locked\<close> and \<open>reset\<close>, after which other
  samples or a changed generation may still make the predicate true. The queue has one reader, as the
  documentation of the binding asks, so that \<open>notify_one\<close> in \<open>push\<close> wakes the one that waits.
\<close>

definition push_signal :: "instr list" where "push_signal = [LockM, Store True, UnlockM, Notify]"
definition close_signal :: "instr list" where "close_signal = [LockM, Store True, UnlockM, Notify]"
definition take_signal :: "instr list" where "take_signal = [LockM, Remove, UnlockM]"
definition reset_signal :: "instr list" where "reset_signal = [LockM, Remove, UnlockM]"

text \<open>The destroyer's list.\<close>

definition enqueue_signal :: "instr list" where "enqueue_signal = [LockM, Store True, UnlockM, Notify]"

text \<open>
  \<open>lifecycle_cv_\<close> with \<open>lifecycle_mutex_\<close>: the end of a join in \<open>start\<close> and in \<open>stop\<close>, and the hand-over
  before it.
\<close>

definition start_joined_signal :: "instr list" where "start_joined_signal = [LockM, Store True, UnlockM, Notify]"
definition stop_joined_signal :: "instr list" where "stop_joined_signal = [LockM, Store True, UnlockM, Notify]"
definition join_begins_signal :: "instr list" where "join_begins_signal = [LockM, Store False, UnlockM]"

text \<open>\<open>first_sample_cv_\<close> with \<open>data_mutex_\<close>: a delivery, a fault and the new generation of a start.\<close>

definition delivery_signal :: "instr list" where "delivery_signal = [LockM, Store True, UnlockM, Notify]"
definition fault_signal :: "instr list" where "fault_signal = [LockM, Store True, UnlockM, Notify]"
definition generation_signal :: "instr list" where "generation_signal = [LockM, Store True, UnlockM, Notify]"

definition safe_signals :: "instr list list" where
  "safe_signals = [push_signal, close_signal, take_signal, reset_signal, enqueue_signal, start_joined_signal,
     stop_joined_signal, join_begins_signal, delivery_signal, fault_signal, generation_signal]"

text \<open>
  Two signals do not hold the mutex of the condition variable they notify: \<open>finish_session\<close> sets
  \<open>worker_exited_\<close>, which \<open>start\<close> waits for under \<open>lifecycle_mutex_\<close>, and \<open>stop\<close> sets \<open>stopping_\<close>,
  which the worker's reconnect delay and \<open>wait_for_first_sample\<close> wait for under \<open>data_mutex_\<close>.
\<close>

definition exit_signal :: "instr list" where "exit_signal = [Store True, Notify]"
definition stop_signal :: "instr list" where "stop_signal = [Store True, Notify]"

lemmas signal_defs = push_signal_def close_signal_def take_signal_def reset_signal_def enqueue_signal_def
  start_joined_signal_def stop_joined_signal_def join_begins_signal_def delivery_signal_def fault_signal_def
  generation_signal_def safe_signals_def exit_signal_def stop_signal_def

lemma safe_signals_disciplined: "list_all (disciplined False) safe_signals"
  by (simp add: signal_defs)

text \<open>The run in which the signal falls between the test of the predicate and the block.\<close>

lemma unlocked_signal_lost:
  "\<exists>c. cv_reach False [[Store True, Notify]] c \<and> stuck c \<and> cv_signals c = [[]]"
proof -
  let ?c0 = "cv_init False [[Store True, Notify]]"
  let ?c1 = "?c0\<lparr>cv_waiter := Deciding\<rparr>"
  let ?c2 = "?c1\<lparr>cv_pred := True, cv_signals := [[Notify]]\<rparr>"
  let ?c3 = "?c2\<lparr>cv_signals := [[]]\<rparr>"
  let ?c4 = "?c3\<lparr>cv_waiter := Blocked, cv_owner := Free\<rparr>"
  have s1: "cv_step ?c0 ?c1" by (rule cv_step.CheckFalse) (simp_all add: cv_init_def)
  have s2: "cv_step ?c1 ?c2"
    using cv_step.Storing [of 0 ?c1 True "[Notify]"] by (simp add: cv_init_def)
  have s3: "cv_step ?c2 ?c3"
    using cv_step.Notifying [of 0 ?c2 "[]"] by (simp add: cv_init_def)
  have s4: "cv_step ?c3 ?c4" by (rule cv_step.Block) (simp add: cv_init_def)
  have "cv_reach False [[Store True, Notify]] ?c4"
    by (rule cv_reach.step [OF cv_reach.step [OF cv_reach.step [OF cv_reach.step [OF cv_reach.start s1] s2] s3] s4])
  moreover have "stuck ?c4 \<and> cv_signals ?c4 = [[]]" by (simp add: stuck_def cv_init_def)
  ultimately show ?thesis by blast
qed

section \<open>Properties\<close>

text \<open>
  C17. No wake-up is lost where the mutex is held. A thread that waits for the queue, for a pending
  destruction, for the end of a join, or for a delivery, a fault or a new run is never left blocked
  with its condition true and no notification to come, whatever number of these signals come from
  whatever threads in whatever order, with any spurious wake-ups.
\<close>

theorem no_wakeup_lost:
  assumes "set ps \<subseteq> set safe_signals" and "cv_reach b ps c"
  shows "\<not> stuck c"
proof -
  have "list_all (disciplined False) ps"
    using assms(1) safe_signals_disciplined by (auto simp: list_all_iff)
  then show ?thesis using cv_reach_inv [OF _ assms(2)] cv_inv_not_stuck by blast
qed

theorem no_wakeup_lost_witness:
  "\<exists>c. cv_reach False [push_signal] c \<and> cv_waiter c = Blocked \<and> \<not> stuck c"
proof -
  let ?c1 = "(cv_init False [push_signal])\<lparr>cv_waiter := Deciding\<rparr>"
  let ?c2 = "?c1\<lparr>cv_waiter := Blocked, cv_owner := Free\<rparr>"
  have s1: "cv_step (cv_init False [push_signal]) ?c1" by (rule cv_step.CheckFalse) (simp_all add: cv_init_def)
  have s2: "cv_step ?c1 ?c2" by (rule cv_step.Block) (simp add: cv_init_def)
  have r: "cv_reach False [push_signal] ?c2" by (rule cv_reach.step [OF cv_reach.step [OF cv_reach.start s1] s2])
  have "set [push_signal] \<subseteq> set safe_signals" by (simp add: safe_signals_def)
  from no_wakeup_lost [OF this r] r show ?thesis by (intro exI [of _ ?c2]) simp
qed

text \<open>
  C18. The exit of a worker can be missed. \<open>finish_session\<close> sets \<open>worker_exited_\<close> and notifies without
  \<open>lifecycle_mutex_\<close>. When that falls between the test in \<open>start\<close>, which waits for it without a time
  limit, and its blocking, \<open>start\<close> is left blocked although the worker has exited, and no step of any
  of these threads is possible any more: only a spurious wake-up or some later call helps. The same
  run exists for \<open>stop\<close> and the waits under \<open>data_mutex_\<close>, which have a time limit.
\<close>

theorem exit_wakeup_can_be_lost:
  "(\<exists>c. cv_reach False [exit_signal] c \<and> stuck c \<and> (\<forall>c'. \<not> cv_step c c')) \<and>
   (\<exists>c. cv_reach False [stop_signal] c \<and> stuck c)"
proof -
  obtain c where c: "cv_reach False [[Store True, Notify]] c" "stuck c" "cv_signals c = [[]]"
    using unlocked_signal_lost by blast
  then have "\<forall>c'. \<not> cv_step c c'" using stuck_step by simp
  with c show ?thesis unfolding exit_signal_def stop_signal_def by blast
qed

end
