(* ===== verification/Lock_Order.thy ===== *)
theory Lock_Order
  imports Prelude
begin

text \<open>
  The mutexes of the library and the order in which the threads take them. Every operation of
  \<open>core/src/detail/client_impl.cpp\<close>, of the transports, of \<open>core/src/client.cpp\<close> and of the Python binding
  is reduced to the mutexes it takes and lets go and to its waits on condition variables, one list for
  each path that differs in that; the end of the worker thread, which a join waits for, counts as one
  more mutex, held by the worker. A wait lets its mutex go and takes it again when it ends. A wait with
  a time limit ends by itself; one without ends only when it is woken, which is never taken for granted
  here: whether the wake-up comes is the subject of \<open>Wakeups\<close>. The lemmas show that the mutexes are taken
  in one order, the one a comment in \<open>client_impl.hpp\<close> asks for extended to all of them, and that with
  this order threads can only be kept waiting by waits without a time limit, and by which of them.
\<close>

section \<open>Mutexes and their order\<close>

text \<open>
  Python's interpreter lock, the native client's lifecycle, the end of the worker, the core's lifecycle, command, record and data
  mutexes, the transport's, the queue's and the destroyer's.
\<close>

datatype mutex = GilM | NativeM | WorkerEnd | LifecycleM | CommandM | RecordM | DataM | TransportM | QueueM | DestroyerM

fun lock_rank :: "mutex \<Rightarrow> nat" where
  "lock_rank GilM = 0"
| "lock_rank NativeM = 1"
| "lock_rank WorkerEnd = 2"
| "lock_rank LifecycleM = 3"
| "lock_rank CommandM = 4"
| "lock_rank RecordM = 5"
| "lock_rank DataM = 6"
| "lock_rank TransportM = 7"
| "lock_rank QueueM = 8"
| "lock_rank DestroyerM = 9"

lemma lock_rank_inj: "lock_rank a = lock_rank b \<Longrightarrow> a = b"
  by (cases a; cases b; simp)

instantiation mutex :: linorder
begin

definition less_eq_mutex :: "mutex \<Rightarrow> mutex \<Rightarrow> bool" where
  "less_eq_mutex a b \<longleftrightarrow> lock_rank a \<le> lock_rank b"

definition less_mutex :: "mutex \<Rightarrow> mutex \<Rightarrow> bool" where
  "less_mutex a b \<longleftrightarrow> lock_rank a < lock_rank b"

instance
  by standard (auto simp: less_eq_mutex_def less_mutex_def dest: lock_rank_inj)

end

section \<open>Threads and scripts\<close>

text \<open>
  Taking and letting go a mutex, a wait on a condition variable with its mutex, which has a time limit
  (\<open>True\<close>) or not, and such a wait that has begun.
\<close>

datatype lock_event = Acq mutex | Rel mutex | Await mutex bool | Asleep mutex bool

type_synonym script = "lock_event list"

text \<open>
  The one mutex a thread may hold besides while it waits: the worker its end, in waits with a time limit;
  a caller the native client's mutex, in waits without.
\<close>

definition sleeper :: "bool \<Rightarrow> mutex" where
  "sleeper timed = (if timed then WorkerEnd else NativeM)"

text \<open>
  A script that takes mutexes only in ascending order, with the interpreter lock only those of the data
  and the queue, that waits only with the mutex of the condition variable and at most its one other
  mutex, lets go what it holds and ends with none.
\<close>

fun ordered :: "mutex list \<Rightarrow> script \<Rightarrow> bool" where
  "ordered held [] = (held = [])"
| "ordered held (Acq m # p) =
     ((\<forall>h \<in> set held. h < m) \<and> (GilM \<in> set held \<longrightarrow> m = DataM \<or> m = QueueM) \<and> ordered (m # held) p)"
| "ordered held (Rel m # p) = (m \<in> set held \<and> ordered (remove1 m held) p)"
| "ordered held (Await m timed # p) =
     (m \<in> set held \<and> (\<forall>h \<in> set (remove1 m held). h < m \<and> h = sleeper timed) \<and> ordered (m # remove1 m held) p)"
| "ordered held (Asleep m timed # p) = ((\<forall>h \<in> set held. h < m \<and> h = sleeper timed) \<and> ordered (m # held) p)"

text \<open>A thread: what it holds and what it has left to do. A mutex is taken only when no thread has it.\<close>

type_synonym threads = "(mutex list \<times> script) list"

inductive lock_step :: "threads \<Rightarrow> threads \<Rightarrow> bool" where
  Take: "i < length ts \<Longrightarrow> ts ! i = (held, Acq m # p) \<Longrightarrow> \<forall>t \<in> set ts. m \<notin> set (fst t) \<Longrightarrow>
    lock_step ts (ts[i := (m # held, p)])"
| Leave: "i < length ts \<Longrightarrow> ts ! i = (held, Rel m # p) \<Longrightarrow> lock_step ts (ts[i := (remove1 m held, p)])"
| Sleep: "i < length ts \<Longrightarrow> ts ! i = (held, Await m timed # p) \<Longrightarrow>
    lock_step ts (ts[i := (remove1 m held, Asleep m timed # p)])"
| Expire: "i < length ts \<Longrightarrow> ts ! i = (held, Asleep m True # p) \<Longrightarrow> lock_step ts (ts[i := (held, Acq m # p)])"

text \<open>
  A wait is woken with its condition true, or for nothing, so that it goes on. Neither is a step that
  can be counted on.
\<close>

inductive lock_wake :: "threads \<Rightarrow> threads \<Rightarrow> bool" where
  Notified: "i < length ts \<Longrightarrow> ts ! i = (held, Asleep m timed # p) \<Longrightarrow> lock_wake ts (ts[i := (held, Acq m # p)])"

inductive lock_recheck :: "threads \<Rightarrow> threads \<Rightarrow> bool" where
  Again: "i < length ts \<Longrightarrow> ts ! i = (held, Asleep m timed # p) \<Longrightarrow>
    lock_recheck ts (ts[i := (held, Acq m # Await m timed # p)])"

inductive lock_reach :: "script list \<Rightarrow> threads \<Rightarrow> bool" for ps where
  start: "lock_reach ps (map (\<lambda>p. ([], p)) ps)"
| step: "lock_reach ps ts \<Longrightarrow> lock_step ts ts' \<Longrightarrow> lock_reach ps ts'"
| wake: "lock_reach ps ts \<Longrightarrow> lock_wake ts ts' \<Longrightarrow> lock_reach ps ts'"
| recheck: "lock_reach ps ts \<Longrightarrow> lock_recheck ts ts' \<Longrightarrow> lock_reach ps ts'"

definition finished :: "threads \<Rightarrow> bool" where
  "finished ts \<longleftrightarrow> list_all (\<lambda>t. t = ([], [])) ts"

text \<open>In a wait without a time limit.\<close>

definition asleep :: "mutex list \<times> script \<Rightarrow> bool" where
  "asleep t \<longleftrightarrow> (\<exists>m p. snd t = Asleep m False # p)"

section \<open>Order rules out deadlock\<close>

definition lock_inv :: "threads \<Rightarrow> bool" where
  "lock_inv ts \<longleftrightarrow> (\<forall>t \<in> set ts. ordered (fst t) (snd t) \<and> distinct (fst t))"

lemma lock_inv_update:
  assumes "lock_inv ts" and "ordered held p" and "distinct held"
  shows "lock_inv (ts[i := (held, p)])"
  using assms set_update_subset_insert [of ts i "(held, p)"] by (auto simp: lock_inv_def)

lemma lock_inv_at:
  assumes "lock_inv ts" and "i < length ts" and "ts ! i = (held, p)"
  shows "ordered held p \<and> distinct held"
proof -
  have "(held, p) \<in> set ts" using assms(2,3) by (metis nth_mem)
  then show ?thesis using assms(1) by (auto simp: lock_inv_def)
qed

lemma lock_step_inv: "lock_step ts ts' \<Longrightarrow> lock_inv ts \<Longrightarrow> lock_inv ts'"
proof (induction rule: lock_step.induct)
  case (Take i ts held m p)
  have "m \<notin> set held" using Take(1-3) by (metis fst_conv nth_mem)
  then show ?case using lock_inv_at [OF Take.prems Take(1,2)] Take.prems by (intro lock_inv_update) auto
next
  case (Leave i ts held m p)
  then show ?case using lock_inv_at [OF Leave.prems Leave(1,2)] by (intro lock_inv_update) auto
next
  case (Sleep i ts held m timed p)
  then show ?case using lock_inv_at [OF Sleep.prems Sleep(1,2)] by (intro lock_inv_update) auto
next
  case (Expire i ts held m p)
  then show ?case
    using lock_inv_at [OF Expire.prems Expire(1,2)] by (intro lock_inv_update) (auto simp: sleeper_def)
qed

lemma lock_wake_inv: "lock_wake ts ts' \<Longrightarrow> lock_inv ts \<Longrightarrow> lock_inv ts'"
proof (induction rule: lock_wake.induct)
  case (Notified i ts held m timed p)
  then show ?case
    using lock_inv_at [OF Notified.prems Notified(1,2)] by (intro lock_inv_update) (auto simp: sleeper_def split: if_splits)
qed

lemma lock_recheck_inv: "lock_recheck ts ts' \<Longrightarrow> lock_inv ts \<Longrightarrow> lock_inv ts'"
proof (induction rule: lock_recheck.induct)
  case (Again i ts held m timed p)
  then show ?case
    using lock_inv_at [OF Again.prems Again(1,2)] by (intro lock_inv_update) (auto simp: sleeper_def split: if_splits)
qed

lemma lock_reach_inv:
  assumes "list_all (ordered []) ps" and "lock_reach ps ts"
  shows "lock_inv ts"
  using assms(2)
proof (induction rule: lock_reach.induct)
  case start
  then show ?case using assms(1) by (auto simp: lock_inv_def list_all_iff)
qed (use lock_step_inv lock_wake_inv lock_recheck_inv in blast)+

text \<open>What keeps a thread from going on when no step is possible.\<close>

lemma stuck_thread:
  assumes "lock_inv ts" and "\<nexists>ts'. lock_step ts ts'" and "t \<in> set ts" and "t \<noteq> ([], [])"
  shows "asleep t \<or> (\<exists>m p. snd t = Acq m # p \<and> (\<exists>u \<in> set ts. m \<in> set (fst u)))"
proof -
  obtain held p where t: "t = (held, p)" by fastforce
  then obtain i where i: "i < length ts" "ts ! i = (held, p)" using assms(3) by (metis in_set_conv_nth)
  have o: "ordered held p" using lock_inv_at [OF assms(1) i] by simp
  show ?thesis
  proof (cases p)
    case Nil
    then show ?thesis using o assms(4) t by simp
  next
    case (Cons e q)
    show ?thesis
    proof (cases e)
      case (Acq m)
      then show ?thesis using assms(2) i Cons t lock_step.Take [of i ts held m q] by auto
    next
      case (Rel m)
      then show ?thesis using assms(2) i Cons lock_step.Leave [of i ts held m q] by auto
    next
      case (Await m timed)
      then show ?thesis using assms(2) i Cons lock_step.Sleep [of i ts held m timed q] by auto
    next
      case (Asleep m timed)
      then show ?thesis using assms(2) i Cons t lock_step.Expire [of i ts held m q] by (cases timed) (auto simp: asleep_def)
    qed
  qed
qed

text \<open>Of the threads that want a mutex each wants the native client's, and a thread in a wait has it.\<close>

lemma stuck_wants:
  assumes "lock_inv ts" and "\<nexists>ts'. lock_step ts ts'" and "t \<in> set ts" and "snd t = Acq m # p"
  shows "m = NativeM \<and> (\<exists>u \<in> set ts. asleep u \<and> NativeM \<in> set (fst u))"
  using assms(3,4)
proof (induction "10 - lock_rank m" arbitrary: m t p rule: less_induct)
  case less
  have "t \<noteq> ([], [])" using less.prems(2) by auto
  then obtain u where u: "u \<in> set ts" "m \<in> set (fst u)"
    using stuck_thread [OF assms(1,2) less.prems(1)] less.prems(2) by (auto simp: asleep_def)
  have o: "ordered (fst u) (snd u)" using assms(1) u(1) by (simp add: lock_inv_def)
  have "u \<noteq> ([], [])" using u(2) by auto
  from stuck_thread [OF assms(1,2) u(1) this] show ?case
  proof
    assume a: "asleep u"
    then have "m = NativeM" using o u(2) by (auto simp: asleep_def sleeper_def)
    then show ?thesis using u a by blast
  next
    assume "\<exists>m' q. snd u = Acq m' # q \<and> (\<exists>v \<in> set ts. m' \<in> set (fst v))"
    then obtain m' q where q: "snd u = Acq m' # q" by blast
    then have m': "m < m'" "m = GilM \<longrightarrow> m' = DataM \<or> m' = QueueM" using o u(2) by auto
    have "lock_rank m' \<le> 9" by (cases m') simp_all
    then have "10 - lock_rank m' < 10 - lock_rank m" using m'(1) by (simp add: less_mutex_def)
    from less.hyps [OF this u(1) q] have "m' = NativeM" by simp
    then have "m = GilM" using m'(1) by (cases m) (simp_all add: less_mutex_def)
    then show ?thesis using m'(2) \<open>m' = NativeM\<close> by simp
  qed
qed

lemma stuck_threads:
  assumes "lock_inv ts" and "\<nexists>ts'. lock_step ts ts'" and "t \<in> set ts"
  shows "t = ([], []) \<or> asleep t \<and> WorkerEnd \<notin> set (fst t) \<or>
    fst t = [] \<and> (\<exists>p. snd t = Acq NativeM # p) \<and> (\<exists>u \<in> set ts. asleep u \<and> NativeM \<in> set (fst u))"
proof -
  have o: "ordered (fst t) (snd t)" using assms(1,3) by (simp add: lock_inv_def)
  consider "t = ([], [])" | "asleep t" | m p where "snd t = Acq m # p"
    using stuck_thread [OF assms] by blast
  then show ?thesis
  proof cases
    case 2
    then show ?thesis using o by (auto simp: asleep_def sleeper_def)
  next
    case 3
    from stuck_wants [OF assms 3] have m: "m = NativeM" "\<exists>u \<in> set ts. asleep u \<and> NativeM \<in> set (fst u)" by simp_all
    have "h = GilM" if "h \<in> set (fst t)" for h
      using o 3 m(1) that by (cases h) (auto simp: less_mutex_def)
    moreover have "GilM \<notin> set (fst t)" using o 3 m(1) by auto
    ultimately have "fst t = []" by (metis list.set_intros(1) neq_Nil_conv)
    then show ?thesis using 3 m by blast
  qed blast
qed

text \<open>Every step and every wake-up shortens what is left to do: if the wake-ups come, all can finish.\<close>

fun event_weight :: "lock_event \<Rightarrow> nat" where
  "event_weight (Await m timed) = 3"
| "event_weight (Asleep m timed) = 2"
| "event_weight e = 1"

definition work_left :: "threads \<Rightarrow> nat" where
  "work_left ts = sum_list (map (\<lambda>t. sum_list (map event_weight (snd t))) ts)"

lemma sum_list_exchange:
  "i < length xs \<Longrightarrow> sum_list (xs[i := y]) + xs ! i = sum_list xs + (y :: nat)"
proof (induction xs arbitrary: i)
  case (Cons x xs)
  then show ?case by (cases i) auto
qed simp

lemma work_left_update:
  assumes "i < length ts" and "sum_list (map event_weight p) < sum_list (map event_weight (snd (ts ! i)))"
  shows "work_left (ts[i := (held, p)]) < work_left ts"
  using sum_list_exchange [of i "map (\<lambda>t. sum_list (map event_weight (snd t))) ts" "sum_list (map event_weight p)"] assms
  by (simp add: work_left_def map_update)

lemma lock_step_less: "lock_step ts ts' \<Longrightarrow> work_left ts' < work_left ts"
  by (induction rule: lock_step.induct) (simp_all add: work_left_update)

lemma lock_wake_less: "lock_wake ts ts' \<Longrightarrow> work_left ts' < work_left ts"
  by (induction rule: lock_wake.induct) (simp_all add: work_left_update)

definition lock_or_wake :: "threads \<Rightarrow> threads \<Rightarrow> bool" where
  "lock_or_wake ts ts' \<longleftrightarrow> lock_step ts ts' \<or> lock_wake ts ts'"

lemma ordered_progress:
  assumes "lock_inv ts" and "\<not> finished ts"
  shows "\<exists>ts'. lock_or_wake ts ts'"
proof (cases "\<exists>ts'. lock_step ts ts'")
  case False
  obtain t where "t \<in> set ts" "t \<noteq> ([], [])" using assms(2) by (auto simp: finished_def list_all_iff)
  then obtain u where "u \<in> set ts" "asleep u" using stuck_threads [OF assms(1) False] by blast
  then obtain i held m p where "i < length ts" "ts ! i = (held, Asleep m False # p)"
    by (metis asleep_def in_set_conv_nth prod.collapse)
  then have "lock_wake ts (ts[i := (held, Acq m # p)])" by (rule lock_wake.Notified)
  then show ?thesis by (auto simp: lock_or_wake_def)
qed (auto simp: lock_or_wake_def)

lemma runs_to_the_end:
  assumes "lock_inv ts"
  shows "\<exists>ts'. lock_or_wake\<^sup>*\<^sup>* ts ts' \<and> finished ts'"
  using assms
proof (induction "work_left ts" arbitrary: ts rule: less_induct)
  case less
  show ?case
  proof (cases "finished ts")
    case False
    then obtain ts1 where s: "lock_or_wake ts ts1" using ordered_progress [OF less.prems] by blast
    then have "work_left ts1 < work_left ts" "lock_inv ts1"
      using lock_step_less lock_wake_less lock_step_inv lock_wake_inv less.prems by (auto simp: lock_or_wake_def)
    then obtain ts2 where "lock_or_wake\<^sup>*\<^sup>* ts1 ts2" "finished ts2" using less.hyps by blast
    then show ?thesis using s by (meson converse_rtranclp_into_rtranclp)
  qed blast
qed

text \<open>Two threads never hold the same mutex.\<close>

definition exclusive :: "threads \<Rightarrow> bool" where
  "exclusive ts \<longleftrightarrow> (\<forall>i j. i < length ts \<and> j < length ts \<and> i \<noteq> j \<longrightarrow> set (fst (ts ! i)) \<inter> set (fst (ts ! j)) = {})"

lemma exclusive_less:
  assumes "exclusive ts" and "k < length ts" and "set held \<subseteq> set (fst (ts ! k))"
  shows "exclusive (ts[k := (held, p)])"
proof -
  have "set (fst (ts[k := (held, p)] ! i)) \<subseteq> set (fst (ts ! i))" for i
    using assms(2,3) by (cases "i = k") auto
  then show ?thesis using assms(1) unfolding exclusive_def length_list_update by blast
qed

lemma lock_step_exclusive: "lock_step ts ts' \<Longrightarrow> exclusive ts \<Longrightarrow> exclusive ts'"
proof (induction rule: lock_step.induct)
  case (Take k ts held m p)
  have "m \<notin> set (fst (ts ! i))" if "i < length ts" for i using Take(3) that by simp
  moreover have "set held \<inter> set (fst (ts ! j)) = {}" if "j < length ts" "j \<noteq> k" for j
    using Take(1,2,4) that unfolding exclusive_def by (metis fst_conv)
  ultimately show ?case using Take(1,4) by (auto simp: exclusive_def nth_list_update)
qed (simp_all add: exclusive_less set_remove1_subset)

lemma mutual_exclusion: "lock_reach ps ts \<Longrightarrow> exclusive ts"
proof (induction rule: lock_reach.induct)
  case start
  then show ?case by (simp add: exclusive_def)
next
  case (step ts ts')
  then show ?case using lock_step_exclusive by blast
next
  case (wake ts ts')
  from wake.hyps(2) wake.IH show ?case by (induction rule: lock_wake.induct) (auto intro!: exclusive_less)
next
  case (recheck ts ts')
  from recheck.hyps(2) recheck.IH show ?case by (induction rule: lock_recheck.induct) (auto intro!: exclusive_less)
qed

text \<open>Scripts can be put together.\<close>

lemma ordered_append:
  assumes "ordered held p" and "ordered [] q"
  shows "ordered held (p @ q)"
  using assms by (induction held p rule: ordered.induct) auto

lemma ordered_concat: "list_all (ordered []) ps \<Longrightarrow> ordered [] (concat ps)"
  by (induction ps) (auto intro: ordered_append)

fun above :: "mutex \<Rightarrow> lock_event \<Rightarrow> bool" where
  "above b (Acq m) = (b < m \<and> (b = GilM \<longrightarrow> m = DataM \<or> m = QueueM))"
| "above b (Rel m) = (b < m)"
| "above b (Await m timed) = (b < m \<and> b = sleeper timed)"
| "above b (Asleep m timed) = (b < m \<and> b = sleeper timed)"

lemma remove1_under: "m \<in> set held \<Longrightarrow> remove1 m (held @ [b]) = remove1 m held @ [b]"
  by (simp add: remove1_append)

lemma remove1_above: "\<forall>h \<in> set held. b < h \<Longrightarrow> \<forall>h \<in> set (remove1 m held). (b :: mutex) < h"
  by (meson notin_set_remove1)

lemma ordered_under:
  assumes "ordered held p" and "list_all (above b) p" and "\<forall>h \<in> set held. b < h" and "ordered [b] q"
  shows "ordered (held @ [b]) (p @ q)"
  using assms
proof (induction held p rule: ordered.induct)
  case (2 held m p)
  then have "GilM \<notin> set held" by (auto simp: less_mutex_def)
  then show ?case using 2 by auto
next
  case (3 held m p)
  then show ?case using remove1_under [of m held b] remove1_above [of held b m] by auto
next
  case (4 held m timed p)
  then show ?case using remove1_under [of m held b] remove1_above [of held b m] by auto
qed auto

section \<open>The scripts of the code\<close>

text \<open>A scope that holds \<open>m\<close> around \<open>p\<close>.\<close>

definition guarded :: "mutex \<Rightarrow> script \<Rightarrow> script" where
  "guarded m p = Acq m # p @ [Rel m]"

lemma ordered_guarded: "ordered [] p \<Longrightarrow> list_all (above m) p \<Longrightarrow> ordered [] (guarded m p)"
  using ordered_under [of "[]" p m "[Rel m]"] by (simp add: guarded_def)

text \<open>Every operation of the transport takes its own mutex, once or several times, around nothing else.\<close>

definition transport_script :: script where "transport_script = guarded TransportM []"

text \<open>
  The turns of \<open>start\<close>, each after a wait for the end of another join or not: refused, or with no need to
  wait after a fault; waiting for the end of a faulted worker; reaping the old worker; creating a worker;
  and failing to, with the state put back.
\<close>

definition join_script :: script where "join_script = guarded WorkerEnd []"

definition start_scripts :: "script list" where
  "start_scripts = concat (map (\<lambda>w.
     [guarded LifecycleM w,
      guarded LifecycleM (w @ [Await LifecycleM False]),
      guarded LifecycleM w @ join_script @ guarded LifecycleM [],
      guarded LifecycleM (w @ guarded RecordM [] @ guarded DataM []),
      guarded LifecycleM (w @ guarded RecordM [] @ guarded DataM [] @
        guarded RecordM [] @ guarded DataM []),
      guarded LifecycleM (w @ guarded RecordM [] @ guarded DataM [] @
        guarded RecordM [] @ guarded DataM [] @ guarded DataM [])]) [[], [Await LifecycleM False]])"

text \<open>The request of a stop, with and without an open session, and the turns of \<open>stop\<close>.\<close>

definition stop_requests :: "script list" where
  "stop_requests = [guarded CommandM transport_script, guarded CommandM (transport_script @ transport_script)]"

definition stop_scripts :: "script list" where
  "stop_scripts = concat (map (\<lambda>r.
     [guarded LifecycleM r,
      guarded LifecycleM (r @ [Await LifecycleM False]),
      guarded LifecycleM (r @ guarded DataM []),
      guarded LifecycleM r @ join_script @ guarded LifecycleM [],
      guarded LifecycleM r @ join_script @ guarded LifecycleM (guarded DataM [])]) stop_requests)"

definition bias_scripts :: "script list" where
  "bias_scripts =
     [guarded CommandM (guarded RecordM (guarded DataM [])),
      guarded CommandM (guarded RecordM (guarded DataM [] @ transport_script)),
      guarded CommandM (guarded RecordM (guarded DataM [] @ transport_script @ transport_script))]"

text \<open>\<open>health\<close>, \<open>latest_sample\<close> and \<open>wait_for_first_sample\<close>.\<close>

definition query_scripts :: "script list" where
  "query_scripts = [guarded DataM [], guarded DataM [Await DataM True]]"

text \<open>The pieces of \<open>handle_record\<close> and of the operations it calls.\<close>

definition record_scripts :: "script list" where
  "record_scripts = [guarded RecordM (guarded DataM []), guarded RecordM [], guarded DataM []]"

text \<open>The pieces of \<open>receive_session\<close> apart from the handling of a record.\<close>

definition session_scripts :: "script list" where
  "session_scripts =
     [guarded DataM [], transport_script, guarded CommandM [], guarded CommandM transport_script, guarded RecordM []]"

text \<open>\<open>close_session\<close>, \<open>set_fault\<close>, the reconnect delay and the end of \<open>run\<close>.\<close>

definition closing_scripts :: "script list" where
  "closing_scripts =
     [guarded CommandM transport_script, guarded CommandM (transport_script @ transport_script),
      guarded DataM [], guarded DataM [] @ guarded DataM [], guarded DataM [] @ guarded DataM [Await DataM True]]"

text \<open>The operations of the queue, of which only the read waits.\<close>

definition queue_scripts :: "script list" where
  "queue_scripts = [guarded QueueM [], guarded QueueM [Await QueueM True]]"

text \<open>
  What a callback may do on the worker's thread: use the queue, ask, bias, be refused by \<open>start\<close>,
  request a stop, which returns without a join, and destroy its client.
\<close>

definition callback_scripts :: "script list" where
  "callback_scripts =
     [guarded LifecycleM [], guarded DestroyerM []] @ queue_scripts @ query_scripts @ bias_scripts @
     map (guarded LifecycleM) stop_requests"

definition worker_scripts :: "script list" where
  "worker_scripts = record_scripts @ session_scripts @ closing_scripts @ callback_scripts"

text \<open>
  The destruction of a client outside its worker: it asks for the worker's thread, stops, and the object
  inside stops again.
\<close>

definition client_destructor_script :: "script list \<Rightarrow> script list \<Rightarrow> script" where
  "client_destructor_script turns turns' = guarded LifecycleM [] @ concat turns @ concat turns'"

text \<open>A turn of the deferred destroyer: it waits for a client, unless there is one, stops and destroys it.\<close>

definition destroyer_script :: "script \<Rightarrow> script list \<Rightarrow> script list \<Rightarrow> script" where
  "destroyer_script w turns turns' = guarded DestroyerM w @ concat turns @ concat turns'"

text \<open>The native client, which keeps its own mutex around the core's \<open>start\<close> and \<open>stop\<close>.\<close>

definition native_start_script :: "script list \<Rightarrow> bool \<Rightarrow> script" where
  "native_start_script turns failed =
     guarded NativeM (guarded QueueM [] @ guarded QueueM [] @ concat turns @
       (if failed then guarded QueueM [] else []))"

definition native_stop_script :: "script list \<Rightarrow> script" where
  "native_stop_script turns = guarded NativeM (guarded QueueM [] @ concat turns)"

text \<open>What each method of the native client takes: \<open>start\<close> returns at once on a running client.\<close>

inductive native_call :: "string \<Rightarrow> script \<Rightarrow> bool" where
  "native_call ''start'' (guarded NativeM [])"
| "set turns \<subseteq> set start_scripts \<Longrightarrow> native_call ''start'' (native_start_script turns failed)"
| "set turns \<subseteq> set stop_scripts \<Longrightarrow> native_call ''stop'' (native_stop_script turns)"
| "p \<in> set bias_scripts \<Longrightarrow> native_call ''bias'' p"
| "set ps \<subseteq> set (queue_scripts @ query_scripts) \<Longrightarrow> native_call ''wait_for_first_sample'' (concat ps)"
| "set ps \<subseteq> set queue_scripts \<Longrightarrow> native_call ''read'' (concat ps)"
| "native_call ''latest_sample'' (guarded DataM [])"
| "native_call ''health'' (guarded DataM [])"
| "native_call ''faulted'' []"
| "native_call ''fault_code'' []"
| "native_call ''queue_dropped_count'' (guarded QueueM [])"

text \<open>
  The methods as they are registered with Python, and whether the interpreter lock is released around
  the call; it is taken again when the call returns. The deleter of the holder releases it too.
\<close>

definition python_methods :: "(string \<times> bool) list" where
  "python_methods =
     [(''start'', True), (''stop'', True), (''bias'', True), (''wait_for_first_sample'', True), (''read'', True),
      (''latest_sample'', False), (''health'', False), (''faulted'', False), (''fault_code'', False),
      (''queue_dropped_count'', False)]"

definition python_call_script :: "bool \<Rightarrow> script \<Rightarrow> script" where
  "python_call_script released p =
     Acq GilM # (if released then Rel GilM # p @ [Acq GilM] else p) @ [Rel GilM]"

text \<open>The destructor of the native client stops it, and the client inside is destroyed.\<close>

definition native_deleter_script :: "script list \<Rightarrow> script list \<Rightarrow> script list \<Rightarrow> script" where
  "native_deleter_script turns turns' turns'' =
     python_call_script True (native_stop_script turns @ client_destructor_script turns' turns'')"

text \<open>What a thread other than the worker does, one call after the other, in any order.\<close>

inductive user_call :: "script \<Rightarrow> bool" where
  "p \<in> set (start_scripts @ stop_scripts @ bias_scripts @ query_scripts @ queue_scripts) \<Longrightarrow> user_call p"
| "set turns \<subseteq> set stop_scripts \<Longrightarrow> set turns' \<subseteq> set stop_scripts \<Longrightarrow>
    user_call (client_destructor_script turns turns')"
| "native_call n p \<Longrightarrow> user_call p"
| "native_call n p \<Longrightarrow> (n, released) \<in> set python_methods \<Longrightarrow> user_call (python_call_script released p)"
| "set turns \<subseteq> set stop_scripts \<Longrightarrow> set turns' \<subseteq> set stop_scripts \<Longrightarrow> set turns'' \<subseteq> set stop_scripts \<Longrightarrow>
    user_call (native_deleter_script turns turns' turns'')"

inductive destroyer_turn :: "script \<Rightarrow> bool" where
  "w = [] \<or> w = [Await DestroyerM False] \<Longrightarrow> set turns \<subseteq> set stop_scripts \<Longrightarrow> set turns' \<subseteq> set stop_scripts \<Longrightarrow>
    destroyer_turn (destroyer_script w turns turns')"

text \<open>The threads: callers, the workers of clients, and the deferred destroyer.\<close>

inductive thread_program :: "script \<Rightarrow> bool" where
  user: "list_all user_call ps \<Longrightarrow> thread_program (concat ps)"
| worker: "set ps \<subseteq> set worker_scripts \<Longrightarrow> thread_program (guarded WorkerEnd (concat ps))"
| destroyer: "list_all destroyer_turn ps \<Longrightarrow> thread_program (concat ps)"

section \<open>They respect the order\<close>

lemmas script_defs = start_scripts_def stop_scripts_def stop_requests_def bias_scripts_def query_scripts_def
  record_scripts_def session_scripts_def closing_scripts_def queue_scripts_def callback_scripts_def
  worker_scripts_def transport_script_def join_script_def guarded_def

lemma list_all_concat: "list_all P (concat xss) = list_all (list_all P) xss"
  by (induction xss) auto

lemma scripts_ordered:
  "list_all (ordered []) start_scripts" "list_all (ordered []) stop_scripts" "list_all (ordered []) bias_scripts"
  "list_all (ordered []) query_scripts" "list_all (ordered []) queue_scripts" "list_all (ordered []) worker_scripts"
  by (simp_all add: script_defs less_mutex_def)

lemma scripts_above:
  "list_all (list_all (above NativeM)) start_scripts" "list_all (list_all (above NativeM)) stop_scripts"
  "list_all (list_all (above WorkerEnd)) worker_scripts"
  by (simp_all add: script_defs less_mutex_def sleeper_def)

lemma list_all_subset: "set xs \<subseteq> set ys \<Longrightarrow> list_all P ys \<Longrightarrow> list_all P xs"
  by (auto simp: list_all_iff)

lemma ordered_turns: "set ps \<subseteq> set ss \<Longrightarrow> list_all (ordered []) ss \<Longrightarrow> ordered [] (concat ps)"
  by (rule ordered_concat) (rule list_all_subset)

lemma queue_script: "ordered [] (guarded QueueM [])" "list_all (above NativeM) (guarded QueueM [])"
  by (simp_all add: guarded_def less_mutex_def)

lemma native_script_ordered:
  assumes "set turns \<subseteq> set ss" and "list_all (ordered []) ss" and "list_all (list_all (above NativeM)) ss"
    and "ordered [] p" and "list_all (above NativeM) p" and "ordered [] q" and "list_all (above NativeM) q"
  shows "ordered [] (guarded NativeM (p @ concat turns @ q))"
proof (rule ordered_guarded)
  show "ordered [] (p @ concat turns @ q)"
    using assms ordered_turns [OF assms(1,2)] by (simp add: ordered_append)
  show "list_all (above NativeM) (p @ concat turns @ q)"
    using assms list_all_subset [OF assms(1)] by (simp add: list_all_concat)
qed

lemma native_call_ordered: "native_call n p \<Longrightarrow> ordered [] p"
proof (induction rule: native_call.induct)
  case (2 turns failed)
  then show ?case
    using native_script_ordered [OF 2 scripts_ordered(1) scripts_above(1), of "guarded QueueM [] @ guarded QueueM []"
        "if failed then guarded QueueM [] else []"] queue_script
    by (simp add: native_start_script_def ordered_append split: if_splits)
next
  case (3 turns)
  then show ?case
    using native_script_ordered [OF 3 scripts_ordered(2) scripts_above(2), of "guarded QueueM []" "[]"] queue_script
    by (simp add: native_stop_script_def)
next
  case (4 p)
  then show ?case using scripts_ordered(3) by (auto simp: list_all_iff)
next
  case (5 ps)
  then show ?case using scripts_ordered(4,5) by (intro ordered_turns [of ps "queue_scripts @ query_scripts"]) simp_all
next
  case (6 ps)
  then show ?case using scripts_ordered(5) by (rule ordered_turns)
qed (simp_all add: guarded_def)

text \<open>A method that keeps the interpreter lock takes nothing but the mutex of the data or of the queue, once.\<close>

lemma kept_gil_above:
  assumes "native_call n p" and "(n, False) \<in> set python_methods"
  shows "list_all (above GilM) p"
  using assms by (cases rule: native_call.cases) (simp_all add: python_methods_def guarded_def less_mutex_def)

lemma python_call_ordered:
  assumes "ordered [] p" and "\<not> released \<longrightarrow> list_all (above GilM) p"
  shows "ordered [] (python_call_script released p)"
proof (cases released)
  case True
  have "ordered [] (p @ guarded GilM [])" using assms(1) by (rule ordered_append) (simp add: guarded_def)
  then show ?thesis using True by (simp add: python_call_script_def guarded_def)
next
  case False
  then show ?thesis using ordered_guarded [of p GilM] assms by (simp add: python_call_script_def guarded_def)
qed

lemma two_stops_ordered:
  assumes "set turns \<subseteq> set stop_scripts" and "set turns' \<subseteq> set stop_scripts" and "ordered [] p"
  shows "ordered [] (p @ concat turns @ concat turns')"
  using assms ordered_turns [OF _ scripts_ordered(2)] by (simp add: ordered_append)

lemma client_destructor_ordered:
  assumes "set turns \<subseteq> set stop_scripts" and "set turns' \<subseteq> set stop_scripts"
  shows "ordered [] (client_destructor_script turns turns')"
  unfolding client_destructor_script_def by (rule two_stops_ordered [OF assms]) (simp add: guarded_def)

lemma destroyer_turn_ordered: "destroyer_turn p \<Longrightarrow> ordered [] p"
proof (induction rule: destroyer_turn.induct)
  case (1 w turns turns')
  then have "ordered [] (guarded DestroyerM w)" by (auto simp: guarded_def)
  then show ?case unfolding destroyer_script_def using two_stops_ordered 1 by blast
qed

lemma user_call_ordered: "user_call p \<Longrightarrow> ordered [] p"
proof (induction rule: user_call.induct)
  case (1 p)
  then show ?case using scripts_ordered by (auto simp: list_all_iff)
next
  case (2 turns turns')
  then show ?case by (rule client_destructor_ordered)
next
  case (3 n p)
  then show ?case by (rule native_call_ordered)
next
  case (4 n p released)
  then show ?case using native_call_ordered kept_gil_above by (intro python_call_ordered) auto
next
  case (5 turns turns' turns'')
  then have "ordered [] (native_stop_script turns @ client_destructor_script turns' turns'')"
    using native_call_ordered native_call.intros(3) client_destructor_ordered ordered_append by blast
  then show ?case unfolding native_deleter_script_def by (rule python_call_ordered) simp
qed

lemma thread_program_ordered: "thread_program p \<Longrightarrow> ordered [] p"
proof (induction rule: thread_program.induct)
  case (user ps)
  then show ?case using user_call_ordered by (intro ordered_concat) (auto simp: list_all_iff)
next
  case (worker ps)
  then show ?case
    using list_all_subset [OF worker] scripts_ordered(6) scripts_above(3)
    by (intro ordered_guarded ordered_concat) (auto simp: list_all_concat)
next
  case (destroyer ps)
  then show ?case using destroyer_turn_ordered by (intro ordered_concat) (auto simp: list_all_iff)
qed

text \<open>A thread that has the interpreter lock waits for nobody who may be waiting.\<close>

lemma gil_holder_brief:
  assumes "ordered held p" and "GilM \<in> set held"
  shows "(\<forall>m q. p = Acq m # q \<longrightarrow> m = DataM \<or> m = QueueM) \<and> (\<forall>m timed q. p \<noteq> Asleep m timed # q)"
  using assms by (auto simp: sleeper_def split: if_splits)

section \<open>Properties\<close>

text \<open>
  C7. The mutexes alone cannot deadlock. Whatever calls any number of threads make, with workers and their
  callbacks and the deferred destroyer among them, every thread takes the mutexes in the one order, and
  no two threads ever hold the same one. A thread that has Python's interpreter lock can want no mutex
  but that of the data or of the queue, and is in no wait. When no thread can take a step, because no
  wait is woken and none can expire, each thread has ended, or is in a wait without a time limit, or
  wants the native client's mutex while a thread in such a wait has it: no thread is kept waiting by
  the interpreter lock, by a join or by any other mutex, and the worker never is. Whether such a wait is
  woken is not a matter of the mutexes; if each is, then from every state that can be reached all threads
  can run to the end, joins included.
\<close>

theorem locks_never_deadlock:
  assumes "list_all thread_program ps" and "lock_reach ps ts"
  shows "list_all (ordered []) ps \<and>
    (\<forall>i j. i < length ts \<and> j < length ts \<and> i \<noteq> j \<longrightarrow> set (fst (ts ! i)) \<inter> set (fst (ts ! j)) = {}) \<and>
    (\<forall>(held, p) \<in> set ts. GilM \<in> set held \<longrightarrow>
      (\<forall>m q. p = Acq m # q \<longrightarrow> m = DataM \<or> m = QueueM) \<and> (\<forall>m timed q. p \<noteq> Asleep m timed # q)) \<and>
    ((\<nexists>ts'. lock_step ts ts') \<longrightarrow> (\<forall>t \<in> set ts. t = ([], []) \<or> (asleep t \<and> WorkerEnd \<notin> set (fst t)) \<or>
      (fst t = [] \<and> (\<exists>p. snd t = Acq NativeM # p) \<and> (\<exists>u \<in> set ts. asleep u \<and> NativeM \<in> set (fst u))))) \<and>
    (\<exists>ts'. lock_or_wake\<^sup>*\<^sup>* ts ts' \<and> finished ts')"
proof -
  have o: "list_all (ordered []) ps" using assms(1) thread_program_ordered by (auto simp: list_all_iff)
  have i: "lock_inv ts" by (rule lock_reach_inv [OF o assms(2)])
  have e: "\<forall>i j. i < length ts \<and> j < length ts \<and> i \<noteq> j \<longrightarrow> set (fst (ts ! i)) \<inter> set (fst (ts ! j)) = {}"
    using mutual_exclusion [OF assms(2)] unfolding exclusive_def .
  have g: "\<forall>(held, p) \<in> set ts. GilM \<in> set held \<longrightarrow>
      (\<forall>m q. p = Acq m # q \<longrightarrow> m = DataM \<or> m = QueueM) \<and> (\<forall>m timed q. p \<noteq> Asleep m timed # q)"
  proof (intro ballI, clarify)
    fix held p assume "(held, p) \<in> set ts" "GilM \<in> set held"
    then show "(\<forall>m q. p = Acq m # q \<longrightarrow> m = DataM \<or> m = QueueM) \<and> (\<forall>m timed q. p \<noteq> Asleep m timed # q)"
      using i by (intro gil_holder_brief [of held]) (auto simp: lock_inv_def)
  qed
  show ?thesis by (intro conjI o e g impI ballI stuck_threads [OF i] runs_to_the_end [OF i])
qed

theorem locks_never_deadlock_witness:
  "(\<exists>ts'. lock_or_wake\<^sup>*\<^sup>* [([], concat [stop_scripts ! 1]), ([], guarded WorkerEnd (concat [hd closing_scripts]))] ts' \<and> finished ts')"
proof -
  let ?ps = "[concat [stop_scripts ! 1], guarded WorkerEnd (concat [hd closing_scripts])]"
  have "thread_program (concat [stop_scripts ! 1])"
    by (rule thread_program.user) (auto simp: script_defs intro!: user_call.intros(1))
  moreover have "thread_program (guarded WorkerEnd (concat [hd closing_scripts]))"
    by (rule thread_program.worker) (auto simp: script_defs)
  ultimately have "list_all thread_program ?ps" by simp
  from locks_never_deadlock [OF this lock_reach.start] show ?thesis by simp
qed

end
