(* ===== verification/Worker_Machine.thy ===== *)
theory Worker_Machine
  imports Client_Facade
begin

text \<open>
  The worker and \<open>stop\<close> step by step (\<open>run\<close>, \<open>receive_session\<close> and \<open>stop\<close> of
  \<open>core/src/detail/client_impl.cpp\<close>). \<open>Client_Session\<close> describes a whole run of the worker with every
  read of \<open>stopping_\<close> as an argument; here the worker is a machine with a program point between any two
  of its critical sections, so that the steps of a thread that calls \<open>stop\<close> can fall anywhere between
  them. The lemmas show that a stop request cannot be missed: not even by a worker that is about to
  connect, where connecting clears the shutdown flag that the request has set. \<open>Worker_Simulation\<close> shows
  that the machine makes every run of \<open>Client_Session\<close>.
\<close>

section \<open>The worker\<close>

text \<open>
  The program points: the loop condition of \<open>run\<close>; in \<open>receive_session\<close> its beginning, the discovery, the
  check after it, the connection, the section under the command lock, the preparation of the loop,
  its condition and the wait for a datagram; in \<open>run\<close> again the closing, the decision about the outcome,
  the delay, the handlers, and the end.
\<close>

datatype worker_pc =
    AtHead | AtStart | AtDiscovery | AtConfigured | AtConnect | AtCommand | AtReady
  | AtLoop time_point bool
  | AtWait time_point time_point bool
  | AtClose session_outcome
  | AtOutcome session_outcome
  | AtDelay fl
  | AtThrow exn
  | AtFinish | AtEnd

text \<open>How far a thread is in \<open>stop\<close>: the flag is set first, the request follows under the command lock.\<close>

datatype stopper_pc = BeforeStop | AfterFlag | AfterRequest

record machine =
  m_impl :: impl
  m_pc :: worker_pc
  m_backoff :: fl
  m_samples :: "sample list"
  m_delays :: "fl list"
  m_stop :: stopper_pc

text \<open>
  What the world answers to a step. The reads of \<open>stopping_\<close> in it may be true although the flag is not
  set in the state: a stop that came since. Whether locking the data mutex succeeds is the last part.
\<close>

record answers =
  an_run :: run_turn
  an_turn :: turn
  an_stop_catch :: bool
  an_lock_ok :: bool

definition goto :: "worker_pc \<Rightarrow> impl \<Rightarrow> machine \<Rightarrow> machine" where
  "goto pc s m = m\<lparr>m_impl := s, m_pc := pc\<rparr>"

text \<open>The reads after the wait see a stop that was requested before it.\<close>

definition reads_after :: "impl \<Rightarrow> turn \<Rightarrow> turn" where
  "reads_after s t = t\<lparr>t_stop_thrown := c_stopping s \<or> t_stop_thrown t,
     t_stop_received := c_stopping s \<or> t_stop_received t, t_stop_empty := c_stopping s \<or> t_stop_empty t\<rparr>"

text \<open>The handler around connecting and the start request.\<close>

definition connection_failed :: "bool \<Rightarrow> exn \<Rightarrow> worker_pc" where
  "connection_failed stop e =
     (if is_std_exception e then AtClose (session_end (stopped_or stop SessionSocket) (what e) False)
      else AtThrow e)"

definition outcome_message :: "session_outcome \<Rightarrow> string" where
  "outcome_message out = (if message out = [] then message_for (result out) else message out)"

definition worker_step :: "platform \<Rightarrow> os \<Rightarrow> answers \<Rightarrow> machine \<Rightarrow> machine option" where
  "worker_step P os a m =
     (let s = m_impl m; rt = an_run a; io = rt_session rt; t = an_turn a in
      case m_pc m of
        AtHead \<Rightarrow>
          Some (goto (if (c_stopping s \<or> rt_stop_loop rt) \<or> impl_faulted s then AtFinish else AtStart) s m)
      | AtStart \<Rightarrow>
          Some (goto (if c_stopping s \<or> si_stop_start io then AtClose (session_end SessionStopped [] False) else AtDiscovery)
            (s\<lparr>c_health := (c_health s)\<lparr>h_state := Connecting\<rparr>\<rparr>) m)
      | AtDiscovery \<Rightarrow>
          (case configuration_for_session P (si_fenv io) (si_http io) s of
             (None, s1) \<Rightarrow> None
           | (Some (Inl (DiscoveryError msg)), s1) \<Rightarrow>
               Some (goto (AtClose (session_end
                 (stopped_or (c_stopping s \<or> si_stop_discovery io) SessionSensorConfiguration) msg False)) s1 m)
           | (Some (Inl e), s1) \<Rightarrow> Some (goto (AtThrow e) s1 m)
           | (Some (Inr sc), s1) \<Rightarrow> Some (goto AtConfigured (apply_configuration sc s1) m))
      | AtConfigured \<Rightarrow>
          Some (goto (if c_stopping s \<or> si_stop_configured io then AtClose (session_end SessionStopped [] False)
            else AtConnect) s m)
      | AtConnect \<Rightarrow>
          (case transport_connect os (si_resolution io) (c_transport s) of
             (Inl e, c) \<Rightarrow> Some (goto (connection_failed (c_stopping s \<or> si_stop_connect io) e) (s\<lparr>c_transport := c\<rparr>) m)
           | (Inr _, c) \<Rightarrow> Some (goto AtCommand (s\<lparr>c_transport := c\<rparr>) m))
      | AtCommand \<Rightarrow>
          if c_stopping s \<or> si_stop_command io then Some (goto (AtClose (session_end SessionStopped [] False)) s m)
          else (case transport_send os (si_send io) (c_transport s) of
             Inl e \<Rightarrow> Some (goto (connection_failed (c_stopping s \<or> si_stop_connect io) e) s m)
           | Inr _ \<Rightarrow> Some (goto AtReady (s\<lparr>c_session_started := True\<rparr>) m))
      | AtReady \<Rightarrow>
          let s1 = s\<lparr>c_rdt_sequence := rdt_reset (c_rdt_sequence s),
                     c_ft_sequence := ft_begin_session (c_ft_sequence s)\<rparr> in
          (case checked_deadline P (si_now io) (receive_timeout (c_config s1)) of
             Inl e \<Rightarrow> Some (goto (AtThrow e) s1 m)
           | Inr deadline \<Rightarrow> Some (goto (AtLoop deadline False) s1 m))
      | AtLoop deadline valid \<Rightarrow>
          if c_stopping s \<or> t_stop_loop t then Some (goto (AtClose (session_end SessionStopped [] valid)) s m)
          else if t_now t \<ge> deadline then
            (let (out, s1) = count_timeout (c_stopping s \<or> t_stop_deadline t) valid s in Some (goto (AtClose out) s1 m))
          else Some (goto (AtWait deadline (t_now t) valid) s m)
      | AtWait deadline now valid \<Rightarrow>
          (case transport_receive P os bufferSize (seconds_of_ticks (rounding_mode P) (deadline - now)) (t_wait t)
                  (c_transport s) of
             None \<Rightarrow> None
           | Some received \<Rightarrow>
               (case after_receive P (reads_after s t) deadline valid received s of
                  (TurnReturns out, s1, smp) \<Rightarrow>
                    Some ((goto (AtClose out) s1 m)\<lparr>m_samples := m_samples m @ option_list smp\<rparr>)
                | (TurnThrows e, s1, smp) \<Rightarrow>
                    Some ((goto (AtThrow e) s1 m)\<lparr>m_samples := m_samples m @ option_list smp\<rparr>)
                | (TurnBlocks, s1, smp) \<Rightarrow> None
                | (TurnContinues deadline' valid', s1, smp) \<Rightarrow>
                    Some ((goto (AtLoop deadline' valid') s1 m)\<lparr>m_samples := m_samples m @ option_list smp\<rparr>)))
      | AtClose out \<Rightarrow> Some (goto (AtOutcome out) (fst (close_session os s)) m)
      | AtOutcome out \<Rightarrow>
          if result out \<noteq> SessionStopped \<and> recovery_policy (c_config s) = FailStop
          then Some (goto AtFinish (set_fault (rt_lock_ok rt) (fault_for (result out)) (outcome_message out) s) m)
          else if result out = SessionStopped \<or> c_stopping s \<or> rt_stop_after rt then Some (goto AtFinish s m)
          else
            let backoff = (if received_valid_record out then reconnect_initial_delay (c_config s) else m_backoff m);
                s1 = enter_backoff (outcome_message out) s in
            (case checked_deadline P (rt_now rt) backoff of
               Inl e \<Rightarrow> Some (goto (AtThrow e) s1 m)
             | Inr _ \<Rightarrow> Some ((goto (AtDelay backoff) s1 m)\<lparr>m_delays := m_delays m @ [backoff]\<rparr>))
      | AtDelay backoff \<Rightarrow>
          Some ((goto AtHead s m)\<lparr>m_backoff := next_backoff (rounding_mode P) (c_config s) backoff\<rparr>)
      | AtThrow e \<Rightarrow>
          Some (goto AtFinish
            (if c_stopping s \<or> an_stop_catch a then s
             else set_fault (an_lock_ok a) FaultSocket
                    (if is_std_exception e then what e else ''unknown client failure'') s) m)
      | AtFinish \<Rightarrow> Some (goto AtEnd (finish_session os (an_lock_ok a) s) m)
      | AtEnd \<Rightarrow> None)"

definition machine_of :: "impl \<Rightarrow> machine" where
  "machine_of s = \<lparr>m_impl = s, m_pc = AtHead, m_backoff = reconnect_initial_delay (c_config s), m_samples = [],
     m_delays = [], m_stop = BeforeStop\<rparr>"

section \<open>A thread that stops the client\<close>

definition stop_flag :: "impl \<Rightarrow> impl" where
  "stop_flag s = s\<lparr>c_stopping := True\<rparr>"

definition stop_request :: "os \<Rightarrow> impl \<Rightarrow> impl" where
  "stop_request os s = s\<lparr>c_session_started := False, c_transport := transport_shutdown os (c_transport s)\<rparr>"

lemma request_stop_parts: "fst (request_stop os s) = stop_request os (stop_flag s)"
  by (simp add: request_stop_def stop_request_def stop_flag_def)

text \<open>
  What the callback and other calls of the client may do meanwhile: they do not take a stop back, nor
  a shutdown, and leave the socket alone. A \<open>start\<close> does more, but it changes the state only when the
  worker has ended.
\<close>

definition calmly :: "impl \<Rightarrow> impl \<Rightarrow> bool" where
  "calmly s s' \<longleftrightarrow> (c_stopping s \<longrightarrow> c_stopping s') \<and>
     (shutdown_requested (c_transport s) \<longrightarrow> shutdown_requested (c_transport s')) \<and>
     socket (c_transport s') = socket (c_transport s)"

definition calm :: "(impl \<Rightarrow> impl) \<Rightarrow> bool" where
  "calm f \<longleftrightarrow> (\<forall>s. calmly s (f s))"

inductive machine_step :: "platform \<Rightarrow> os \<Rightarrow> machine \<Rightarrow> machine \<Rightarrow> bool" for P os where
  Worker: "worker_step P os a m = Some m' \<Longrightarrow> calm (cb_interference (t_callback (an_turn a))) \<Longrightarrow> machine_step P os m m'"
| Flag: "m_stop m = BeforeStop \<Longrightarrow> machine_step P os m (m\<lparr>m_impl := stop_flag (m_impl m), m_stop := AfterFlag\<rparr>)"
| Request: "m_stop m = AfterFlag \<Longrightarrow>
    machine_step P os m (m\<lparr>m_impl := stop_request os (m_impl m), m_stop := AfterRequest\<rparr>)"
| Other: "calm f \<Longrightarrow> machine_step P os m (m\<lparr>m_impl := f (m_impl m)\<rparr>)"

inductive machine_reach :: "platform \<Rightarrow> os \<Rightarrow> machine \<Rightarrow> bool" for P os where
  start: "machine_reach P os (machine_of s)"
| step: "machine_reach P os m \<Longrightarrow> machine_step P os m m' \<Longrightarrow> machine_reach P os m'"

inductive_cases machine_stepE: "machine_step P os m m'"

section \<open>What the worker's own operations leave alone\<close>

lemma calmly_refl [simp]: "calmly s s" by (simp add: calmly_def)

lemma calmly_trans: "calmly s s' \<Longrightarrow> calmly s' s'' \<Longrightarrow> calmly s s''" by (auto simp: calmly_def)

lemma calmly_simps [simp]:
  "calmly s (s'\<lparr>c_health := h\<rparr>) = calmly s s'" "calmly s (s'\<lparr>c_session_started := b\<rparr>) = calmly s s'"
  "calmly s (s'\<lparr>c_consecutive_malformed := n\<rparr>) = calmly s s'" "calmly s (s'\<lparr>c_curl_once := c\<rparr>) = calmly s s'"
  "calmly s (s'\<lparr>c_rdt_sequence := x\<rparr>) = calmly s s'" "calmly s (s'\<lparr>c_ft_sequence := y\<rparr>) = calmly s s'"
  "calmly s (s'\<lparr>c_worker_exited := z\<rparr>) = calmly s s'"
  by (simp_all add: calmly_def)

lemma observe_record_calmly: "calmly s (snd (observe_record P rec tm s))"
  by (auto simp: observe_record_def Let_def calmly_def split: prod.splits option.splits)

lemma bookkeeping_calmly:
  "calmly s (record_delivery P smp s)" "calmly s (record_callback_error b1 b2 msg s)"
  by (auto simp: record_delivery_def record_callback_error_def Let_def calmly_def)

lemma handle_record_calmly:
  assumes "calm (cb_interference cb)"
  shows "calmly s (fst (snd (handle_record P cb rec tm s)))"
proof -
  obtain q s1 where o: "observe_record P rec tm s = (q, s1)" by fastforce
  have k: "calmly s s1" using observe_record_calmly [of s P rec tm] o by simp
  have i: "calmly s (cb_interference cb s1)" using assms k calmly_trans by (auto simp: calm_def)
  have d: "calmly s (record_delivery P smp s')" "calmly s (record_callback_error b1 b2 msg s')" if "calmly s s'" for smp b1 b2 msg s'
    using that calmly_trans bookkeeping_calmly by blast+
  show ?thesis
    using k d [OF k] d [OF i]
    by (auto simp: handle_record_def o Let_def split: sum.splits option.splits prod.splits)
qed

lemma after_receive_calmly:
  assumes "calm (cb_interference (t_callback t))" and "after_receive P t deadline valid received s = (r, s', smp)"
  shows "calmly s s'"
proof -
  have h: "calmly s s2" if "handle_record P (t_callback t) rec tm (s\<lparr>c_consecutive_malformed := 0\<rparr>) = (q, s2, z)" for rec tm q s2 z
    using handle_record_calmly [OF assms(1), of "s\<lparr>c_consecutive_malformed := 0\<rparr>" P rec tm] that
    by (simp add: calmly_def)
  show ?thesis
    using assms(2) h
    by (auto simp: after_receive_def count_timeout_def count_malformed_def Let_def
        split: sum.splits if_splits option.splits prod.splits)
qed

lemma configuration_calmly:
  "calmly s (snd (configuration_for_session P calls http s))" "calmly s' (apply_configuration sc s) = calmly s' s"
  by (auto simp: configuration_for_session_def apply_configuration_def Let_def split: option.splits prod.splits)

text \<open>The calls of the client are calm.\<close>

lemma client_calls_calm:
  "calm (\<lambda>s. fst (snd (bias os r1 r2 s)))" "calm (\<lambda>s. snd (impl_health P now s))" "calm stop_flag" "calm (stop_request os)"
  "calm (\<lambda>s. snd (stop_section os self s))"
proof -
  have t: "shutdown_requested (transport_shutdown os c)" "socket (transport_shutdown os c) = socket c" for c
    by (cases os; simp add: posix_shutdown_def win_shutdown_def)+
  show "calm (\<lambda>s. fst (snd (bias os r1 r2 s)))" "calm (\<lambda>s. snd (impl_health P now s))" "calm stop_flag" "calm (stop_request os)"
    by (auto simp: calm_def calmly_def bias_def impl_health_def stop_flag_def stop_request_def t Let_def split: sum.splits)
  show "calm (\<lambda>s. snd (stop_section os self s))"
    by (auto simp: calm_def calmly_def stop_section_def request_stop_def show_stopped_def t Let_def split: option.splits)
qed

section \<open>A stop is not missed\<close>

definition in_session :: "worker_pc \<Rightarrow> bool" where
  "in_session pc \<longleftrightarrow> (case pc of AtReady \<Rightarrow> True | AtLoop _ _ \<Rightarrow> True | AtWait _ _ _ \<Rightarrow> True | _ \<Rightarrow> False)"

text \<open>
  Once \<open>stop\<close> has begun the flag is set, and once it has made its request a session that is open has
  been shut down.
\<close>

definition machine_inv :: "machine \<Rightarrow> bool" where
  "machine_inv m \<longleftrightarrow>
     (m_stop m \<noteq> BeforeStop \<longrightarrow> c_stopping (m_impl m)) \<and>
     (m_pc m = AtCommand \<or> in_session (m_pc m) \<longrightarrow> socket (c_transport (m_impl m)) \<noteq> None) \<and>
     (in_session (m_pc m) \<and> m_stop m = AfterRequest \<longrightarrow> shutdown_requested (c_transport (m_impl m)))"

lemma goto_simps [simp]:
  "m_impl (goto pc s m) = s" "m_pc (goto pc s m) = pc" "m_stop (goto pc s m) = m_stop m"
  "m_samples (goto pc s m) = m_samples m" "m_delays (goto pc s m) = m_delays m" "m_backoff (goto pc s m) = m_backoff m"
  by (simp_all add: goto_def)

lemma in_session_simps [simp]:
  "in_session AtReady" "in_session (AtLoop d v)" "in_session (AtWait d n v)" "\<not> in_session AtHead" "\<not> in_session AtStart"
  "\<not> in_session AtDiscovery" "\<not> in_session AtConfigured" "\<not> in_session AtConnect" "\<not> in_session AtCommand"
  "\<not> in_session (AtClose out)" "\<not> in_session (AtOutcome out)" "\<not> in_session (AtDelay b)" "\<not> in_session (AtThrow e)"
  "\<not> in_session AtFinish" "\<not> in_session AtEnd" "\<not> in_session (connection_failed stop e)" "connection_failed stop e \<noteq> AtCommand"
  by (simp_all add: in_session_def connection_failed_def)

lemma transport_connect_ok: "transport_connect os r c = (Inr u, c') \<Longrightarrow> socket c' \<noteq> None"
  by (cases os) (auto dest: connect_results)

lemma stopping_kept [simp]:
  "c_stopping (apply_configuration sc s) = c_stopping s" "c_stopping (fst (close_session os s)) = c_stopping s"
  "c_stopping (set_fault b c msg s) = c_stopping s" "c_stopping (enter_backoff msg s) = c_stopping s"
  "c_stopping (finish_session os b s) = c_stopping s" "c_stopping (snd (configuration_for_session P calls http s)) = c_stopping s"
  by (auto simp: apply_configuration_def close_session_def set_fault_def enter_backoff_def finish_session_def
      configuration_for_session_def Let_def split: option.splits prod.splits)

lemma machine_inv_calm:
  assumes "machine_inv m" and "calmly (m_impl m) s" and "m_stop m' = m_stop m" and "m_impl m' = s"
    and "in_session (m_pc m') \<longrightarrow> in_session (m_pc m)" and "m_pc m' = AtCommand \<longrightarrow> m_pc m = AtCommand"
  shows "machine_inv m'"
  using assms by (auto simp: machine_inv_def calmly_def)

text \<open>A step that stays outside a session only has to keep the flag.\<close>

lemma machine_inv_outside:
  assumes "machine_inv m" and "m_stop m' = m_stop m" and "c_stopping (m_impl m) \<longrightarrow> c_stopping (m_impl m')"
    and "\<not> in_session (m_pc m')" and "m_pc m' \<noteq> AtCommand"
  shows "machine_inv m'"
  using assms by (auto simp: machine_inv_def)

lemma after_wait_inv:
  assumes "machine_inv m" and "m_pc m = AtWait deadline now valid" and "calm (cb_interference (t_callback (an_turn a)))"
    and "worker_step P os a m = Some m'"
  shows "machine_inv m'"
proof -
  let ?t = "reads_after (m_impl m) (an_turn a)"
  have c: "calm (cb_interference (t_callback ?t))" using assms(3) by (simp add: reads_after_def)
  obtain received r s1 smp where r: "after_receive P ?t deadline valid received (m_impl m) = (r, s1, smp)"
    "m_impl m' = s1" "m_stop m' = m_stop m" "m_pc m' \<noteq> AtCommand"
    using assms(2,4) by (auto simp: worker_step_def Let_def split: option.splits prod.splits turn_result.splits)
  have "calmly (m_impl m) s1" by (rule after_receive_calmly [OF c r(1)])
  then show ?thesis using machine_inv_calm [OF assms(1) _ r(3,2)] r(4) assms(2) by simp
qed

lemma worker_step_inv:
  assumes "machine_inv m" and "calm (cb_interference (t_callback (an_turn a)))" and "worker_step P os a m = Some m'"
  shows "machine_inv m'"
proof (cases "m_pc m")
  case AtDiscovery
  have "c_stopping s1 = c_stopping (m_impl m)" if "configuration_for_session P calls http (m_impl m) = (q, s1)" for calls http q s1
    using stopping_kept(6) [of P calls http "m_impl m"] that by simp
  then show ?thesis
    using assms(3) AtDiscovery
    by (intro machine_inv_outside [OF assms(1)])
      (auto simp: worker_step_def Let_def split: option.splits prod.splits sum.splits exn.splits)
next
  case AtConnect
  then show ?thesis
    using assms transport_connect_ok [of os "si_resolution (rt_session (an_run a))" "c_transport (m_impl m)"]
    by (auto simp: worker_step_def Let_def machine_inv_def split: prod.splits sum.splits)
next
  case AtCommand
  then show ?thesis
    using assms by (auto simp: worker_step_def Let_def machine_inv_def split: if_splits sum.splits)
next
  case (AtWait deadline now valid)
  then show ?thesis using after_wait_inv assms by blast
qed (use assms in \<open>auto simp: worker_step_def Let_def machine_inv_def count_timeout_def
      split: if_splits sum.splits prod.splits\<close>)

lemma machine_reach_inv: "machine_reach P os m \<Longrightarrow> machine_inv m"
proof (induction rule: machine_reach.induct)
  case (start s)
  then show ?case by (simp add: machine_inv_def machine_of_def)
next
  case (step m m')
  from step.hyps(2) step.IH show ?case
  proof (cases rule: machine_step.cases)
    case (Worker a)
    then show ?thesis using worker_step_inv step.IH by blast
  next
    case Flag
    then show ?thesis using step.IH by (auto simp: machine_inv_def stop_flag_def)
  next
    case Request
    have "shutdown_requested (transport_shutdown os c)" "socket (transport_shutdown os c) = socket c" for c
      by (cases os; simp add: posix_shutdown_def win_shutdown_def)+
    then show ?thesis using Request step.IH by (auto simp: machine_inv_def stop_request_def)
  next
    case (Other f)
    then show ?thesis using machine_inv_calm [OF step.IH, of "f (m_impl m)" m'] by (simp add: calm_def)
  qed
qed

section \<open>And the worker ends\<close>

text \<open>The number of steps the worker has left once the flag is set.\<close>

fun stop_distance :: "worker_pc \<Rightarrow> nat" where
  "stop_distance AtEnd = 0"
| "stop_distance AtFinish = 1"
| "stop_distance AtHead = 2"
| "stop_distance (AtThrow e) = 2"
| "stop_distance (AtOutcome out) = 2"
| "stop_distance (AtDelay b) = 3"
| "stop_distance (AtClose out) = 3"
| "stop_distance AtStart = 4"
| "stop_distance AtConfigured = 4"
| "stop_distance AtCommand = 4"
| "stop_distance (AtLoop d v) = 4"
| "stop_distance (AtWait d n v) = 4"
| "stop_distance AtDiscovery = 5"
| "stop_distance AtConnect = 5"
| "stop_distance AtReady = 5"

lemma stop_distance_le: "stop_distance pc \<le> 5"
  by (cases pc) simp_all

lemma stop_distance_failed: "stop_distance (connection_failed b e) < 4"
  by (simp add: connection_failed_def)

lemma stopped_turn_ends:
  assumes "c_stopping s"
  shows "(\<exists>out. after_receive P (reads_after s t) d v r s = (TurnReturns out, s, None)) \<or>
    (\<exists>e. after_receive P (reads_after s t) d v r s = (TurnThrows e, s, None))"
  using assms by (auto simp: after_receive_def reads_after_def split: sum.splits)

lemma stop_distance_decreases:
  assumes "c_stopping (m_impl m)" and "worker_step P os a m = Some m'"
  shows "stop_distance (m_pc m') < stop_distance (m_pc m)"
proof (cases "m_pc m")
  case (AtWait d n v)
  then obtain r where r: "transport_receive P os bufferSize (seconds_of_ticks (rounding_mode P) (d - n))
      (t_wait (an_turn a)) (c_transport (m_impl m)) = Some r"
    using assms(2) by (auto simp: worker_step_def Let_def split: option.splits)
  show ?thesis
    using stopped_turn_ends [OF assms(1), of P "an_turn a" d v r] assms(2) AtWait r
    by (elim disjE exE) (auto simp: worker_step_def Let_def)
next
  case AtConnect
  then show ?thesis
    using assms by (auto simp: worker_step_def Let_def connection_failed_def split: prod.splits sum.splits)
qed (use assms in \<open>auto simp: worker_step_def Let_def count_timeout_def connection_failed_def
      split: if_splits sum.splits prod.splits option.splits exn.splits\<close>)

text \<open>
  Answers that let every step go on: those of the platform, and a floating-point environment in which
  the parser does not terminate the process.
\<close>

fun fits :: "os \<Rightarrow> transport_wait \<Rightarrow> bool" where
  "fits (Posix x) (PosixWait w) = True"
| "fits Windows (WinWait w) = True"
| "fits _ _ = False"

definition answering :: "platform \<Rightarrow> os \<Rightarrow> answers \<Rightarrow> bool" where
  "answering P os a \<longleftrightarrow> fits os (t_wait (an_turn a)) \<and>
     (\<forall>s. fst (configuration_for_session P (si_fenv (rt_session (an_run a))) (si_http (rt_session (an_run a))) s) \<noteq> None)"

lemma shutdown_receive:
  assumes "socket c \<noteq> None" and "shutdown_requested c" and "fits os w"
  shows "transport_receive P os capacity timeout w c = Some (Inr [])"
  using assms by (cases "(os, w)" rule: fits.cases) (auto simp: receive_results)

lemma after_receive_moves: "fst (after_receive P t d v r s) \<noteq> TurnBlocks"
  by (auto simp: after_receive_def Let_def split: sum.splits if_splits prod.splits option.splits)

lemma worker_step_enabled:
  assumes "machine_inv m" and "m_stop m = AfterRequest" and "answering P os a" and "m_pc m \<noteq> AtEnd"
  shows "worker_step P os a m \<noteq> None"
proof (cases "m_pc m")
  case AtDiscovery
  let ?c = "configuration_for_session P (si_fenv (rt_session (an_run a))) (si_http (rt_session (an_run a))) (m_impl m)"
  have "fst ?c \<noteq> None" using assms(3) unfolding answering_def by blast
  then show ?thesis
    using AtDiscovery
    by (cases ?c) (auto simp: worker_step_def Let_def split: option.splits sum.splits exn.splits)
next
  case (AtWait d n v)
  then have "transport_receive P os bufferSize (seconds_of_ticks (rounding_mode P) (d - n)) (t_wait (an_turn a))
      (c_transport (m_impl m)) = Some (Inr [])"
    using assms by (intro shutdown_receive) (auto simp: machine_inv_def answering_def)
  then show ?thesis
    using AtWait after_receive_moves [of P "reads_after (m_impl m) (an_turn a)" d v "Inr []" "m_impl m"]
    by (auto simp: worker_step_def Let_def split: prod.splits turn_result.splits)
qed (use assms(4) in \<open>auto simp: worker_step_def Let_def split: prod.splits sum.splits\<close>)

lemma worker_step_stop: "worker_step P os a m = Some m' \<Longrightarrow> m_stop m' = m_stop m"
  by (auto simp: worker_step_def Let_def
      split: worker_pc.splits if_splits prod.splits sum.splits option.splits exn.splits turn_result.splits)

lemma worker_step_end:
  assumes "worker_step P os a m = Some m'" and "m_pc m' = AtEnd"
  shows "c_worker_exited (m_impl m') \<and> \<not> c_session_started (m_impl m') \<and> socket (c_transport (m_impl m')) = None"
proof -
  have f: "connection_failed b e \<noteq> AtEnd" for b e by (simp add: connection_failed_def)
  have "m_impl m' = finish_session os (an_lock_ok a) (m_impl m)"
    using assms f by (auto simp: worker_step_def Let_def
      split: worker_pc.splits if_splits prod.splits sum.splits option.splits exn.splits turn_result.splits)
  then show ?thesis using finish_session_props by simp
qed

lemma stop_distance_0: "stop_distance pc = 0 \<longleftrightarrow> pc = AtEnd"
  by (cases pc) simp_all

lemma worker_ends:
  assumes "machine_inv m" and "m_stop m = AfterRequest" and "stop_distance (m_pc m) \<le> length as"
    and "\<forall>a \<in> set as. answering P os a \<and> calm (cb_interference (t_callback (an_turn a)))"
  shows "\<exists>k \<le> stop_distance (m_pc m). \<exists>m'. run_steps (worker_step P os) (take k as) m = Some m' \<and> m_pc m' = AtEnd \<and>
     (m_pc m \<noteq> AtEnd \<longrightarrow>
        c_worker_exited (m_impl m') \<and> \<not> c_session_started (m_impl m') \<and> socket (c_transport (m_impl m')) = None)"
  using assms
proof (induction as arbitrary: m)
  case Nil
  then show ?case by (simp add: stop_distance_0)
next
  case (Cons a as)
  show ?case
  proof (cases "m_pc m = AtEnd")
    case False
    then obtain m1 where m1: "worker_step P os a m = Some m1"
      using worker_step_enabled [of m P os a] Cons.prems by auto
    have st: "c_stopping (m_impl m)" using Cons.prems(1,2) by (simp add: machine_inv_def)
    have d: "stop_distance (m_pc m1) < stop_distance (m_pc m)" by (rule stop_distance_decreases [OF st m1])
    show ?thesis
    proof (cases "m_pc m1 = AtEnd")
      case True
      then show ?thesis using m1 d worker_step_end [OF m1] by (intro exI [of _ 1]) auto
    next
      case False
      have "machine_inv m1" using worker_step_inv [OF Cons.prems(1) _ m1] Cons.prems(4) by simp
      moreover have "m_stop m1 = AfterRequest" using worker_step_stop [OF m1] Cons.prems(2) by simp
      ultimately obtain k m' where k: "k \<le> stop_distance (m_pc m1)" "run_steps (worker_step P os) (take k as) m1 = Some m'"
        "m_pc m' = AtEnd" "c_worker_exited (m_impl m') \<and> \<not> c_session_started (m_impl m') \<and> socket (c_transport (m_impl m')) = None"
        using Cons.IH [of m1] Cons.prems(3,4) d False by auto
      then show ?thesis using m1 d by (intro exI [of _ "Suc k"]) auto
    qed
  qed (intro exI [of _ 0], simp)
qed

section \<open>Properties\<close>

text \<open>
  C14. A stop request ends the worker. Wherever the worker is when a thread has set the flag and made
  its request, whatever other calls and callbacks do meanwhile, and in every order of the steps, the
  worker has at most five steps left, every one of them possible, and then it has exited with no
  session open and its socket closed. A wait for a datagram that begins after the request returns at
  once, whatever the system would answer: the worker cannot open a session behind the request.
\<close>

theorem stop_ends_worker:
  assumes "machine_reach P os m" and "m_stop m = AfterRequest" and "5 \<le> length as"
    and "\<forall>a \<in> set as. answering P os a \<and> calm (cb_interference (t_callback (an_turn a)))"
  shows "(\<exists>k \<le> 5. \<exists>m'. run_steps (worker_step P os) (take k as) m = Some m' \<and> m_pc m' = AtEnd \<and>
      (m_pc m \<noteq> AtEnd \<longrightarrow>
         c_worker_exited (m_impl m') \<and> \<not> c_session_started (m_impl m') \<and> socket (c_transport (m_impl m')) = None)) \<and>
    (worker_step P os a m = Some m1 \<longrightarrow> stop_distance (m_pc m1) < stop_distance (m_pc m)) \<and>
    (m_pc m = AtWait d n v \<and> fits os w \<longrightarrow>
       transport_receive P os capacity timeout w (c_transport (m_impl m)) = Some (Inr []))"
proof -
  have i: "machine_inv m" by (rule machine_reach_inv [OF assms(1)])
  have l: "stop_distance (m_pc m) \<le> length as" using stop_distance_le [of "m_pc m"] assms(3) by simp
  have "c_stopping (m_impl m)" using i assms(2) by (simp add: machine_inv_def)
  then have "worker_step P os a m = Some m1 \<longrightarrow> stop_distance (m_pc m1) < stop_distance (m_pc m)"
    using stop_distance_decreases by blast
  moreover have "m_pc m = AtWait d n v \<and> fits os w \<longrightarrow>
       transport_receive P os capacity timeout w (c_transport (m_impl m)) = Some (Inr [])"
    using i assms(2) shutdown_receive by (auto simp: machine_inv_def)
  ultimately show ?thesis
    using worker_ends [OF i assms(2) l assms(4)] stop_distance_le [of "m_pc m"] order_trans by meson
qed

definition example_answers :: answers where
  "example_answers = \<lparr>an_run = example_run_turn, an_turn = example_turn 0, an_stop_catch = False, an_lock_ok = True\<rparr>"

lemma discovery_answers:
  "fst (configuration_for_session P (\<lambda>_. fenv_ok) http s) \<noteq> None"
  by (auto simp: configuration_for_session_def discover_sensor_def parse_sensor_configuration_def parse_positive_count_def
      scoped_ok Let_def split: option.splits prod.splits sum.splits)

lemma example_answers_ok:
  "answering P (Posix x) example_answers" "calm (cb_interference (t_callback (an_turn example_answers)))"
  using discovery_answers
  by (simp_all add: answering_def example_answers_def example_run_turn_def example_session_def example_turn_def
      calm_def example_callback_def)

theorem stop_ends_worker_witness:
  "\<forall>x. \<exists>m k m'. m_pc m = AtStart \<and> m_stop m = AfterRequest \<and> k \<le> 5 \<and>
     run_steps (worker_step linux_x86_64 (Posix x)) (take k (replicate 5 example_answers)) m = Some m' \<and> m_pc m' = AtEnd"
proof
  fix x
  let ?s = "example_impl\<lparr>c_session_started := False\<rparr>"
  let ?m0 = "machine_of ?s"
  let ?m1 = "goto AtStart ?s ?m0"
  let ?m2 = "?m1\<lparr>m_impl := stop_flag (m_impl ?m1), m_stop := AfterFlag\<rparr>"
  let ?m3 = "?m2\<lparr>m_impl := stop_request (Posix x) (m_impl ?m2), m_stop := AfterRequest\<rparr>"
  have 1: "machine_step linux_x86_64 (Posix x) ?m0 ?m1"
    by (rule machine_step.Worker [of _ _ example_answers, OF _ example_answers_ok(2)])
      (simp add: worker_step_def machine_of_def example_answers_def example_run_turn_def example_impl_def Let_def
        impl_faulted_def latch_faulted_def latch_init_def)
  have 2: "machine_step linux_x86_64 (Posix x) ?m1 ?m2" by (rule machine_step.Flag) (simp add: machine_of_def)
  have 3: "machine_step linux_x86_64 (Posix x) ?m2 ?m3" by (rule machine_step.Request) simp
  have r: "machine_reach linux_x86_64 (Posix x) ?m3"
    by (rule machine_reach.step [OF machine_reach.step [OF machine_reach.step [OF machine_reach.start 1] 2] 3])
  have "\<forall>a \<in> set (replicate 5 example_answers). answering linux_x86_64 (Posix x) a \<and> calm (cb_interference (t_callback (an_turn a)))"
    using example_answers_ok by simp
  moreover have s: "m_stop ?m3 = AfterRequest" "5 \<le> length (replicate 5 example_answers)" "m_pc ?m3 = AtStart" by simp_all
  ultimately obtain k m' where "k \<le> 5" "m_pc m' = AtEnd"
    "run_steps (worker_step linux_x86_64 (Posix x)) (take k (replicate 5 example_answers)) ?m3 = Some m'"
    using conjunct1 [OF stop_ends_worker [OF r s(1,2)]] by blast
  then show "\<exists>m k m'. m_pc m = AtStart \<and> m_stop m = AfterRequest \<and> k \<le> 5 \<and>
     run_steps (worker_step linux_x86_64 (Posix x)) (take k (replicate 5 example_answers)) m = Some m' \<and> m_pc m' = AtEnd"
    using s(1,3) by blast
qed

end
