(* ===== verification/Worker_Simulation.thy ===== *)
theory Worker_Simulation
  imports Worker_Machine
begin

text \<open>
  The worker as one function and the worker as a machine (both from \<open>run\<close> and \<open>receive_session\<close> of
  \<open>core/src/detail/client_impl.cpp\<close>): every run that \<open>Client_Session\<close> describes is a run of the machine of
  \<open>Worker_Machine\<close>. The lemmas follow the functions from the inside out: a turn of the receive loop,
  the loop, the opening of a session, a session, and the loop over the sessions.
\<close>

section \<open>The machine makes the runs of the worker\<close>

text \<open>
  The flag is in the answers and not in the state, and nobody interferes, as far as the flag goes, with
  what \<open>Client_Session\<close> describes.
\<close>

definition undisturbed :: "turn \<Rightarrow> bool" where
  "undisturbed t \<longleftrightarrow> t_interference t = id \<and> (\<forall>s. c_stopping (cb_interference (t_callback t) s) = c_stopping s)"

definition undisturbed_run :: "run_turn \<Rightarrow> bool" where
  "undisturbed_run rt \<longleftrightarrow> list_all undisturbed (si_turns (rt_session rt))"

lemma handle_record_stopping:
  assumes "\<forall>s. c_stopping (cb_interference cb s) = c_stopping s"
  shows "c_stopping (fst (snd (handle_record P cb rec tm s))) = c_stopping s"
proof -
  have o: "c_stopping (snd (observe_record P rec tm s)) = c_stopping s"
    by (auto simp: observe_record_def Let_def split: prod.splits option.splits)
  have b: "c_stopping (record_delivery P smp s') = c_stopping s'" "c_stopping (record_callback_error b1 b2 msg s') = c_stopping s'"
    for smp b1 b2 msg s' by (simp_all add: record_delivery_def record_callback_error_def Let_def)
  show ?thesis
    using assms o b by (auto simp: handle_record_def Let_def split: sum.splits option.splits prod.splits)
qed

lemma after_receive_stopping:
  assumes "undisturbed t" and "after_receive P t deadline valid received s = (r, s', smp)"
  shows "c_stopping s' = c_stopping s"
proof -
  have h: "c_stopping s2 = c_stopping s" if "handle_record P (t_callback t) rec tm (s\<lparr>c_consecutive_malformed := 0\<rparr>) = (q, s2, z)" for rec tm q s2 z
    using handle_record_stopping [of "t_callback t" P rec tm "s\<lparr>c_consecutive_malformed := 0\<rparr>"] that assms(1)
    by (simp add: undisturbed_def)
  show ?thesis
    using assms(2) h
    by (auto simp: after_receive_def count_timeout_def count_malformed_def Let_def
        split: sum.splits if_splits option.splits prod.splits)
qed

lemma reads_after_id: "\<not> c_stopping s \<Longrightarrow> reads_after s t = t"
  by (simp add: reads_after_def)

text \<open>The machine gets from \<open>m\<close> to a point and a state, with these samples and delays.\<close>

definition gets :: "platform \<Rightarrow> os \<Rightarrow> machine \<Rightarrow> worker_pc \<Rightarrow> impl \<Rightarrow> sample list \<Rightarrow> fl list \<Rightarrow> fl \<Rightarrow> bool" where
  "gets P os m pc s smps ds b \<longleftrightarrow>
     (\<exists>as. run_steps (worker_step P os) as m =
        Some (m\<lparr>m_impl := s, m_pc := pc, m_backoff := b, m_samples := m_samples m @ smps, m_delays := m_delays m @ ds\<rparr>))"

lemma gets_step:
  assumes "worker_step P os a m = Some m1" and "m_samples m1 = m_samples m @ smps" and "m_delays m1 = m_delays m @ ds"
    and "m_stop m1 = m_stop m" and "gets P os m1 pc s smps' ds' b"
  shows "gets P os m pc s (smps @ smps') (ds @ ds') b"
proof -
  obtain as where as: "run_steps (worker_step P os) as m1 =
      Some (m1\<lparr>m_impl := s, m_pc := pc, m_backoff := b, m_samples := m_samples m1 @ smps', m_delays := m_delays m1 @ ds'\<rparr>)"
    using assms(5) by (auto simp: gets_def)
  have "m1\<lparr>m_impl := s, m_pc := pc, m_backoff := b, m_samples := m_samples m1 @ smps', m_delays := m_delays m1 @ ds'\<rparr> =
      m\<lparr>m_impl := s, m_pc := pc, m_backoff := b, m_samples := m_samples m @ (smps @ smps'), m_delays := m_delays m @ (ds @ ds')\<rparr>"
    using assms(2-4) by simp
  then show ?thesis using as assms(1) unfolding gets_def by (intro exI [of _ "a # as"]) simp
qed

lemma gets_here: "m_pc m = pc \<Longrightarrow> m_impl m = s \<Longrightarrow> m_backoff m = b \<Longrightarrow> gets P os m pc s [] [] b"
  unfolding gets_def by (intro exI [of _ "[]"]) simp

lemma goto_goto [simp]: "goto pc s (goto pc' s' m) = goto pc s m"
  by (simp add: goto_def)

lemma goto_here: "m_pc m = pc \<Longrightarrow> m_impl m = s \<Longrightarrow> goto pc s m = m"
  by (simp add: goto_def)

lemma gets_quiet:
  assumes "worker_step P os a m = Some (goto pc' s' m)" and "gets P os (goto pc' s' m) pc s smps ds b"
  shows "gets P os m pc s smps ds b"
  using gets_step [OF assms(1), of "[]" "[]"] assms(2) by simp

lemma gets_one:
  assumes "worker_step P os a m = Some ((goto pc s m)\<lparr>m_samples := m_samples m @ smps\<rparr>)"
  shows "gets P os m pc s smps [] (m_backoff m)"
  unfolding gets_def using assms by (intro exI [of _ "[a]"]) (simp add: goto_def)

lemma gets_goto: "worker_step P os a m = Some (goto pc s m) \<Longrightarrow> gets P os m pc s [] [] (m_backoff m)"
  unfolding gets_def by (intro exI [of _ "[a]"]) (simp add: goto_def)

fun end_pc :: "session_outcome res \<Rightarrow> worker_pc" where
  "end_pc (Inr out) = AtClose out"
| "end_pc (Inl e) = AtThrow e"

text \<open>A turn that waits: two steps of the machine.\<close>

lemma wait_machine:
  assumes "undisturbed t" and "\<not> c_stopping s" and "\<not> t_stop_loop t" and "t_now t < d"
    and "receive_turn P os t d v s = (q, s1, smp)" and "q \<noteq> TurnBlocks"
  shows "gets P os (goto (AtLoop d v) s m)
      (case q of TurnReturns out \<Rightarrow> AtClose out | TurnThrows e \<Rightarrow> AtThrow e | TurnContinues d' v' \<Rightarrow> AtLoop d' v' | TurnBlocks \<Rightarrow> AtEnd)
      s1 (option_list smp) [] (m_backoff m) \<and> \<not> c_stopping s1"
proof -
  define a where "a = (undefined :: answers)\<lparr>an_turn := t\<rparr>"
  let ?m = "goto (AtLoop d v) s m" and ?w = "goto (AtWait d (t_now t) v) s m"
  have i: "t_interference t = id" using assms(1) by (simp add: undisturbed_def)
  have 1: "worker_step P os a ?m = Some (goto (AtWait d (t_now t) v) s ?m)" using assms(2-4) by (simp add: worker_step_def a_def)
  obtain x where x: "transport_receive P os bufferSize (seconds_of_ticks (rounding_mode P) (d - t_now t)) (t_wait t)
      (c_transport s) = Some x" and q: "after_receive P t d v x s = (q, s1, smp)"
    using assms(3-6) i by (auto simp: receive_turn_def split: option.splits)
  have "worker_step P os a ?w = Some ((goto (case q of TurnReturns out \<Rightarrow> AtClose out | TurnThrows e \<Rightarrow> AtThrow e
      | TurnContinues d' v' \<Rightarrow> AtLoop d' v' | TurnBlocks \<Rightarrow> AtEnd) s1 ?w)\<lparr>m_samples := m_samples ?w @ option_list smp\<rparr>)"
    using x q assms(2,6) by (cases q) (simp_all add: worker_step_def a_def reads_after_id)
  from gets_one [OF this] show ?thesis
    using gets_quiet [OF 1] after_receive_stopping [OF assms(1) q] assms(2) by simp
qed

definition moved :: "worker_pc \<Rightarrow> impl \<Rightarrow> sample list \<Rightarrow> fl list \<Rightarrow> fl \<Rightarrow> machine \<Rightarrow> machine" where
  "moved pc s smps ds b m =
     m\<lparr>m_impl := s, m_pc := pc, m_backoff := b, m_samples := m_samples m @ smps, m_delays := m_delays m @ ds\<rparr>"

lemma moved_goto: "moved pc s [] [] (m_backoff m) m = goto pc s m"
  by (simp add: moved_def goto_def)

lemma gets_trans:
  assumes "gets P os m pc1 s1 x1 d1 b1" and "gets P os (moved pc1 s1 x1 d1 b1 m) pc s x2 d2 b"
  shows "gets P os m pc s (x1 @ x2) (d1 @ d2) b"
proof -
  obtain as bs where "run_steps (worker_step P os) as m = Some (moved pc1 s1 x1 d1 b1 m)"
    "run_steps (worker_step P os) bs (moved pc1 s1 x1 d1 b1 m) = Some (moved pc s x2 d2 b (moved pc1 s1 x1 d1 b1 m))"
    using assms by (auto simp: gets_def moved_def)
  then show ?thesis
    unfolding gets_def by (intro exI [of _ "as @ bs"]) (simp add: run_steps_append moved_def)
qed

lemma gets_trans_quiet:
  assumes "gets P os m pc1 s1 [] [] (m_backoff m)" and "gets P os (goto pc1 s1 m) pc s smps ds b"
  shows "gets P os m pc s smps ds b"
  using gets_trans [OF assms(1)] assms(2) by (simp add: moved_goto)

lemma receive_loop_machine:
  assumes "receive_loop P os ts d v s = (Some r, s', smps)" and "list_all undisturbed ts" and "\<not> c_stopping s"
  shows "gets P os (goto (AtLoop d v) s m) (end_pc r) s' smps [] (m_backoff m) \<and> \<not> c_stopping s'"
  using assms
proof (induction ts arbitrary: d v s smps m)
  case (Cons t ts)
  define a where "a = (undefined :: answers)\<lparr>an_turn := t\<rparr>"
  let ?m = "goto (AtLoop d v) s m"
  have i: "t_interference t = id" "undisturbed t" using Cons.prems(2) by (simp_all add: undisturbed_def)
  consider "t_stop_loop t" | "\<not> t_stop_loop t" "t_now t \<ge> d" | "\<not> t_stop_loop t" "t_now t < d" by linarith
  then show ?case
  proof cases
    case 1
    then have "worker_step P os a ?m = Some (goto (AtClose (session_end SessionStopped [] v)) s ?m)"
      by (simp add: worker_step_def a_def)
    then show ?thesis using 1 i Cons.prems gets_goto by (fastforce simp: receive_turn_def)
  next
    case 2
    obtain out s1 where c: "count_timeout (t_stop_deadline t) v s = (out, s1)" by fastforce
    then have "worker_step P os a ?m = Some (goto (AtClose out) s1 ?m)"
      using 2 Cons.prems(3) by (simp add: worker_step_def a_def)
    moreover have "c_stopping s1 = c_stopping s" using c by (auto simp: count_timeout_def split: if_splits)
    ultimately show ?thesis using 2 c i Cons.prems gets_goto by (fastforce simp: receive_turn_def)
  next
    case 3
    obtain q s1 smp where q: "receive_turn P os t d v s = (q, s1, smp)" by (metis prod_cases3)
    then have "q \<noteq> TurnBlocks" using Cons.prems(1) by auto
    note w = wait_machine [OF i(2) Cons.prems(3) 3 q this, of m]
    show ?thesis
    proof (cases q)
      case (TurnContinues d' v')
      obtain smps' where l: "receive_loop P os ts d' v' s1 = (Some r, s', smps')" "smps = option_list smp @ smps'"
        using Cons.prems(1) q TurnContinues by (auto split: prod.splits)
      let ?n = "moved (AtLoop d' v') s1 (option_list smp) [] (m_backoff m) ?m"
      have n: "goto (AtLoop d' v') s1 ?n = ?n" "m_backoff ?n = m_backoff m" by (simp_all add: moved_def goto_def)
      have "gets P os ?n (end_pc r) s' smps' [] (m_backoff m)" "\<not> c_stopping s'"
        using Cons.IH [OF l(1), of ?n] w Cons.prems(2) n by simp_all
      then show ?thesis
        using gets_trans [of P os ?m "AtLoop d' v'" s1 "option_list smp" "[]" "m_backoff m"] w l(2) TurnContinues by fastforce
    qed (use w q Cons.prems(1) in auto)
  qed
qed simp

lemma ready_machine:
  assumes "\<not> c_stopping s" and "list_all undisturbed (si_turns (io :: session_io))"
    and "s1 = s\<lparr>c_rdt_sequence := rdt_reset (c_rdt_sequence s), c_ft_sequence := ft_begin_session (c_ft_sequence s)\<rparr>"
    and "(case checked_deadline P (si_now io) (receive_timeout (c_config s1)) of
       Inl e \<Rightarrow> (Some (Inl e), s1, []) | Inr deadline \<Rightarrow> receive_loop P os (si_turns io) deadline False s1) = (Some r, s', smps)"
  shows "gets P os (goto AtReady s m) (end_pc r) s' smps [] (m_backoff m) \<and> \<not> c_stopping s'"
proof -
  define a where "a = (undefined :: answers)\<lparr>an_run := (undefined :: run_turn)\<lparr>rt_session := io\<rparr>\<rparr>"
  show ?thesis
  proof (cases "checked_deadline P (si_now io) (receive_timeout (c_config s1))")
    case (Inl e)
    then have "worker_step P os a (goto AtReady s m) = Some (goto (AtThrow e) s1 (goto AtReady s m))"
      using assms(3) by (simp add: worker_step_def a_def)
    then show ?thesis using gets_goto assms Inl by fastforce
  next
    case (Inr d)
    then have "worker_step P os a (goto AtReady s m) = Some (goto (AtLoop d False) s1 (goto AtReady s m))"
      using assms(3) by (simp add: worker_step_def a_def)
    moreover have "receive_loop P os (si_turns io) d False s1 = (Some r, s', smps)" "\<not> c_stopping s1" using assms Inr by simp_all
    ultimately show ?thesis using receive_loop_machine [OF _ assms(2), of P os d False s1 r s' smps m] gets_quiet by simp
  qed
qed

fun opened_pc :: "session_outcome option res \<Rightarrow> worker_pc" where
  "opened_pc (Inr None) = AtReady"
| "opened_pc (Inr (Some out)) = AtClose out"
| "opened_pc (Inl e) = AtThrow e"

lemma open_machine:
  assumes "\<not> c_stopping s" and "open_session os io s = (x, s')"
  shows "gets P os (goto AtConnect s m) (opened_pc x) s' [] [] (m_backoff m) \<and> \<not> c_stopping s'"
proof -
  define a where "a = (undefined :: answers)\<lparr>an_run := (undefined :: run_turn)\<lparr>rt_session := io\<rparr>\<rparr>"
  let ?m = "goto AtConnect s m"
  obtain q c where c: "transport_connect os (si_resolution io) (c_transport s) = (q, c)" by fastforce
  let ?s = "s\<lparr>c_transport := c\<rparr>"
  show ?thesis
  proof (cases q)
    case (Inl e)
    then have "worker_step P os a ?m = Some (goto (opened_pc x) s' ?m)"
      using assms c by (auto simp: worker_step_def a_def open_session_def connection_failed_def)
    then show ?thesis using gets_goto [of P os a ?m] assms c Inl by (auto simp: open_session_def)
  next
    case (Inr u)
    let ?n = "goto AtCommand ?s ?m"
    have 1: "worker_step P os a ?m = Some ?n" using c Inr by (simp add: worker_step_def a_def)
    have "worker_step P os a ?n = Some (goto (opened_pc x) s' ?n)"
      using assms c Inr
      by (auto simp: worker_step_def a_def open_session_def connection_failed_def Let_def split: if_splits sum.splits)
    then have "gets P os ?n (opened_pc x) s' [] [] (m_backoff m)" using gets_goto [of P os a ?n] by simp
    moreover have "c_stopping s' = c_stopping s"
      using assms c Inr by (auto simp: open_session_def Let_def split: if_splits sum.splits)
    ultimately show ?thesis using gets_quiet [OF 1] assms(1) by simp
  qed
qed

text \<open>The part of a session after the configuration was applied.\<close>

lemma configured_machine:
  assumes "\<not> c_stopping s" and "list_all undisturbed (si_turns (io :: session_io))"
    and "configured_session P os io s = (Some r, s', smps)"
  shows "gets P os (goto AtConfigured s m) (end_pc r) s' smps [] (m_backoff m) \<and> \<not> c_stopping s'"
proof -
  define a where "a = (undefined :: answers)\<lparr>an_run := (undefined :: run_turn)\<lparr>rt_session := io\<rparr>\<rparr>"
  let ?m = "goto AtConfigured s m"
  show ?thesis
  proof (cases "si_stop_configured io")
    case True
    then have "worker_step P os a ?m = Some (goto (AtClose (session_end SessionStopped [] False)) s ?m)"
      by (simp add: worker_step_def a_def)
    from gets_goto [OF this] show ?thesis using assms True by (auto simp: configured_session_def)
  next
    case False
    then have 1: "worker_step P os a ?m = Some (goto AtConnect s ?m)" using assms(1) by (simp add: worker_step_def a_def)
    obtain x s3 where x: "open_session os io s = (x, s3)" by fastforce
    have g: "gets P os (goto AtConnect s m) (opened_pc x) s3 [] [] (m_backoff m)" "\<not> c_stopping s3"
      using open_machine [OF assms(1) x] by auto
    have "gets P os (goto AtConnect s m) (end_pc r) s' smps [] (m_backoff m) \<and> \<not> c_stopping s'"
    proof (cases "x = Inr None")
      case True
      then show ?thesis
        using gets_trans_quiet [of P os "goto AtConnect s m" AtReady s3] g
          ready_machine [OF g(2) assms(2) refl, of P os r s' smps m] assms(3) x False by (simp add: configured_session_def Let_def)
    next
      case no: False
      then have "opened_pc x = end_pc r" "s' = s3" "smps = []"
        using assms(3) x False by (auto simp: configured_session_def split: sum.splits option.splits)
      then show ?thesis using g by simp
    qed
    then show ?thesis using gets_quiet [OF 1] by simp
  qed
qed

lemma session_machine:
  assumes "receive_session P os io s = (Some r, s', smps)" and "list_all undisturbed (si_turns io)" and "\<not> c_stopping s"
  shows "gets P os (goto AtStart s m) (end_pc r) s' smps [] (m_backoff m) \<and> \<not> c_stopping s'"
proof -
  define a where "a = (undefined :: answers)\<lparr>an_run := (undefined :: run_turn)\<lparr>rt_session := io\<rparr>\<rparr>"
  let ?m = "goto AtStart s m"
  let ?s = "s\<lparr>c_health := (c_health s)\<lparr>h_state := Connecting\<rparr>\<rparr>"
  have st: "\<not> c_stopping ?s" using assms(3) by simp
  show ?thesis
  proof (cases "si_stop_start io")
    case True
    then have "worker_step P os a ?m = Some (goto (AtClose (session_end SessionStopped [] False)) ?s ?m)"
      by (simp add: worker_step_def a_def)
    then show ?thesis using gets_goto [of P os a ?m] assms True by (auto simp: receive_session_def)
  next
    case False
    let ?d = "goto AtDiscovery ?s ?m"
    have 1: "worker_step P os a ?m = Some ?d" using False assms(3) by (simp add: worker_step_def a_def)
    obtain q s1 where q: "configuration_for_session P (si_fenv io) (si_http io) ?s = (q, s1)" by fastforce
    have s1: "\<not> c_stopping s1" using stopping_kept(6) [of P "si_fenv io" "si_http io" ?s] q st by simp
    show ?thesis
    proof (cases "\<exists>sc. q = Some (Inr sc)")
      case no: False
      then have "worker_step P os a ?d = Some (goto (end_pc r) s1 ?d)" "s' = s1" "smps = []"
        using assms(1) q False st
        by (auto simp: worker_step_def a_def receive_session_def Let_def split: option.splits sum.splits exn.splits)
      then show ?thesis using gets_quiet [OF 1] gets_goto [of P os a ?d] s1 by auto
    next
      case True
      then obtain sc where sc: "q = Some (Inr sc)" by blast
      let ?s2 = "apply_configuration sc s1"
      have 2: "worker_step P os a ?d = Some (goto AtConfigured ?s2 ?d)" using q sc by (simp add: worker_step_def a_def)
      have "gets P os (goto AtConfigured ?s2 m) (end_pc r) s' smps [] (m_backoff m) \<and> \<not> c_stopping s'"
        using assms(1) q sc False s1 by (intro configured_machine [OF _ assms(2)]) (simp_all add: receive_session_def)
      then show ?thesis using gets_quiet [OF 1] gets_quiet [OF 2] by simp
    qed
  qed
qed

fun run_pc :: "unit res \<Rightarrow> worker_pc" where
  "run_pc (Inr _) = AtFinish"
| "run_pc (Inl e) = AtThrow e"

text \<open>From the end of a session that returned: the closing, and the decision with or without a delay.\<close>

lemma outcome_machine:
  assumes "s2 = fst (close_session os s)" and "worker_step P os a (goto (AtOutcome out) s2 m) = Some (goto pc s' m)"
  shows "gets P os (goto (AtClose out) s m) pc s' [] [] (m_backoff m)"
proof -
  have "worker_step P os a (goto (AtClose out) s m) = Some (goto (AtOutcome out) s2 m)" using assms(1) by (simp add: worker_step_def)
  moreover have "gets P os (goto (AtOutcome out) s2 m) pc s' [] [] (m_backoff m)"
    using gets_goto [of P os a "goto (AtOutcome out) s2 m" pc s'] assms(2) by simp
  ultimately show ?thesis using gets_quiet [of P os a "goto (AtClose out) s m" "AtOutcome out" s2] by simp
qed

definition run_continues :: "run_turn \<Rightarrow> session_outcome \<Rightarrow> impl \<Rightarrow> bool" where
  "run_continues rt out s \<longleftrightarrow> \<not> (result out \<noteq> SessionStopped \<and> recovery_policy (c_config s) = FailStop) \<and>
     \<not> (result out = SessionStopped \<or> rt_stop_after rt)"

definition session_backoff :: "session_outcome \<Rightarrow> fl \<Rightarrow> impl \<Rightarrow> fl" where
  "session_backoff out b s = (if received_valid_record out then reconnect_initial_delay (c_config s) else b)"

lemma delay_machine:
  assumes "s2 = fst (close_session os s)" and "\<not> c_stopping s" and "run_continues rt out s2"
    and "b = session_backoff out (m_backoff m) s2" and "checked_deadline P (rt_now rt) b = Inr d"
  shows "gets P os (goto (AtClose out) s m) AtHead (enter_backoff (outcome_message out) s2) [] [b]
    (next_backoff (rounding_mode P) (c_config s2) b)"
proof -
  define a where "a = (undefined :: answers)\<lparr>an_run := rt\<rparr>"
  let ?s3 = "enter_backoff (outcome_message out) s2"
  let ?m = "goto (AtClose out) s m" and ?o = "goto (AtOutcome out) s2 m"
  let ?p = "(goto (AtDelay b) ?s3 m)\<lparr>m_delays := m_delays m @ [b]\<rparr>"
  let ?h = "(goto AtHead ?s3 ?p)\<lparr>m_backoff := next_backoff (rounding_mode P) (c_config s2) b\<rparr>"
  have "worker_step P os a ?m = Some ?o" using assms(1) by (simp add: worker_step_def)
  moreover have "worker_step P os a ?o = Some ?p"
    using assms by (auto simp: worker_step_def a_def Let_def run_continues_def session_backoff_def)
  moreover have "worker_step P os a ?p = Some ?h" by (simp add: worker_step_def enter_backoff_def goto_def)
  ultimately show ?thesis unfolding gets_def by (intro exI [of _ "[a, a, a]"]) (simp add: goto_def)
qed

text \<open>The decision of \<open>run_loop\<close> in the same terms.\<close>

lemma run_loop_Cons:
  assumes "receive_session P os (rt_session rt) s = (Some (Inr out), s1, x)" and "\<not> (rt_stop_loop rt \<or> impl_faulted s)"
    and "s2 = fst (close_session os s1)" and "b1 = session_backoff out b s2"
  shows "run_loop P os (rt # rts) b s =
    (if result out \<noteq> SessionStopped \<and> recovery_policy (c_config s2) = FailStop
     then (Some (Inr ()), set_fault (rt_lock_ok rt) (fault_for (result out)) (outcome_message out) s2, x, [])
     else if \<not> run_continues rt out s2 then (Some (Inr ()), s2, x, [])
     else case checked_deadline P (rt_now rt) b1 of
       Inl e \<Rightarrow> (Some (Inl e), enter_backoff (outcome_message out) s2, x, [])
     | Inr _ \<Rightarrow>
         let (r, s4, smps', delays) = run_loop P os rts (next_backoff (rounding_mode P) (c_config s2) b1)
               (enter_backoff (outcome_message out) s2) in
         (r, s4, x @ smps', b1 # delays))"
  using assms by (auto simp: Let_def outcome_message_def run_continues_def session_backoff_def split: sum.splits)

lemma run_loop_machine:
  assumes "run_loop P os rts b s = (Some r, s', smps, ds)" and "list_all undisturbed_run rts" and "\<not> c_stopping s"
    and "m_backoff m = b"
  shows "(\<exists>b'. gets P os (goto AtHead s m) (run_pc r) s' smps ds b') \<and> \<not> c_stopping s'"
  using assms
proof (induction rts arbitrary: b s smps ds m)
  case (Cons rt rts)
  define a where "a = (undefined :: answers)\<lparr>an_run := rt\<rparr>"
  let ?m = "goto AtHead s m"
  show ?case
  proof (cases "rt_stop_loop rt \<or> impl_faulted s")
    case True
    then have "worker_step P os a ?m = Some (goto AtFinish s ?m)" by (auto simp: worker_step_def a_def)
    from gets_goto [OF this] show ?thesis using Cons.prems True by auto
  next
    case False
    have 1: "worker_step P os a ?m = Some (goto AtStart s ?m)" using False Cons.prems(3) by (simp add: worker_step_def a_def)
    obtain q s1 x where q: "receive_session P os (rt_session rt) s = (Some q, s1, x)"
      using Cons.prems(1) False by (cases "receive_session P os (rt_session rt) s") (auto split: option.splits)
    have g: "gets P os ?m (end_pc q) s1 x [] b" and st: "\<not> c_stopping s1"
      using session_machine [OF q _ Cons.prems(3), of m] gets_quiet [OF 1] Cons.prems(2,4) by (simp_all add: undisturbed_run_def)
    show ?thesis
    proof (cases q)
      case (Inl e)
      then show ?thesis using g st Cons.prems(1) q False by auto
    next
      case (Inr out)
      define s2 b1 n where "s2 = fst (close_session os s1)" and "b1 = session_backoff out b s2"
        and "n = moved (AtClose out) s1 x [] b ?m"
      note loop = run_loop_Cons [OF q [unfolded Inr] False s2_def b1_def, of rts]
      have n: "goto (AtClose out) s1 n = n" "m_backoff n = b" by (simp_all add: n_def moved_def goto_def)
      have go: "gets P os ?m pc s3 (x @ y) ds' b'" if "gets P os n pc s3 y ds' b'" for pc s3 y ds' b'
        using gets_trans [of P os ?m "AtClose out" s1 x "[]" b] g that Inr by (simp add: n_def)
      have fin: ?thesis if "worker_step P os a (goto (AtOutcome out) s2 n) = Some (goto (run_pc r) s' n)"
        "\<not> c_stopping s'" "smps = x" "ds = []"
        using go [of "run_pc r" s' "[]"] outcome_machine [OF s2_def that(1)] that(2-4) n by auto
      consider "\<not> run_continues rt out s2" | e where "run_continues rt out s2" "checked_deadline P (rt_now rt) b1 = Inl e"
        | d where "run_continues rt out s2" "checked_deadline P (rt_now rt) b1 = Inr d"
        by (cases "checked_deadline P (rt_now rt) b1") blast+
      then show ?thesis
      proof cases
        case 1
        then show ?thesis
          using Cons.prems(1) loop st s2_def
          by (intro fin) (auto simp: worker_step_def a_def run_continues_def split: if_splits)
      next
        case 2
        then show ?thesis
          using Cons.prems(1) loop st s2_def n(2) b1_def
          by (intro fin) (auto simp: worker_step_def a_def Let_def run_continues_def session_backoff_def split: if_splits)
      next
        case 3
        define s3 b2 where "s3 = enter_backoff (outcome_message out) s2" and "b2 = next_backoff (rounding_mode P) (c_config s2) b1"
        obtain smps' ds' where l: "run_loop P os rts b2 s3 = (Some r, s', smps', ds')" "smps = x @ smps'" "ds = b1 # ds'"
          using Cons.prems(1) loop 3 by (auto simp: run_continues_def s3_def b2_def split: if_splits prod.splits)
        have "gets P os n AtHead s3 [] [b1] b2"
          using delay_machine [OF s2_def st 3(1) _ 3(2), of n] n b1_def by (simp add: s3_def b2_def)
        moreover have "\<exists>b'. gets P os (goto AtHead s3 (moved AtHead s3 [] [b1] b2 n)) (run_pc r) s' smps' ds' b'" "\<not> c_stopping s'"
          using Cons.IH [OF l(1), of "moved AtHead s3 [] [b1] b2 n"] Cons.prems(2) st s2_def s3_def by (auto simp: moved_def)
        moreover have "goto AtHead s3 (moved AtHead s3 [] [b1] b2 n) = moved AtHead s3 [] [b1] b2 n" by (simp add: moved_def goto_def)
        ultimately show ?thesis
          using gets_trans [of P os n AtHead s3 "[]" "[b1]" b2 "run_pc r" s' smps' ds'] go l(2,3) by fastforce
      qed
    qed
  qed
qed simp

section \<open>The simulation\<close>

text \<open>
  The two descriptions of the worker agree. Every run of the worker as \<open>Client_Session\<close> describes
  it, with all its answers and all its reads of the flag, is a run of the machine from its beginning to
  its end, with the same final state, the same samples handed to the callback and the same delays; it
  starts with the flag clear, and the turns are undisturbed.
\<close>

lemma machine_makes_run:
  assumes "run P os io s = (Some s', smps, delays)" and "list_all undisturbed_run (ri_turns io)" and "\<not> c_stopping s"
  shows "\<exists>as m. run_steps (worker_step P os) as (machine_of s) = Some m \<and> m_pc m = AtEnd \<and> m_impl m = s' \<and>
    m_samples m = smps \<and> m_delays m = delays"
proof -
  obtain r s1 where l: "run_loop P os (ri_turns io) (reconnect_initial_delay (c_config s)) s = (Some r, s1, smps, delays)"
    using assms(1) by (auto simp: run_def split: prod.splits option.splits)
  have m: "goto AtHead s (machine_of s) = machine_of s" "m_backoff (machine_of s) = reconnect_initial_delay (c_config s)"
    by (simp_all add: goto_def machine_of_def)
  obtain b where g: "gets P os (machine_of s) (run_pc r) s1 smps delays b" and st: "\<not> c_stopping s1"
    using run_loop_machine [OF l assms(2,3) m(2)] m(1) by auto
  define c f where "c = (undefined :: answers)\<lparr>an_stop_catch := ri_stop_catch io, an_lock_ok := ri_catch_lock_ok io\<rparr>"
    and "f = (undefined :: answers)\<lparr>an_lock_ok := ri_finish_lock_ok io\<rparr>"
  let ?m = "moved (run_pc r) s1 smps delays b (machine_of s)"
  have "\<exists>as. run_steps (worker_step P os) as ?m = Some (goto AtEnd s' ?m)"
  proof (cases r)
    case (Inl e)
    then have "run_steps (worker_step P os) [c, f] ?m = Some (goto AtEnd s' ?m)"
      using assms(1) l st by (auto simp: run_def worker_step_def moved_def goto_def c_def f_def Let_def)
    then show ?thesis by blast
  next
    case (Inr u)
    then have "run_steps (worker_step P os) [f] ?m = Some (goto AtEnd s' ?m)"
      using assms(1) l by (auto simp: run_def worker_step_def moved_def goto_def f_def Let_def)
    then show ?thesis by blast
  qed
  then obtain bs where bs: "run_steps (worker_step P os) bs ?m = Some (goto AtEnd s' ?m)" by blast
  obtain as where "run_steps (worker_step P os) as (machine_of s) = Some ?m" using g by (auto simp: gets_def moved_def)
  then have "run_steps (worker_step P os) (as @ bs) (machine_of s) = Some (goto AtEnd s' ?m)" using bs by (simp add: run_steps_append)
  then show ?thesis by (intro exI [of _ "as @ bs"] exI [of _ "goto AtEnd s' ?m"]) (simp add: moved_def machine_of_def)
qed

end
