(* ===== verification/Client_System.thy ===== *)
theory Client_System
  imports Worker_Machine
begin

text \<open>
  The whole client (\<open>core/src/detail/client_impl.cpp\<close> with \<open>core/src/client.cpp\<close>): the critical sections of
  \<open>start\<close> and \<open>stop\<close> from \<open>Client_Lifecycle\<close>, the commands and snapshots of \<open>Client_Impl\<close> and the worker of
  \<open>Worker_Machine\<close> as one transition system, in which the calls of any number of threads fall between
  any two steps of the worker, and also into its callback. The invariant joins that of the lifecycle with
  the worker's program point, the latched fault and the socket. It shows that the client is safe as a
  whole, and that a \<open>stop\<close> that has begun to join the worker comes to its end.
\<close>

section \<open>Calls of other threads\<close>

text \<open>
  The calls that change the state, as any thread makes them, the worker's callback among them. Of \<open>start\<close> and
  \<open>stop\<close> it is one section; a thread that is told to wait comes again.
\<close>

datatype client_call =
    CallStart nat "nat option" "exn + nat" bool
  | CallStop nat
  | CallBias send_outcome send_outcome
  | CallHealth time_point

fun make_call :: "platform \<Rightarrow> os \<Rightarrow> client_call \<Rightarrow> impl \<Rightarrow> impl" where
  "make_call P os (CallStart self callback created lock_ok) s = snd (start_section self callback created lock_ok s)"
| "make_call P os (CallStop self) s = snd (stop_section os self s)"
| "make_call P os (CallBias r1 r2) s = fst (snd (bias os r1 r2 s))"
| "make_call P os (CallHealth now) s = snd (impl_health P now s)"

section \<open>The system\<close>

text \<open>The threads of the client with the point the worker has reached and its next delay.\<close>

record system =
  y_life :: lifecycle
  y_pc :: worker_pc
  y_backoff :: fl

text \<open>
  The steps: a section of \<open>start\<close> or \<open>stop\<close> by a thread, the end of a join, a command, a snapshot, a step of a
  worker with the answers it gets and the calls made while its callback runs, and the end of its thread.
\<close>

datatype system_action =
    Start nat "nat option" "exn + nat" bool
  | Stop nat
  | JoinEnds
  | Bias send_outcome send_outcome
  | Snapshot time_point
  | Work nat answers "client_call list"
  | ThreadEnds nat

definition with_calls :: "platform \<Rightarrow> os \<Rightarrow> client_call list \<Rightarrow> answers \<Rightarrow> answers" where
  "with_calls P os cs a =
     a\<lparr>an_turn := (an_turn a)\<lparr>t_callback := (t_callback (an_turn a))\<lparr>cb_interference := fold (make_call P os) cs\<rparr>\<rparr>\<rparr>"

definition worker_at :: "system \<Rightarrow> machine" where
  "worker_at y = \<lparr>m_impl = l_impl (y_life y), m_pc = y_pc y, m_backoff = y_backoff y, m_samples = [], m_delays = [],
     m_stop = (if c_stopping (l_impl (y_life y)) then AfterRequest else BeforeStop)\<rparr>"

text \<open>
  The threads after a step of the worker \<open>w\<close>. A join that began in its callback is that of a \<open>stop\<close>, since
  \<open>start\<close> does not take over a worker that runs; a delivery shows in its counter.
\<close>

definition after_work :: "nat \<Rightarrow> impl \<Rightarrow> lifecycle \<Rightarrow> lifecycle" where
  "after_work w s l =
     l\<lparr>l_impl := s,
       l_join := (if c_joining s \<and> \<not> c_joining (l_impl l) then Some (w, ByStop) else l_join l),
       l_delivered := (l_delivered l \<or> h_delivered_count (c_health s) \<noteq> h_delivered_count (c_health (l_impl l)))\<rparr>"

text \<open>A new thread begins at the loop condition of \<open>run\<close>, with the initial delay.\<close>

definition create_worker_thread :: "lifecycle \<Rightarrow> system" where
  "create_worker_thread l = \<lparr>y_life = l, y_pc = AtHead, y_backoff = reconnect_initial_delay (c_config (l_impl l))\<rparr>"

text \<open>A step that is not possible is \<open>None\<close>. The operating system does not hand out a descriptor that is open.\<close>

definition system_step :: "platform \<Rightarrow> os \<Rightarrow> system_action \<Rightarrow> system \<Rightarrow> system option" where
  "system_step P os act y =
     (let l = y_life y; s = l_impl l in
      case act of
        Start self callback created lock_ok \<Rightarrow>
          (case lifecycle_step (DoStart self callback created lock_ok) l of
             None \<Rightarrow> None
           | Some l' \<Rightarrow>
               Some (if fst (start_section self callback created lock_ok s) = StartReturns
                     then create_worker_thread l' else y\<lparr>y_life := l'\<rparr>))
      | Stop self \<Rightarrow> map_option (\<lambda>l'. y\<lparr>y_life := l'\<rparr>) (lifecycle_step (DoStop os self) l)
      | JoinEnds \<Rightarrow> map_option (\<lambda>l'. y\<lparr>y_life := l'\<rparr>) (lifecycle_step Joined l)
      | Bias r1 r2 \<Rightarrow> Some (y\<lparr>y_life := l\<lparr>l_impl := make_call P os (CallBias r1 r2) s\<rparr>\<rparr>)
      | Snapshot now \<Rightarrow> Some (y\<lparr>y_life := l\<lparr>l_impl := make_call P os (CallHealth now) s\<rparr>\<rparr>)
      | Work w a cs \<Rightarrow>
          if w \<in> set (l_live l) \<and> \<not> c_worker_exited s \<and>
             (y_pc y = AtConnect \<longrightarrow> fresh (si_resolution (rt_session (an_run a))) (c_transport s))
          then (case worker_step P os (with_calls P os cs a) (worker_at y) of
                  None \<Rightarrow> None
                | Some m \<Rightarrow> Some \<lparr>y_life = after_work w (m_impl m) l, y_pc = m_pc m, y_backoff = m_backoff m\<rparr>)
          else None
      | ThreadEnds w \<Rightarrow> map_option (\<lambda>l'. y\<lparr>y_life := l'\<rparr>) (lifecycle_step (Exit w) l))"

text \<open>A client that has just been constructed.\<close>

definition system_of :: "impl \<Rightarrow> system" where
  "system_of s = \<lparr>y_life = \<lparr>l_impl = s, l_live = [], l_join = None, l_delivered = False\<rparr>, y_pc = AtEnd, y_backoff = Fin 0\<rparr>"

definition system_init :: "system \<Rightarrow> bool" where
  "system_init y \<longleftrightarrow> lifecycle_init (y_life y) \<and> c_transport (l_impl (y_life y)) = udp_init \<and>
     \<not> c_session_started (l_impl (y_life y))"

lemma impl_new_system: "impl_new P clock cfg once_result = Inr s \<Longrightarrow> system_init (system_of s)"
  using impl_new_init [of P clock cfg once_result s]
  by (auto simp: system_init_def system_of_def impl_new_def res_bind_Inr_iff)

section \<open>What a call leaves alone while the worker runs\<close>

text \<open>The worker \<open>w\<close> runs, owned by the client or by the thread that joins it.\<close>

definition runs :: "nat \<Rightarrow> impl \<Rightarrow> bool" where
  "runs w s \<longleftrightarrow> \<not> c_worker_exited s \<and> c_active_worker_id s = Some w \<and>
     c_worker s = (if c_joining s then None else Some w)"

text \<open>Meanwhile the worker may pass to a thread that stops the client, and nothing else happens to it.\<close>

definition handed :: "impl \<Rightarrow> impl \<Rightarrow> bool" where
  "handed s s' \<longleftrightarrow> c_joining s' = c_joining s \<and> c_worker s' = c_worker s \<or>
     \<not> c_joining s \<and> c_joining s' \<and> c_worker s' = None \<and> c_stopping s'"

text \<open>A stop sets the flag together with the request.\<close>

definition stop_made :: "impl \<Rightarrow> impl \<Rightarrow> bool" where
  "stop_made s s' \<longleftrightarrow> (c_session_started s' \<longrightarrow> c_session_started s) \<and>
     (c_stopping s' \<and> \<not> c_stopping s \<longrightarrow> shutdown_requested (c_transport s') \<and> \<not> c_session_started s')"

text \<open>What the calls and the worker's own work on a record leave alone; \<open>d\<close>: a sample was delivered.\<close>

definition kept :: "bool \<Rightarrow> impl \<Rightarrow> impl \<Rightarrow> bool" where
  "kept d s s' \<longleftrightarrow>
     c_worker_exited s' = c_worker_exited s \<and> c_active_worker_id s' = c_active_worker_id s \<and>
     c_generation s' = c_generation s \<and> c_fault_latch s' = c_fault_latch s \<and> calmly s s' \<and>
     (no_leak (c_transport s) \<longrightarrow> no_leak (c_transport s')) \<and> stop_made s s' \<and> handed s s' \<and>
     (if d then c_delivered_generation s' = c_generation s' \<and>
             h_delivered_count (c_health s') = h_delivered_count (c_health s) + 1
      else c_delivered_generation s' = c_delivered_generation s \<and>
           h_delivered_count (c_health s') = h_delivered_count (c_health s))"

lemmas kept_defs = kept_def calmly_def stop_made_def handed_def

lemma kept_refl [simp]: "kept False s s" by (simp add: kept_defs)

lemma kept_trans:
  assumes "kept False s s'" and "kept d s' s''"
  shows "kept d s s''"
proof -
  have c: "calmly s s'" "calmly s' s''" using assms by (simp_all add: kept_def)
  then have "calmly s s''" by (rule calmly_trans)
  moreover have "handed s s''" using assms c by (auto simp: kept_def handed_def calmly_def)
  moreover have "stop_made s s''" using assms c by (auto simp: kept_def stop_made_def calmly_def)
  ultimately show ?thesis using assms by (cases d) (simp_all add: kept_def)
qed

lemma transport_shutdown_props [simp]:
  "shutdown_requested (transport_shutdown os c)" "socket (transport_shutdown os c) = socket c"
  "no_leak (transport_shutdown os c) = no_leak c"
  by (cases os; simp add: posix_shutdown_def win_shutdown_def no_leak_def)+

lemma make_call_kept:
  assumes "runs w s"
  shows "kept False s (make_call P os c s) \<and> runs w (make_call P os c s)"
proof (cases c)
  case (CallStart self callback created lock_ok)
  then have "make_call P os c s = s"
    using assms by (auto simp: runs_def start_section_def split: if_splits)
  then show ?thesis using assms by simp
next
  case (CallStop self)
  then show ?thesis
    using assms by (auto simp: runs_def kept_defs stop_section_def request_stop_def Let_def)
next
  case (CallBias r1 r2)
  then show ?thesis
    using assms by (auto simp: runs_def kept_defs bias_def split: sum.splits)
next
  case (CallHealth now)
  then show ?thesis
    using assms by (auto simp: runs_def kept_defs impl_health_def Let_def)
qed

lemma calls_kept:
  "runs w s \<Longrightarrow> kept False s (fold (make_call P os) cs s) \<and> runs w (fold (make_call P os) cs s)"
proof (induction cs arbitrary: s)
  case (Cons c cs)
  then show ?case using make_call_kept [of w s P os c] kept_trans by (simp, blast)
qed simp

lemma record_ops_kept:
  "kept False s (snd (observe_record P rec tm s))" "kept True s (record_delivery P smp s)"
  "kept False s (record_callback_error b1 b2 msg s)" "kept False s (s\<lparr>c_consecutive_malformed := n\<rparr>)"
  "kept False s (snd (count_timeout b v s))" "kept False s (snd (count_malformed s))"
  by (auto simp: kept_defs observe_record_def record_delivery_def record_callback_error_def count_timeout_def
      count_malformed_def health_simps Let_def split: prod.splits option.splits if_splits)

lemma handle_record_kept:
  assumes "runs w s" and "cb_interference cb = fold (make_call P os) cs"
  shows "\<exists>d. kept d s (fst (snd (handle_record P cb rec tm s)))"
proof -
  obtain q s1 where o: "observe_record P rec tm s = (q, s1)" by fastforce
  have k: "kept False s s1" using record_ops_kept(1) [of s P rec tm] o by simp
  then have "runs w s1" using assms(1) by (auto simp: kept_defs runs_def)
  then have i: "kept False s (cb_interference cb s1)"
    using calls_kept [of w s1 P os cs] kept_trans [OF k] assms(2) by simp
  have d: "kept True s (record_delivery P smp s2)" "kept False s (record_callback_error b1 b2 msg s2)"
    if "kept False s s2" for smp b1 b2 msg s2
    using that kept_trans record_ops_kept by blast+
  show ?thesis
    using k d [OF k] d [OF i]
    by (fastforce simp: handle_record_def o Let_def split: sum.splits option.splits prod.splits)
qed

lemma after_receive_kept:
  assumes "runs w s" and "cb_interference (t_callback t) = fold (make_call P os) cs"
    and "after_receive P t deadline valid received s = (r, s', smp)"
  shows "\<exists>d. kept d s s'"
proof -
  have k: "kept False s (s\<lparr>c_consecutive_malformed := 0\<rparr>)" by (rule record_ops_kept)
  have "runs w (s\<lparr>c_consecutive_malformed := 0\<rparr>)" using assms(1) by (simp add: runs_def)
  then have h: "\<exists>d. kept d s s2"
    if "handle_record P (t_callback t) rec tm (s\<lparr>c_consecutive_malformed := 0\<rparr>) = (q, s2, z)" for rec tm q s2 z
    using handle_record_kept [OF _ assms(2), of w "s\<lparr>c_consecutive_malformed := 0\<rparr>" rec tm] that kept_trans [OF k]
    by (metis fst_conv snd_conv)
  have c: "kept False s s2" if "count_timeout b v s = (q, s2)" for b v q s2
    using record_ops_kept(5) [of s b v] that by simp
  have m: "kept False s s2" if "count_malformed s = (q, s2)" for q s2 using record_ops_kept(6) [of s] that by simp
  have e: "\<exists>d. kept d x x" for x by (rule exI [of _ False]) simp
  show ?thesis
    using assms(3) k
    by (auto simp: after_receive_def Let_def split: sum.splits if_splits option.splits prod.splits
        intro: e dest: c m h)
qed

section \<open>The invariant\<close>

text \<open>The points at which the worker has no socket.\<close>

fun outside_session :: "worker_pc \<Rightarrow> bool" where
  "outside_session AtHead = True"
| "outside_session AtStart = True"
| "outside_session AtDiscovery = True"
| "outside_session AtConfigured = True"
| "outside_session AtConnect = True"
| "outside_session (AtOutcome out) = True"
| "outside_session (AtDelay b) = True"
| "outside_session _ = False"

text \<open>
  The connection at a program point: an open session has a socket, and no open session survives a stop
  request; a session that was asked to stop is shut down.
\<close>

definition link_inv :: "worker_pc \<Rightarrow> impl \<Rightarrow> bool" where
  "link_inv pc s \<longleftrightarrow>
     (pc = AtCommand \<or> in_session pc \<or> c_session_started s \<longrightarrow> socket (c_transport s) \<noteq> None) \<and>
     (c_session_started s \<longrightarrow> \<not> c_stopping s) \<and>
     (in_session pc \<and> c_stopping s \<longrightarrow> shutdown_requested (c_transport s)) \<and>
     (outside_session pc \<longrightarrow> socket (c_transport s) = None)"

text \<open>A worker that runs. Once it has latched a fault it only finishes.\<close>

definition worker_inv :: "worker_pc \<Rightarrow> impl \<Rightarrow> bool" where
  "worker_inv pc s \<longleftrightarrow> pc \<noteq> AtEnd \<and> (impl_faulted s \<longrightarrow> pc = AtFinish) \<and> link_inv pc s"

definition system_inv :: "system \<Rightarrow> bool" where
  "system_inv y \<longleftrightarrow> (let l = y_life y; s = l_impl l in
     lifecycle_inv l \<and> no_leak (c_transport s) \<and>
     (\<forall>w. l_join l = Some (w, ByStop) \<longrightarrow> c_stopping s) \<and>
     (if c_worker_exited s then socket (c_transport s) = None \<and> \<not> c_session_started s else worker_inv (y_pc y) s))"

lemma inv_runs:
  assumes "lifecycle_inv l" and "\<not> c_worker_exited (l_impl l)" and "w \<in> set (l_live l)"
  shows "runs w (l_impl l)"
  using assms by (auto simp: lifecycle_inv_def owner_inv_def runs_def split: option.splits)

lemma worker_inv_kept:
  assumes "worker_inv pc s" and "kept d s s'" and "pc \<noteq> AtFinish"
    and "in_session pc' \<longrightarrow> in_session pc" and "pc' \<noteq> AtCommand" and "outside_session pc' \<longrightarrow> outside_session pc"
    and "pc' \<noteq> AtEnd"
  shows "worker_inv pc' s'"
  using assms by (auto simp: worker_inv_def link_inv_def kept_defs impl_faulted_def)

section \<open>The worker's steps\<close>

text \<open>What the worker's other steps leave alone.\<close>

definition steady :: "impl \<Rightarrow> impl \<Rightarrow> bool" where
  "steady s s' \<longleftrightarrow> same_owner s s' \<and> c_delivered_generation s' = c_delivered_generation s \<and>
     h_delivered_count (c_health s') = h_delivered_count (c_health s)"

lemma configuration_steady:
  "steady s (snd (configuration_for_session P calls http s))" "steady s' (apply_configuration sc s) = steady s' s"
  by (auto simp: steady_def same_owner_def configuration_for_session_def apply_configuration_def Let_def
      split: option.splits prod.splits)

lemma worker_ops_steady:
  "steady s (fst (close_session os s))" "steady s (set_fault b c msg s)" "steady s (enter_backoff msg s)"
  "steady s (finish_session os b s)" "steady s (snd (count_timeout b v s))"
  by (auto simp: steady_def same_owner_def close_session_def set_fault_def enter_backoff_def finish_session_def
      count_timeout_def publish_def Let_def split: prod.splits)

lemma worker_step_steady:
  assumes "worker_step P os a m = Some m'" and "\<forall>d n v. m_pc m \<noteq> AtWait d n v"
  shows "steady (m_impl m) (m_impl m')"
proof -
  have d: "steady s s1" if "configuration_for_session P calls http s = (q, s1)" for calls http s q s1
    using configuration_steady(1) [of s P calls http] that by simp
  have c: "steady s s1" if "count_timeout b v s = (q, s1)" for b v s q s1
    using worker_ops_steady(5) [of s b v] that by simp
  have "steady s s" "steady s (s\<lparr>c_transport := x\<rparr>)" "steady s (s\<lparr>c_session_started := b\<rparr>)"
    "steady s (s\<lparr>c_health := (c_health s)\<lparr>h_state := st\<rparr>\<rparr>)" "steady s (s\<lparr>c_rdt_sequence := r, c_ft_sequence := f\<rparr>)"
    for s x b st r f by (simp_all add: steady_def same_owner_def)
  then show ?thesis
    using assms
    by (cases "m_pc m") (auto simp: worker_step_def Let_def worker_ops_steady configuration_steady(2)
      split: option.splits prod.splits sum.splits exn.splits if_splits dest: c d)
qed

lemma configuration_faulted:
  "impl_faulted (snd (configuration_for_session P calls http s)) = impl_faulted s"
  "impl_faulted (apply_configuration sc s) = impl_faulted s"
  by (auto simp: impl_faulted_def configuration_for_session_def apply_configuration_def Let_def
      split: option.splits prod.splits)

lemma worker_step_shown:
  assumes "worker_step P os a m = Some m'" and "\<forall>d n v. m_pc m \<noteq> AtWait d n v" and "fault_shown_in (m_impl m)"
    and "impl_faulted (m_impl m) \<longrightarrow> m_pc m = AtFinish"
  shows "fault_shown_in (m_impl m') \<and> (impl_faulted (m_impl m') \<longrightarrow> m_pc m' = AtFinish \<or> m_pc m' = AtEnd)"
proof -
  have d: "impl_faulted s1 = impl_faulted s" if "configuration_for_session P calls http s = (q, s1)" for calls http s q s1
    using configuration_faulted(1) [of P calls http s] that by simp
  have u: "fault_shown_in s" if "\<not> impl_faulted s" for s using that by (simp add: fault_shown_in_def)
  have f: "impl_faulted (s\<lparr>c_transport := x\<rparr>) = impl_faulted s" "impl_faulted (s\<lparr>c_session_started := b\<rparr>) = impl_faulted s"
    "impl_faulted (s\<lparr>c_health := h\<rparr>) = impl_faulted s"
    "impl_faulted (s\<lparr>c_rdt_sequence := r, c_ft_sequence := t\<rparr>) = impl_faulted s"
    "impl_faulted (fst (close_session os s)) = impl_faulted s" "impl_faulted (enter_backoff msg s) = impl_faulted s"
    "impl_faulted (snd (count_timeout b v s)) = impl_faulted s"
    for s x b h r t os msg v by (simp_all add: impl_faulted_def close_session_def enter_backoff_def count_timeout_def)
  have c: "impl_faulted s1 = impl_faulted s" if "count_timeout b v s = (q, s1)" for b v s q s1
    using f(7) [of b v s] that by simp
  show ?thesis
    using assms(1,2,4)
    by (cases "m_pc m") (auto simp: worker_step_def Let_def configuration_faulted(2) f u
      worker_ops_fault_shown assms(3)
      split: option.splits prod.splits sum.splits exn.splits if_splits dest: c d)
qed

text \<open>The connection, point by point.\<close>

definition same_link :: "impl \<Rightarrow> impl \<Rightarrow> bool" where
  "same_link s s' \<longleftrightarrow> c_transport s' = c_transport s \<and> c_session_started s' = c_session_started s \<and>
     c_stopping s' = c_stopping s"

lemma ops_same_link:
  "same_link s (snd (configuration_for_session P calls http s))" "same_link s' (apply_configuration sc s) = same_link s' s"
  "same_link s (set_fault b c msg s)" "same_link s (enter_backoff msg s)" "same_link s (snd (count_timeout b v s))"
  "same_link s (s\<lparr>c_health := h\<rparr>)" "same_link s (s\<lparr>c_rdt_sequence := r, c_ft_sequence := t\<rparr>)" "same_link s s"
  by (auto simp: same_link_def configuration_for_session_def apply_configuration_def set_fault_def enter_backoff_def
      count_timeout_def publish_def Let_def split: option.splits prod.splits)

lemma link_inv_same:
  assumes "link_inv pc s" and "same_link s s'" and "pc' = AtCommand \<or> in_session pc' \<longrightarrow> in_session pc"
    and "outside_session pc' \<longrightarrow> outside_session pc"
  shows "link_inv pc' s'"
  using assms by (auto simp: link_inv_def same_link_def)

lemma outside_failed [simp]: "\<not> outside_session (connection_failed b e)"
  by (simp add: connection_failed_def)

lemma transport_connect_failed: "transport_connect os r c = (Inl e, c') \<Longrightarrow> socket c' = socket c"
  by (cases os) (auto dest: connect_results)

lemma worker_step_link:
  assumes "worker_step P os a m = Some m'" and "\<forall>d n v. m_pc m \<noteq> AtWait d n v" and "link_inv (m_pc m) (m_impl m)"
    and "m_pc m \<noteq> AtFinish"
  shows "link_inv (m_pc m') (m_impl m') \<and> m_pc m' \<noteq> AtEnd"
proof -
  have d: "same_link s s1" if "configuration_for_session P calls http s = (q, s1)" for calls http s q s1
    using ops_same_link(1) [of s P calls http] that by simp
  have c: "same_link s s1" if "count_timeout b v s = (q, s1)" for b v s q s1 using ops_same_link(5) [of s b v] that by simp
  have k: "connection_failed b e \<noteq> AtEnd" for b e by (simp add: connection_failed_def)
  show ?thesis
  proof (cases "m_pc m")
    case AtConnect
    then show ?thesis
      using assms transport_connect_ok [of os "si_resolution (rt_session (an_run a))" "c_transport (m_impl m)"]
        transport_connect_failed [of os "si_resolution (rt_session (an_run a))" "c_transport (m_impl m)"]
      by (auto simp: worker_step_def Let_def link_inv_def k split: prod.splits sum.splits)
  next
    case AtCommand
    then show ?thesis
      using assms by (auto simp: worker_step_def Let_def link_inv_def k split: if_splits sum.splits)
  next
    case (AtClose out)
    then show ?thesis
      using assms by (auto simp: worker_step_def Let_def link_inv_def close_session_props)
  next
    case (AtOutcome out)
    have "same_link (m_impl m) (m_impl m')" "\<not> in_session (m_pc m')" "m_pc m' \<noteq> AtCommand" "m_pc m' \<noteq> AtEnd"
      using assms AtOutcome by (auto simp: worker_step_def Let_def ops_same_link split: if_splits sum.splits)
    then show ?thesis using link_inv_same [OF assms(3)] AtOutcome by simp
  next
    case AtReady
    then show ?thesis
      using assms by (auto simp: worker_step_def Let_def link_inv_def split: sum.splits)
  next
    case (AtLoop deadline valid)
    then show ?thesis
      using assms by (auto simp: worker_step_def Let_def ops_same_link split: if_splits prod.splits
          intro!: link_inv_same [OF assms(3)] dest: c)
  qed (use assms in \<open>auto simp: worker_step_def Let_def ops_same_link
      split: if_splits sum.splits prod.splits option.splits exn.splits intro!: link_inv_same [OF assms(3)] dest: d c\<close>)
qed

lemma transport_no_leak:
  "no_leak c \<Longrightarrow> fresh r c \<Longrightarrow> no_leak (snd (transport_connect os r c))" "no_leak c \<Longrightarrow> no_leak (transport_close os c)"
  by (cases os; simp add: posix_connect_no_leak win_connect_no_leak close_results)+

lemma worker_step_no_leak:
  assumes "worker_step P os a m = Some m'" and "\<forall>d n v. m_pc m \<noteq> AtWait d n v" and "no_leak (c_transport (m_impl m))"
    and "m_pc m = AtConnect \<longrightarrow> fresh (si_resolution (rt_session (an_run a))) (c_transport (m_impl m))"
  shows "no_leak (c_transport (m_impl m'))"
proof -
  have d: "c_transport s1 = c_transport s" if "configuration_for_session P calls http s = (q, s1)" for calls http s q s1
    using ops_same_link(1) [of s P calls http] that by (simp add: same_link_def)
  have c: "c_transport s1 = c_transport s" if "count_timeout b v s = (q, s1)" for b v s q s1
    using ops_same_link(5) [of s b v] that by (simp add: same_link_def)
  have f: "c_transport (apply_configuration sc s) = c_transport s" "c_transport (set_fault b k msg s) = c_transport s"
    "c_transport (enter_backoff msg s) = c_transport s" for sc s b k msg
    using ops_same_link(2) [of s sc s] ops_same_link(3) [of s b k msg] ops_same_link(4) [of s msg] ops_same_link(8) [of s]
    by (simp_all add: same_link_def)
  have q: "no_leak (c_transport (finish_session os b s))" "no_leak (c_transport (fst (close_session os s)))"
    if "no_leak (c_transport s)" for b s
    using that transport_no_leak(2) by (simp_all add: finish_session_def close_session_def Let_def)
  show ?thesis
  proof (cases "m_pc m")
    case AtConnect
    then show ?thesis
      using assms transport_no_leak(1) [OF assms(3), of "si_resolution (rt_session (an_run a))" os]
      by (auto simp: worker_step_def Let_def split: prod.splits sum.splits)
  qed (use assms q in \<open>auto simp: worker_step_def Let_def f
      split: if_splits sum.splits prod.splits option.splits exn.splits dest: c d\<close>)
qed

lemma worker_step_flags:
  assumes "worker_step P os a m = Some m'" and "\<forall>d n v. m_pc m \<noteq> AtWait d n v"
  shows "c_stopping (m_impl m') = c_stopping (m_impl m) \<and>
    c_worker_exited (m_impl m') = (c_worker_exited (m_impl m) \<or> m_pc m = AtFinish)"
proof -
  have x: "c_worker_exited (snd (configuration_for_session P calls http s)) = c_worker_exited s"
    "c_worker_exited (apply_configuration sc s) = c_worker_exited s" "c_worker_exited (set_fault b c msg s) = c_worker_exited s"
    "c_worker_exited (enter_backoff msg s) = c_worker_exited s" "c_worker_exited (fst (close_session os s)) = c_worker_exited s"
    for calls http sc b c msg s
    by (auto simp: configuration_for_session_def apply_configuration_def set_fault_def enter_backoff_def close_session_def
        publish_def Let_def split: option.splits prod.splits)
  have d: "c_stopping s1 = c_stopping s \<and> c_worker_exited s1 = c_worker_exited s"
    if "configuration_for_session P calls http s = (q, s1)" for calls http s q s1
    using stopping_kept(6) [of P calls http s] x(1) [of calls http s] that by simp
  have c: "c_stopping s1 = c_stopping s \<and> c_worker_exited s1 = c_worker_exited s" if "count_timeout b v s = (q, s1)" for b v s q s1
    using that by (auto simp: count_timeout_def split: if_splits)
  show ?thesis
    using assms
    by (cases "m_pc m") (auto simp: worker_step_def Let_def x finish_session_props
      split: option.splits prod.splits sum.splits exn.splits if_splits dest: c d)
qed

lemma worker_step_finish:
  assumes "worker_step P os a m = Some m'" and "m_pc m = AtFinish"
  shows "m_pc m' = AtEnd \<and> c_worker_exited (m_impl m') \<and> \<not> c_session_started (m_impl m') \<and> socket (c_transport (m_impl m')) = None"
  using assms by (auto simp: worker_step_def Let_def finish_session_props)

section \<open>Every step keeps the invariant\<close>

lemma after_work_simps [simp]: "l_impl (after_work w s l) = s" "l_live (after_work w s l) = l_live l"
  by (simp_all add: after_work_def)

lemma after_work_lifecycle:
  assumes "lifecycle_inv l" and "\<not> c_worker_exited (l_impl l)" and "w \<in> set (l_live l)"
    and "c_active_worker_id s = Some w" and "c_generation s = c_generation (l_impl l)" and "handed (l_impl l) s"
    and "fault_shown_in s"
    and "c_delivered_generation s = c_delivered_generation (l_impl l) \<and>
           h_delivered_count (c_health s) = h_delivered_count (c_health (l_impl l)) \<or>
         c_delivered_generation s = c_generation s \<and>
           h_delivered_count (c_health s) \<noteq> h_delivered_count (c_health (l_impl l))"
  shows "lifecycle_inv (after_work w s l) \<and>
    ((\<forall>x. l_join l = Some (x, ByStop) \<longrightarrow> c_stopping s) \<longrightarrow>
     (\<forall>x. l_join (after_work w s l) = Some (x, ByStop) \<longrightarrow> c_stopping s))"
proof -
  have r: "runs w (l_impl l)" by (rule inv_runs [OF assms(1-3)])
  have j: "c_joining (l_impl l) = (l_join l \<noteq> None)" "set (l_live l) = {w}" "distinct (l_live l)"
    using assms(1-3) by (auto simp: lifecycle_inv_def owner_inv_def split: option.splits)
  have "c_generation s \<noteq> 0 \<longrightarrow> (c_delivered_generation s = c_generation s) = l_delivered (after_work w s l)"
    using assms(1,5,8) by (auto simp: lifecycle_inv_def after_work_def)
  moreover have "owner_inv (after_work w s l)"
    using assms(1,2,4,6) r j
    by (auto simp: lifecycle_inv_def owner_inv_def after_work_def handed_def runs_def split: option.splits)
  moreover have "c_joining s = (l_join (after_work w s l) \<noteq> None)"
    using assms(6) j(1) by (auto simp: after_work_def handed_def)
  ultimately have "lifecycle_inv (after_work w s l)"
    using j(2,3) assms(3,7) by (auto simp: lifecycle_inv_def)
  then show ?thesis using assms(6) by (auto simp: after_work_def handed_def)
qed

lemma system_invI:
  assumes "lifecycle_inv l" and "no_leak (c_transport (l_impl l))"
    and "\<forall>w. l_join l = Some (w, ByStop) \<longrightarrow> c_stopping (l_impl l)"
    and "c_worker_exited (l_impl l) \<Longrightarrow> socket (c_transport (l_impl l)) = None \<and> \<not> c_session_started (l_impl l)"
    and "\<not> c_worker_exited (l_impl l) \<Longrightarrow> worker_inv pc (l_impl l)"
  shows "system_inv \<lparr>y_life = l, y_pc = pc, y_backoff = b\<rparr>"
  using assms by (simp add: system_inv_def Let_def)

lemma inv_work_wait:
  assumes "system_inv y" and "y_pc y = AtWait deadline now valid" and "system_step P os (Work w a cs) y = Some y'"
  shows "system_inv y'"
proof -
  let ?l = "y_life y" and ?t = "reads_after (l_impl (y_life y)) (an_turn (with_calls P os cs a))"
  have w: "w \<in> set (l_live ?l)" "\<not> c_worker_exited (l_impl ?l)"
    using assms(3) by (auto simp: system_step_def Let_def split: if_splits)
  have i: "lifecycle_inv ?l" "no_leak (c_transport (l_impl ?l))" "worker_inv (y_pc y) (l_impl ?l)"
    "\<forall>x. l_join ?l = Some (x, ByStop) \<longrightarrow> c_stopping (l_impl ?l)"
    using assms(1) w(2) by (auto simp: system_inv_def Let_def)
  have r: "runs w (l_impl ?l)" by (rule inv_runs [OF i(1) w(2,1)])
  have cb: "cb_interference (t_callback ?t) = fold (make_call P os) cs" by (simp add: reads_after_def with_calls_def)
  obtain received q s1 smp pc b where s: "after_receive P ?t deadline valid received (l_impl ?l) = (q, s1, smp)"
    "y' = \<lparr>y_life = after_work w s1 ?l, y_pc = pc, y_backoff = b\<rparr>"
    "pc \<noteq> AtCommand" "pc \<noteq> AtEnd" "\<not> outside_session pc"
    using assms(2,3)
    by (auto simp: system_step_def worker_step_def worker_at_def Let_def
        split: if_splits option.splits prod.splits turn_result.splits)
  obtain d where k: "kept d (l_impl ?l) s1" using after_receive_kept [OF r cb s(1)] by blast
  have wi: "worker_inv pc s1" by (rule worker_inv_kept [OF i(3) k]) (use s assms(2) in simp_all)
  have "\<not> impl_faulted s1" using i(3) k assms(2) by (auto simp: worker_inv_def kept_def impl_faulted_def)
  then have f: "fault_shown_in s1" by (simp add: fault_shown_in_def)
  have o: "c_active_worker_id s1 = Some w" "c_generation s1 = c_generation (l_impl ?l)" "handed (l_impl ?l) s1"
    "c_delivered_generation s1 = c_delivered_generation (l_impl ?l) \<and>
       h_delivered_count (c_health s1) = h_delivered_count (c_health (l_impl ?l)) \<or>
     c_delivered_generation s1 = c_generation s1 \<and> h_delivered_count (c_health s1) \<noteq> h_delivered_count (c_health (l_impl ?l))"
    using k r by (cases d; simp add: kept_def runs_def)+
  have "\<forall>x. l_join ?l = Some (x, ByStop) \<longrightarrow> c_stopping s1" using i(4) k by (simp add: kept_def calmly_def)
  then have "lifecycle_inv (after_work w s1 ?l) \<and> (\<forall>x. l_join (after_work w s1 ?l) = Some (x, ByStop) \<longrightarrow> c_stopping s1)"
    using after_work_lifecycle [OF i(1) w(2,1) o(1-3) f o(4)] by blast
  then show ?thesis
    unfolding s(2) using wi k i(2) w(2) by (intro system_invI) (auto simp: after_work_def kept_def)
qed

lemma inv_work_other:
  assumes "system_inv y" and "\<forall>d n v. y_pc y \<noteq> AtWait d n v" and "system_step P os (Work w a cs) y = Some y'"
  shows "system_inv y'"
proof -
  let ?l = "y_life y" and ?m = "worker_at y"
  have w: "w \<in> set (l_live ?l)" "\<not> c_worker_exited (l_impl ?l)"
    "y_pc y = AtConnect \<longrightarrow> fresh (si_resolution (rt_session (an_run (with_calls P os cs a)))) (c_transport (l_impl ?l))"
    using assms(3) by (auto simp: system_step_def with_calls_def Let_def split: if_splits)
  have i: "lifecycle_inv ?l" "no_leak (c_transport (l_impl ?l))" "worker_inv (y_pc y) (l_impl ?l)"
    "\<forall>x. l_join ?l = Some (x, ByStop) \<longrightarrow> c_stopping (l_impl ?l)"
    using assms(1) w(2) by (auto simp: system_inv_def Let_def)
  have m: "m_impl ?m = l_impl ?l" "m_pc ?m = y_pc y" by (simp_all add: worker_at_def)
  obtain m' where s: "worker_step P os (with_calls P os cs a) ?m = Some m'"
    "y' = \<lparr>y_life = after_work w (m_impl m') ?l, y_pc = m_pc m', y_backoff = m_backoff m'\<rparr>"
    using assms(3) by (auto simp: system_step_def Let_def split: if_splits option.splits)
  have st: "steady (l_impl ?l) (m_impl m')" using worker_step_steady [OF s(1)] assms(2) m by simp
  have n: "no_leak (c_transport (m_impl m'))" using worker_step_no_leak [OF s(1)] assms(2) m i(2) w(3) by simp
  have f: "fault_shown_in (m_impl m')" "impl_faulted (m_impl m') \<longrightarrow> m_pc m' = AtFinish \<or> m_pc m' = AtEnd"
    using worker_step_shown [OF s(1)] assms(2) m i(3) inv_fault_shown [OF i(1)] by (auto simp: worker_inv_def)
  have g: "c_stopping (m_impl m') = c_stopping (l_impl ?l)" "c_worker_exited (m_impl m') = (y_pc y = AtFinish)"
    using worker_step_flags [OF s(1)] assms(2) m w(2) by auto
  have "c_active_worker_id (m_impl m') = Some w" "c_generation (m_impl m') = c_generation (l_impl ?l)"
    "handed (l_impl ?l) (m_impl m')"
    using st inv_runs [OF i(1) w(2,1)] by (auto simp: steady_def same_owner_def runs_def handed_def)
  then have "lifecycle_inv (after_work w (m_impl m') ?l) \<and>
      (\<forall>x. l_join (after_work w (m_impl m') ?l) = Some (x, ByStop) \<longrightarrow> c_stopping (m_impl m'))"
    using after_work_lifecycle [OF i(1) w(2,1) _ _ _ f(1)] st i(4) g(1) by (simp add: steady_def)
  moreover have "worker_inv (m_pc m') (m_impl m')" if "y_pc y \<noteq> AtFinish"
    using worker_step_link [OF s(1)] assms(2) m i(3) f(2) that by (auto simp: worker_inv_def)
  ultimately show ?thesis
    unfolding s(2) using n g(2) worker_step_finish [OF s(1)] m by (intro system_invI) auto
qed

lemma start_section_cases:
  assumes "start_section self cb created b s = (r, s')"
  shows "(\<exists>w. r = StartReturns \<and> c_worker s = None \<and> \<not> c_joining s \<and>
      s' = prepare_start cb s\<lparr>c_worker := Some w, c_active_worker_id := Some w\<rparr>) \<or>
    (\<exists>w. r = StartReaps w \<and> c_worker_exited s \<and> s' = s\<lparr>c_joining := True, c_worker := None\<rparr>) \<or>
    s' = s \<and> (r = StartWaits \<or> (\<exists>e. r = StartThrows e)) \<or>
    (\<exists>e. r = StartThrows e \<and> c_worker s = None \<and> \<not> c_joining s \<and> s' = roll_back b s (prepare_start cb s))"
  using assms by (cases created) (auto simp: start_section_def Let_def split: if_splits option.splits)

lemma inv_start_system:
  assumes "system_inv y" and "system_step P os (Start self cb created b) y = Some y'"
  shows "system_inv y'"
proof -
  let ?l = "y_life y" and ?s = "l_impl (y_life y)"
  obtain r s where st: "start_section self cb created b ?s = (r, s)" by fastforce
  obtain l' where l: "lifecycle_step (DoStart self cb created b) ?l = Some l'"
    using assms(2) by (auto simp: system_step_def Let_def split: option.splits)
  have i: "lifecycle_inv ?l" "no_leak (c_transport ?s)" "\<forall>x. l_join ?l = Some (x, ByStop) \<longrightarrow> c_stopping ?s"
    "c_worker_exited ?s \<Longrightarrow> socket (c_transport ?s) = None \<and> \<not> c_session_started ?s"
    "\<not> c_worker_exited ?s \<Longrightarrow> worker_inv (y_pc y) ?s"
    using assms(1) by (auto simp: system_inv_def Let_def)
  have i': "lifecycle_inv l'" by (rule lifecycle_step_inv [OF i(1) l])
  have idle: "c_worker_exited ?s \<and> l_join ?l = None" if "c_worker ?s = None" "\<not> c_joining ?s"
    using that i(1) by (auto simp: lifecycle_inv_def owner_inv_def split: option.splits)
  consider (new) w where "r = StartReturns" "c_worker ?s = None" "\<not> c_joining ?s"
      "s = prepare_start cb ?s\<lparr>c_worker := Some w, c_active_worker_id := Some w\<rparr>"
    | (reap) w where "r = StartReaps w" "c_worker_exited ?s" "s = ?s\<lparr>c_joining := True, c_worker := None\<rparr>"
    | (same) "s = ?s" "r = StartWaits \<or> (\<exists>e. r = StartThrows e)"
    | (undone) e where "r = StartThrows e" "c_worker ?s = None" "\<not> c_joining ?s" "s = roll_back b ?s (prepare_start cb ?s)"
    using start_section_cases [OF st] by blast
  then show ?thesis
  proof cases
    case new
    then have "l_impl l' = s" "l_join l' = None" "y' = \<lparr>y_life = l', y_pc = AtHead, y_backoff = reconnect_initial_delay (c_config s)\<rparr>"
      using l st assms(2) idle by (auto simp: system_step_def create_worker_thread_def Let_def split: if_splits)
    then show ?thesis
      using i' i(2,4) idle new prepare_start_frame [of cb ?s]
      by (auto intro!: system_invI simp: worker_inv_def link_inv_def prepare_start_def impl_faulted_def)
  next
    case reap
    then have "l' = ?l\<lparr>l_impl := s, l_join := Some (w, ByStart)\<rparr>" "y' = y\<lparr>y_life := l'\<rparr>"
      using l st assms(2) by (auto simp: system_step_def Let_def split: if_splits)
    then show ?thesis using i' i(2,4) reap by (simp add: system_inv_def Let_def)
  next
    case same
    then have "l' = ?l" "y' = y\<lparr>y_life := l'\<rparr>"
      using l st assms(2) by (auto simp: system_step_def Let_def split: if_splits)
    then show ?thesis using assms(1) by simp
  next
    case undone
    then have "l' = ?l\<lparr>l_impl := s\<rparr>" "y' = y\<lparr>y_life := l'\<rparr>"
      using l st assms(2) by (auto simp: system_step_def Let_def split: if_splits)
    moreover have "c_transport s = c_transport ?s" "c_session_started s = c_session_started ?s" "c_worker_exited s = c_worker_exited ?s"
      using undone(4) by (auto simp: roll_back_def prepare_start_def publish_def Let_def)
    ultimately show ?thesis using i' i(2,4) idle undone by (simp add: system_inv_def Let_def)
  qed
qed

lemma inv_stop_system:
  assumes "system_inv y" and "system_step P os (Stop self) y = Some y'"
  shows "system_inv y'"
proof -
  let ?l = "y_life y" and ?s = "l_impl (y_life y)"
  obtain l' where l: "lifecycle_step (DoStop os self) ?l = Some l'" "y' = y\<lparr>y_life := l'\<rparr>"
    using assms(2) by (auto simp: system_step_def Let_def)
  then have "l_impl l' = snd (stop_section os self ?s)" by (auto split: prod.splits stop_result.splits)
  then have s: "c_transport (l_impl l') = transport_shutdown os (c_transport ?s)" "\<not> c_session_started (l_impl l')"
    "c_stopping (l_impl l')" "c_worker_exited (l_impl l') = c_worker_exited ?s" "impl_faulted (l_impl l') = impl_faulted ?s"
    by (auto simp: stop_section_def request_stop_def show_stopped_def impl_faulted_def Let_def split: option.splits)
  have "lifecycle_inv l'" using lifecycle_step_inv l(1) assms(1) by (simp add: system_inv_def Let_def, blast)
  then show ?thesis
    using assms(1) s l(2) by (auto simp: system_inv_def worker_inv_def link_inv_def Let_def)
qed

lemma inv_join_system:
  assumes "system_inv y" and "system_step P os JoinEnds y = Some y'"
  shows "system_inv y'"
proof -
  let ?l = "y_life y" and ?s = "l_impl (y_life y)"
  obtain l' where l: "lifecycle_step Joined ?l = Some l'" "y' = y\<lparr>y_life := l'\<rparr>"
    using assms(2) by (auto simp: system_step_def Let_def)
  then obtain w k where j: "l_join ?l = Some (w, k)" "w \<notin> set (l_live ?l)" "l_join l' = None"
    "l_impl l' = (case k of ByStart \<Rightarrow> start_joined | ByStop \<Rightarrow> stop_joined) ?s"
    by (auto split: option.splits if_splits)
  have i: "lifecycle_inv ?l" using assms(1) by (simp add: system_inv_def Let_def)
  have "c_worker_exited ?s" using i j(1,2) by (auto simp: lifecycle_inv_def owner_inv_def subset_singleton_iff)
  moreover have "c_transport (l_impl l') = c_transport ?s" "c_session_started (l_impl l') = c_session_started ?s"
    "c_worker_exited (l_impl l') = c_worker_exited ?s"
    using j(4) by (auto simp: start_joined_def stop_joined_def show_stopped_def split: joiner.splits)
  ultimately show ?thesis
    using assms(1) l(2) j(3) lifecycle_step_inv [OF i l(1)] by (simp add: system_inv_def Let_def)
qed

lemma inv_call_system:
  assumes "system_inv y" and "act = Bias r1 r2 \<or> act = Snapshot now" and "system_step P os act y = Some y'"
  shows "system_inv y'"
proof -
  let ?l = "y_life y" and ?s = "l_impl (y_life y)"
  define s where "s = (if act = Snapshot now then snd (impl_health P now ?s) else fst (snd (bias os r1 r2 ?s)))"
  have s: "y' = y\<lparr>y_life := ?l\<lparr>l_impl := s\<rparr>\<rparr>" "same_link ?s s" "same_owner ?s s" "c_fault_latch s = c_fault_latch ?s"
    "c_worker_exited s = c_worker_exited ?s" "c_delivered_generation s = c_delivered_generation ?s" "c_health s = c_health ?s"
    using assms(2,3)
    by (auto simp: s_def system_step_def bias_def impl_health_def same_link_def same_owner_def Let_def split: sum.splits)
  have i: "lifecycle_inv ?l" using assms(1) by (simp add: system_inv_def Let_def)
  have "lifecycle_inv (?l\<lparr>l_impl := s\<rparr>)"
    using s inv_fault_shown [OF i] by (intro inv_keep [OF i]) (simp_all add: fault_shown_in_def impl_faulted_def)
  then show ?thesis
    using assms(1) s by (auto simp: system_inv_def worker_inv_def link_inv_def same_link_def impl_faulted_def Let_def)
qed

lemma inv_thread_system:
  assumes "system_inv y" and "system_step P os (ThreadEnds w) y = Some y'"
  shows "system_inv y'"
proof -
  obtain l' where l: "lifecycle_step (Exit w) (y_life y) = Some l'" "y' = y\<lparr>y_life := l'\<rparr>"
    using assms(2) by (auto simp: system_step_def Let_def)
  then have "l_impl l' = l_impl (y_life y)" "l_join l' = l_join (y_life y)" by (auto split: if_splits)
  moreover have "lifecycle_inv l'" using lifecycle_step_inv [OF _ l(1)] assms(1) by (simp add: system_inv_def Let_def)
  ultimately show ?thesis using assms(1) l(2) by (simp add: system_inv_def Let_def)
qed

lemma system_step_inv:
  assumes "system_inv y" and "system_step P os act y = Some y'"
  shows "system_inv y'"
proof (cases act)
  case (Work w a cs)
  show ?thesis
  proof (cases "\<exists>d n v. y_pc y = AtWait d n v")
    case True
    then show ?thesis using inv_work_wait [OF assms(1)] assms(2) Work by blast
  next
    case False
    then show ?thesis using inv_work_other [OF assms(1)] assms(2) Work by blast
  qed
next
  case (Start self cb created b)
  then show ?thesis using inv_start_system [OF assms(1)] assms(2) by blast
next
  case (Stop self)
  then show ?thesis using inv_stop_system [OF assms(1)] assms(2) by blast
next
  case JoinEnds
  then show ?thesis using inv_join_system [OF assms(1)] assms(2) by blast
next
  case (ThreadEnds w)
  then show ?thesis using inv_thread_system [OF assms(1)] assms(2) by blast
qed (use inv_call_system [OF assms(1) _ assms(2)] in blast)+

lemma system_init_inv: "system_init y \<Longrightarrow> system_inv y"
  using lifecycle_init_inv [of "y_life y"]
  by (auto simp: system_init_def system_inv_def lifecycle_init_def no_leak_init Let_def) (simp add: udp_init_def)

interpretation whole: invariant_system "system_step P os" system_init system_inv for P os
  by unfold_locales (fact system_init_inv, fact system_step_inv)

section \<open>A stop returns\<close>

lemma worker_at_inv:
  assumes "worker_inv (y_pc y) (l_impl (y_life y))"
  shows "machine_inv (worker_at y)"
  using assms by (auto simp: machine_inv_def worker_at_def worker_inv_def link_inv_def)

text \<open>A worker that has been asked to stop can always go on, comes nearer to its end, and stays in the same hands.\<close>

lemma stopped_worker_moves:
  assumes "system_inv y" and "l_join (y_life y) = Some (w, k)" and "c_stopping (l_impl (y_life y))"
    and "w \<in> set (l_live (y_life y))" and "\<not> c_worker_exited (l_impl (y_life y))" and "answering P os a"
  shows "\<exists>y'. system_step P os (Work w a cs) y = Some y' \<and> stop_distance (y_pc y') < stop_distance (y_pc y) \<and>
    l_join (y_life y') = Some (w, k) \<and> w \<in> set (l_live (y_life y')) \<and> c_stopping (l_impl (y_life y'))"
proof -
  let ?a = "with_calls P os cs a" and ?s = "l_impl (y_life y)"
  have i: "worker_inv (y_pc y) ?s" "no_leak (c_transport ?s)" "lifecycle_inv (y_life y)"
    using assms(1,5) by (auto simp: system_inv_def Let_def)
  have m: "m_stop (worker_at y) = AfterRequest" "m_pc (worker_at y) = y_pc y" "m_impl (worker_at y) = ?s"
    using assms(3) by (simp_all add: worker_at_def)
  have an: "answering P os ?a" using assms(6) by (simp add: answering_def with_calls_def)
  have e: "y_pc y \<noteq> AtEnd" using i(1) by (simp add: worker_inv_def)
  obtain m' where m': "worker_step P os ?a (worker_at y) = Some m'"
    using worker_step_enabled [OF worker_at_inv [OF i(1)] m(1) an] e m(2) by auto
  have "open_fds (c_transport ?s) = {}" if "y_pc y = AtConnect"
    using i(1,2) that by (simp add: worker_inv_def link_inv_def no_leak_def)
  then have "y_pc y = AtConnect \<longrightarrow> fresh r (c_transport ?s)" for r
    by (cases r) (auto simp: list_all_iff split: option.splits)
  then have st: "system_step P os (Work w a cs) y =
      Some \<lparr>y_life = after_work w (m_impl m') (y_life y), y_pc = m_pc m', y_backoff = m_backoff m'\<rparr>"
    using assms(4,5) m' by (simp add: system_step_def Let_def)
  have d: "stop_distance (m_pc m') < stop_distance (y_pc y)"
    using stop_distance_decreases [OF _ m'] assms(3) m by simp
  have j: "c_joining ?s" using i(3) assms(2) by (simp add: lifecycle_inv_def)
  have "c_stopping (m_impl m')"
  proof (cases "\<exists>d n v. y_pc y = AtWait d n v")
    case True
    then obtain d n v where pc: "y_pc y = AtWait d n v" by blast
    obtain r where r: "transport_receive P os bufferSize (seconds_of_ticks (rounding_mode P) (d - n)) (t_wait (an_turn ?a))
        (c_transport ?s) = Some r"
      using m' pc m by (auto simp: worker_step_def Let_def split: option.splits)
    show ?thesis
      using stopped_turn_ends [OF assms(3), of P "an_turn ?a" d v r] m' pc m r assms(3)
      by (elim disjE exE) (auto simp: worker_step_def Let_def)
  next
    case False
    then show ?thesis using worker_step_flags [OF m'] m assms(3) by auto
  qed
  then show ?thesis using st d j assms(2,4) by (simp add: after_work_def)
qed

lemma stopped_worker_ends:
  assumes "system_inv y" and "l_join (y_life y) = Some (w, k)" and "c_stopping (l_impl (y_life y))"
    and "w \<in> set (l_live (y_life y))" and "stop_distance (y_pc y) \<le> length as" and "\<forall>(a, cs) \<in> set as. answering P os a"
  shows "\<exists>n \<le> stop_distance (y_pc y). \<exists>y'.
    run_steps (system_step P os) (map (\<lambda>(a, cs). Work w a cs) (take n as)) y = Some y' \<and>
    system_inv y' \<and> l_join (y_life y') = Some (w, k) \<and> w \<in> set (l_live (y_life y')) \<and> c_worker_exited (l_impl (y_life y'))"
  using assms
proof (induction as arbitrary: y)
  case Nil
  then have "c_worker_exited (l_impl (y_life y))"
    by (auto simp: system_inv_def worker_inv_def stop_distance_0 Let_def split: if_splits)
  then show ?case using Nil by auto
next
  case (Cons x as)
  obtain a cs where x: "x = (a, cs)" by fastforce
  show ?case
  proof (cases "c_worker_exited (l_impl (y_life y))")
    case False
    obtain y1 where y1: "system_step P os (Work w a cs) y = Some y1" "stop_distance (y_pc y1) < stop_distance (y_pc y)"
      "l_join (y_life y1) = Some (w, k)" "w \<in> set (l_live (y_life y1))" "c_stopping (l_impl (y_life y1))"
      using stopped_worker_moves [OF Cons.prems(1-4) False, of P os a cs] Cons.prems(6) x by auto
    have "system_inv y1" by (rule system_step_inv [OF Cons.prems(1) y1(1)])
    then obtain n y' where "n \<le> stop_distance (y_pc y1)"
      "run_steps (system_step P os) (map (\<lambda>(a, cs). Work w a cs) (take n as)) y1 = Some y'"
      "system_inv y' \<and> l_join (y_life y') = Some (w, k) \<and> w \<in> set (l_live (y_life y')) \<and> c_worker_exited (l_impl (y_life y'))"
      using Cons.IH [of y1] y1 Cons.prems(5,6) by auto
    then show ?thesis using y1(1,2) x by (intro exI [of _ "Suc n"]) auto
  qed (use Cons.prems in \<open>auto intro: exI [of _ 0]\<close>)
qed

lemma ended_worker_joined:
  assumes "system_inv y" and "l_join (y_life y) = Some (w, ByStop)" and "c_worker_exited (l_impl (y_life y))"
  shows "\<exists>ys y'. set ys \<subseteq> {ThreadEnds w} \<and> run_steps (system_step P os) (ys @ [JoinEnds]) y = Some y' \<and>
    l_live (y_life y') = [] \<and> l_join (y_life y') = None \<and> c_worker (l_impl (y_life y')) = None \<and>
    socket (c_transport (l_impl (y_life y'))) = None \<and>
    (\<not> impl_faulted (l_impl (y_life y')) \<longrightarrow> h_state (c_health (l_impl (y_life y'))) = Stopped)"
proof -
  let ?l = "y_life y"
  have l: "lifecycle_inv ?l" "socket (c_transport (l_impl ?l)) = None" using assms by (auto simp: system_inv_def Let_def)
  have "set (l_live ?l) \<subseteq> {w}" "distinct (l_live ?l)" "c_worker (l_impl ?l) = None"
    using l(1) assms(2) by (auto simp: lifecycle_inv_def owner_inv_def)
  then have v: "l_live ?l = [] \<or> l_live ?l = [w]" "c_worker (l_impl ?l) = None"
    by (cases "l_live ?l"; cases "tl (l_live ?l)"; auto)+
  show ?thesis
    using v l(2) assms
    by (auto simp: system_step_def stop_joined_def show_stopped_def impl_faulted_def Let_def
      intro!: exI [of _ "if l_live ?l = [] then [] else [ThreadEnds w]"])
qed

section \<open>Properties\<close>

text \<open>
  C6. The whole client, with the real worker in it. However the calls of any number of threads fall
  between the steps of the worker and into its callback, from its construction on: at most one worker
  is alive, it is the recorded one and owned or joined; a latched fault is shown and its worker does
  nothing more than finish; a session is open to commands only while its worker runs, no stop request
  has been made (of which the flag is part here) and the socket is connected, so that a bias command never finds the transport
  unconnected; a client without a running worker has no socket, and the process never holds another
  descriptor than the connected one; and the record of the first delivery is that of the current run.
\<close>

theorem client_system_safe:
  assumes "system_init y0" and "run_steps (system_step P os) acts y0 = Some y"
  shows "let l = y_life y; s = l_impl l in
    length (l_live l) \<le> 1 \<and> (\<not> c_worker_exited s \<longrightarrow> l_live l \<noteq> []) \<and>
    (\<forall>w \<in> set (l_live l). c_active_worker_id s = Some w \<and>
       (c_worker s = Some w \<and> l_join l = None \<or> c_worker s = None \<and> (\<exists>k. l_join l = Some (w, k)))) \<and>
    (impl_faulted s \<longrightarrow> h_state (c_health s) = Faulted \<and> h_fault_code (c_health s) = code (c_fault_latch s) \<and>
       (c_worker_exited s \<or> y_pc y = AtFinish)) \<and>
    (c_session_started s \<longrightarrow> \<not> c_worker_exited s \<and> \<not> c_stopping s \<and> socket (c_transport s) \<noteq> None) \<and>
    (c_worker_exited s \<longrightarrow> socket (c_transport s) = None) \<and>
    open_fds (c_transport s) = (case socket (c_transport s) of None \<Rightarrow> {} | Some fd \<Rightarrow> {fd}) \<and>
    (c_generation s \<noteq> 0 \<longrightarrow> (c_delivered_generation s = c_generation s \<longleftrightarrow> l_delivered l)) \<and>
    fst (bias os r1 r2 s) \<noteq> Inl not_connected"
proof -
  let ?l = "y_life y" and ?s = "l_impl (y_life y)"
  have i: "system_inv y" by (rule whole.inv_reachable [OF assms])
  then have l: "lifecycle_inv ?l" by (simp add: system_inv_def Let_def)
  then obtain w where w: "set (l_live ?l) \<subseteq> {w}" "distinct (l_live ?l)"
    by (fastforce simp: lifecycle_inv_def owner_inv_def split: option.splits)
  have "length (l_live ?l) \<le> 1"
    using w distinct_card [of "l_live ?l"] card_mono [of "{w}" "set (l_live ?l)"] by simp
  moreover have "\<not> c_worker_exited ?s \<longrightarrow> l_live ?l \<noteq> []"
    "c_generation ?s \<noteq> 0 \<longrightarrow> (c_delivered_generation ?s = c_generation ?s) = l_delivered ?l"
    using l by (auto simp: lifecycle_inv_def)
  moreover have "\<forall>w \<in> set (l_live ?l). c_active_worker_id ?s = Some w \<and>
      (c_worker ?s = Some w \<and> l_join ?l = None \<or> c_worker ?s = None \<and> (\<exists>k. l_join ?l = Some (w, k)))"
    using l by (auto simp: lifecycle_inv_def owner_inv_def split: option.splits)
  moreover have b: "c_session_started ?s \<longrightarrow> \<not> c_worker_exited ?s \<and> \<not> c_stopping ?s \<and> socket (c_transport ?s) \<noteq> None"
    using i by (auto simp: system_inv_def worker_inv_def link_inv_def Let_def split: if_splits)
  moreover have "fst (bias os r1 r2 ?s) \<noteq> Inl not_connected"
    using b by (cases os) (auto simp: bias_def posix_send_def win_send_def not_connected_def socket_error_def winsock_error_def
        split: sum.splits send_outcome.splits if_splits)
  moreover have "impl_faulted ?s \<longrightarrow> h_state (c_health ?s) = Faulted \<and> h_fault_code (c_health ?s) = code (c_fault_latch ?s) \<and>
       (c_worker_exited ?s \<or> y_pc y = AtFinish)"
    using i inv_fault_shown [OF l] by (auto simp: system_inv_def worker_inv_def fault_shown_in_def Let_def split: if_splits)
  moreover have "c_worker_exited ?s \<longrightarrow> socket (c_transport ?s) = None"
    "open_fds (c_transport ?s) = (case socket (c_transport ?s) of None \<Rightarrow> {} | Some fd \<Rightarrow> {fd})"
    using i by (auto simp: system_inv_def no_leak_def Let_def)
  ultimately show ?thesis unfolding Let_def by blast
qed

definition example_windows_answers :: answers where
  "example_windows_answers = example_answers\<lparr>an_turn := (example_turn 0)\<lparr>t_wait := WinWait
     \<lparr>ww_now = 0, ww_turns = [], ww_shutdown = False, ww_so_error = None, ww_recv = Received [], ww_shutdown_after = False\<rparr>\<rparr>\<rparr>"

lemma example_system_init: "system_init (system_of (l_impl example_lifecycle))"
  using example_lifecycle_init
  by (simp add: system_init_def system_of_def lifecycle_init_def) (simp add: example_lifecycle_def)

lemma example_system_run:
  "\<exists>y. run_steps (system_step linux_x86_64 Windows) [Start 0 None (Inr 1) True, Work 1 example_answers [], Stop 0]
      (system_of (l_impl example_lifecycle)) = Some y \<and>
     y_pc y = AtStart \<and> l_join (y_life y) = Some (1, ByStop) \<and> l_live (y_life y) = [1]"
  by (simp add: system_step_def system_of_def example_lifecycle_def start_section_def example_impl_def prepare_start_def
      create_worker_thread_def worker_step_def worker_at_def with_calls_def after_work_def example_answers_def example_run_turn_def
      stop_section_def request_stop_def impl_faulted_def latch_faulted_def latch_reset_def latch_init_def Let_def)

theorem client_system_safe_witness:
  "\<exists>y. run_steps (system_step linux_x86_64 Windows) [Start 0 None (Inr 1) True, Work 1 example_answers [], Stop 0]
      (system_of (l_impl example_lifecycle)) = Some y \<and> y_pc y = AtStart \<and> length (l_live (y_life y)) \<le> 1 \<and>
      fst (bias Windows (Sent 8) (Sent 8) (l_impl (y_life y))) \<noteq> Inl not_connected"
proof -
  obtain y where y: "run_steps (system_step linux_x86_64 Windows) [Start 0 None (Inr 1) True, Work 1 example_answers [], Stop 0]
      (system_of (l_impl example_lifecycle)) = Some y" "y_pc y = AtStart"
    using example_system_run by blast
  show ?thesis
    using client_system_safe [OF example_system_init y(1), of "Sent 8" "Sent 8"] y unfolding Let_def by blast
qed

text \<open>
  C15. A stop comes to its end. In every reachable state in which a thread in \<open>stop\<close> joins the worker, the
  worker can always go on, whatever is answered to it, and within five steps it has finished; then its
  thread ends, the join returns, and the client has no worker, no pending join and no socket, and shows
  that it is stopped unless a fault is latched.
\<close>

theorem stop_returns:
  assumes "system_init y0" and "run_steps (system_step P os) acts y0 = Some y" and "l_join (y_life y) = Some (w, ByStop)"
    and "5 \<le> length as" and "\<forall>(a, cs) \<in> set as. answering P os a"
  shows "\<exists>n \<le> 5. \<exists>ys y'. set ys \<subseteq> {ThreadEnds w} \<and>
    run_steps (system_step P os) (map (\<lambda>(a, cs). Work w a cs) (take n as) @ ys @ [JoinEnds]) y = Some y' \<and>
    l_live (y_life y') = [] \<and> l_join (y_life y') = None \<and> c_worker (l_impl (y_life y')) = None \<and>
    socket (c_transport (l_impl (y_life y'))) = None \<and>
    (\<not> impl_faulted (l_impl (y_life y')) \<longrightarrow> h_state (c_health (l_impl (y_life y'))) = Stopped)"
proof -
  have i: "system_inv y" by (rule whole.inv_reachable [OF assms(1,2)])
  then have st: "c_stopping (l_impl (y_life y))" using assms(3) by (simp add: system_inv_def Let_def)
  have "\<exists>n \<le> 5. \<exists>y1. run_steps (system_step P os) (map (\<lambda>(a, cs). Work w a cs) (take n as)) y = Some y1 \<and>
      system_inv y1 \<and> l_join (y_life y1) = Some (w, ByStop) \<and> c_worker_exited (l_impl (y_life y1))"
  proof (cases "w \<in> set (l_live (y_life y))")
    case True
    then show ?thesis
      using stopped_worker_ends [OF i assms(3) st True _ assms(5)] stop_distance_le [of "y_pc y"] assms(4)
      by (meson le_trans)
  next
    case False
    then have "c_worker_exited (l_impl (y_life y))"
      using i assms(3) by (auto simp: system_inv_def lifecycle_inv_def owner_inv_def subset_singleton_iff Let_def)
    then show ?thesis using i assms(3) by (intro exI [of _ 0]) simp
  qed
  then obtain n y1 where n: "n \<le> 5" "run_steps (system_step P os) (map (\<lambda>(a, cs). Work w a cs) (take n as)) y = Some y1"
    "system_inv y1" "l_join (y_life y1) = Some (w, ByStop)" "c_worker_exited (l_impl (y_life y1))" by blast
  then show ?thesis using ended_worker_joined [OF n(3-5), of P os] by (intro exI [of _ n]) (auto simp: run_steps_append)
qed

theorem stop_returns_witness:
  "\<exists>y n ys y'. run_steps (system_step linux_x86_64 Windows) [Start 0 None (Inr 1) True, Work 1 example_answers [], Stop 0]
      (system_of (l_impl example_lifecycle)) = Some y \<and> y_pc y = AtStart \<and>
     run_steps (system_step linux_x86_64 Windows)
       (map (\<lambda>(a, cs). Work 1 a cs) (take n (replicate 5 (example_windows_answers, []))) @ ys @ [JoinEnds]) y = Some y' \<and>
     l_live (y_life y') = []"
proof -
  obtain y where y: "run_steps (system_step linux_x86_64 Windows) [Start 0 None (Inr 1) True, Work 1 example_answers [], Stop 0]
      (system_of (l_impl example_lifecycle)) = Some y" "y_pc y = AtStart" "l_join (y_life y) = Some (1, ByStop)"
    using example_system_run by blast
  have "\<forall>(a, cs) \<in> set (replicate 5 (example_windows_answers, [])). answering linux_x86_64 Windows a"
    using discovery_answers
    by (simp add: answering_def example_windows_answers_def example_answers_def example_run_turn_def example_session_def)
  then show ?thesis
    using stop_returns [OF example_system_init y(1,3), of "replicate 5 (example_windows_answers, [])"] y by fastforce
qed

end
