(* ===== verification/Spec2Isabelle.thy ===== *)
theory Spec2Isabelle
  imports Bindings Wakeups Lock_Order Worker_Simulation Client_System
begin

text \<open>
  Verification of the C++ core of pyNetFT, a client for ATI Net F/T force and torque sensors.

  \<^bold>\<open>The program.\<close> The sensor sends 36-byte records over UDP (the RDT protocol) and serves its
  calibration as an XML document over HTTP. A client validates its configuration, and its worker
  thread runs sessions: it discovers the calibration, or takes the user's override, connects, asks for
  the stream, and turns every record into a sample that is handed to a callback. Records are checked
  against two sequence counters and a status word; failures end a session, and a policy decides
  between reconnecting with growing delays and latching a fault. Other threads start and stop the
  client, ask for snapshots, or send a bias command. The Python binding puts a bounded queue between
  the callback and the reader.

  \<^bold>\<open>Theories and sources\<close> (paths under \<open>src/core/\<close> unless they begin with \<open>bindings/\<close>).
  \<^item> \<open>Prelude\<close>: exceptions and results, decimal printing, the locale \<open>invariant_system\<close> of all
    transition systems, the wait on a condition variable, list and word lemmas.
  \<^item> \<open>Float_Model\<close>: binary floating point with formats and rounding modes, over rationals.
  \<^item> \<open>Types\<close>: \<open>include/netft/types.hpp\<close>, \<open>src/types.cpp\<close>, \<open>src/detail/time.hpp\<close>: the data types, their
    names, validation, checked clock arithmetic.
  \<^item> \<open>Status\<close>: \<open>src/status.cpp\<close>. \<open>Protocol\<close>: \<open>src/detail/protocol.cpp\<close>.
    \<open>Sequence_Trackers\<close>: \<open>src/detail/sequence.cpp\<close>. \<open>Fault_Latch\<close>: \<open>src/detail/fault_latch.cpp\<close>.
  \<^item> \<open>Xml_Config\<close>: \<open>src/detail/xml_config.cpp\<close>. \<open>Discovery\<close>: \<open>src/discovery.cpp\<close>.
  \<^item> \<open>Udp_Transport\<close>: \<open>src/detail/udp_transport_posix.cpp\<close> and \<open>udp_transport_windows.cpp\<close>.
  \<^item> \<open>Client_Impl\<close>, \<open>Client_Session\<close>, \<open>Client_Lifecycle\<close>: \<open>src/detail/client_impl.cpp\<close>. The first has the
    state and the operations on one record, configuration, command or snapshot; the second the loops
    of \<open>receive_session\<close> and \<open>run\<close>; the third the critical sections of \<open>start\<close>, \<open>stop\<close> and
    \<open>wait_for_first_sample\<close> and their transition system. \<open>Client_Records\<close>, \<open>Client_Worker\<close> and
    \<open>Client_Threads\<close> hold the lemmas on them, in this order.
  \<^item> \<open>Worker_Machine\<close>, \<open>Worker_Simulation\<close>: \<open>run\<close>, \<open>receive_session\<close> and \<open>stop\<close> of
    \<open>src/detail/client_impl.cpp\<close> again, as a machine with a program point between any two critical
    sections; the second shows, as a check of the two descriptions against each other, that it makes
    the runs of \<open>Client_Session\<close>. \<open>Client_System\<close>: the whole
    client, with that machine, the sections of \<open>start\<close> and \<open>stop\<close> and the calls of other threads.
  \<^item> \<open>Client_Facade\<close>: the loops of \<open>start\<close> and \<open>stop\<close>, and \<open>src/client.cpp\<close>: construction, destruction,
    deferred destruction.
  \<^item> \<open>Sample_Queue\<close>: \<open>bindings/python/sample_queue.cpp\<close>. \<open>Native_Client\<close>:
    \<open>bindings/python/native_client.cpp\<close>. \<open>Bindings\<close>: \<open>bindings/python/bind_types.cpp\<close> and \<open>module.cpp\<close>: the
    names, attributes and exceptions that Python sees, as the tables the code hands to pybind11.
  \<^item> \<open>Lock_Order\<close> and \<open>Wakeups\<close>: the mutexes and condition variables of all these files, one level below
    the critical sections of the other theories. The first reduces every operation to the mutexes it
    takes and lets go and its waits; the second every change of a condition somebody waits for to its mutex, its
    store and its notification.
  \<^item> This theory: properties that span the components.

  \<^bold>\<open>Modelling choices.\<close> A class is a record with its members, an operation a function on it; an
  exception is the left of a sum. Integers keep their width where the source relies on it (sequence
  numbers, counters, generations, the response buffer); clock ticks are integers and every comparison
  with the range of the clock is in the model. The answers of the operating system, of libcurl and of
  the floating-point environment, the readings of the clock and what the user's callback does are
  arguments. Threads: a critical section is one step; a flag that is read without a lock is an argument
  at each read; what other threads do while a lock is released is a function on the state. A loop that
  depends on the world takes the list of its turns and returns \<open>None\<close> if it has not ended by then, so
  that statements about its end are statements about long enough lists; no other loop needs a bound.
  \<open>None\<close> also stands for \<open>std::terminate\<close> where the source can reach it.
  Two steps of \<open>Client_Lifecycle\<close> and \<open>Client_System\<close> are coarser than the code. A stop sets its flag
  and makes its request in one step, though the worker can run between the two; \<open>Worker_Machine\<close> has
  them apart. The worker closes its session, publishes its exit and shows its state in one step, though
  the code publishes the exit first; whoever goes on from the exit to change the client joins the thread
  before it does.

  \<^bold>\<open>Interfaces.\<close> \<open>invariant_system\<close> is interpreted on both transports, the client's threads, the
  whole client and the process of all clients; \<open>datagram_transport\<close> on both transports; \<open>baseline_tracker\<close> on both sequence
  trackers; \<open>latch\<close> on the fault latch; \<open>fifo_queue\<close> on the sample queue and on the list of deferred
  destructions; \<open>attribute_table\<close> with its extensions \<open>complete_table\<close>, where no member is hidden, and
  \<open>writable_table\<close>, where every member can be written, on the six bound classes.

  \<^bold>\<open>What is shown.\<close>
  \<^item> Records: decoding inverts the wire format and is total; the trackers classify by true order and
    count what is missing; the callback sees only fresh, acceptable, finite samples at the allowed rate;
    each record is counted once; a validated configuration cannot make a session fail.
  \<^item> Configuration: parsing and discovery return a valid configuration or a discovery error, in every
    rounding mode; a calibration that is accepted scales every count to a finite number.
  \<^item> Sessions: silent sessions end, ten malformed datagrams in a row end one, delays double up
    to the maximum until a session has received a record, a fail-stop client latches its first failure, and the first fault wins. A stop
    request, wherever it falls, ends the worker within five of its steps.
  \<^item> Transport: no descriptor is lost, a shutdown is observed, waits are bounded and end.
  \<^item> Threads: one worker at a time, a failed start changes nothing, a stop that returns leaves no
    worker, a faulted client can be started again, no object is freed while it is used, only
    waits without a time limit can keep threads waiting for good, never the mutexes alone, and no wake-up is
    lost where the mutex is held. Of the whole client:
    a faulted worker only finishes, a session never outlives a stop request, an idle client has no
    socket, and a stop that joins the worker comes to its end.
  \<^item> Python: nothing is lost uncounted, runs do not mix, reads return and tell the truth; attributes
    read back what was written and hide nothing; the exceptions of each call are known, and no method
    keeps the interpreter lock while it waits.
  \<^item> Two results show defects. Where \<open>long double\<close> is \<open>double\<close> and \<open>long\<close> has 64 bits, a discovery
    time-out passes its check and overflows the conversion (\<open>Discovery\<close>). \<open>finish_session\<close> and \<open>stop\<close>
    notify without the mutex of the waiting thread, so that \<open>start\<close> on a faulted client can miss the exit
    of the worker and block (\<open>Wakeups\<close>).

  \<^bold>\<open>Not modelled.\<close> pybind11 itself: how it converts values, registers functions and keeps objects
  alive, and that it refuses an integer outside the range of \<open>int\<close>. Hexadecimal numbers, which some
  standard libraries accept in the XML document. Several readers of one queue at a time, which the
  documentation excludes. The visibility macros. The hooks that exist for tests. Memory orders, and exhaustion of memory outside the two
  places that handle it. The Python package, the tools, the tests and the build files, which are not
  part of the C++ implementation.
\<close>

section \<open>A session with a valid configuration\<close>

definition valid_session :: "impl \<Rightarrow> bool" where
  "valid_session s \<longleftrightarrow>
     (\<exists>sc. h_sensor_configuration (c_health s) = Some sc \<and> validate_calibration (calibration sc) = Inr ())"

lemma decoded_record_ok: "decode_record (Some d) n = Inr rec \<Longrightarrow> raw_record_ok rec"
  by (auto simp: decode_record_def raw_record_ok_def int32_read_i32 split: if_splits)

lemma valid_session_frame:
  "valid_session (snd (count_timeout b v s)) = valid_session s" "valid_session (snd (count_malformed s)) = valid_session s"
  "valid_session (record_delivery P smp s) = valid_session s" "valid_session (record_callback_error b1 b2 m s) = valid_session s"
  "valid_session (snd (observe_record P rec tm s)) = valid_session s" "valid_session (snd (open_session os io s)) = valid_session s"
  "valid_session (s\<lparr>c_consecutive_malformed := n\<rparr>) = valid_session s"
  "valid_session (s\<lparr>c_rdt_sequence := x, c_ft_sequence := y\<rparr>) = valid_session s"
  by (auto simp: valid_session_def count_timeout_def count_malformed_def record_delivery_def record_callback_error_def
      observe_record_frame open_session_def Let_def split: prod.splits sum.splits)

lemma benign_valid_session: "benign f \<Longrightarrow> valid_session (f s) = valid_session s"
  by (simp add: benign_def valid_session_def)

text \<open>With a valid configuration the handler does not throw and never blames the configuration.\<close>

lemma handle_record_valid:
  assumes "valid_session s" and "raw_record_ok rec" and "benign (cb_interference cb)"
    and "handle_record P cb rec tm s = (r, s', smp)"
  shows "r \<noteq> Inl e \<and> r \<noteq> Inr (Some SessionSensorConfiguration) \<and> valid_session s'"
proof -
  obtain sc where sc: "h_sensor_configuration (c_health s) = Some sc" "validate_calibration (calibration sc) = Inr ()"
    using assms(1) by (auto simp: valid_session_def)
  have o: "record_outcome rec s \<noteq> Some SessionSensorConfiguration"
    "callback_failure_outcome cfg (record_outcome rec s) \<noteq> Some SessionSensorConfiguration" for cfg
    by (auto simp: record_outcome_def callback_failure_outcome_def)
  have v: "valid_session (snd (observe_record P rec tm s))"
    "valid_session (cb_interference cb (snd (observe_record P rec tm s)))"
    using assms(1,3) by (simp_all add: valid_session_frame benign_valid_session)
  show ?thesis
    using assms(4) v o unfolding handle_record_cases [OF sc assms(2)]
    by (auto simp: Let_def valid_session_frame split: if_splits option.splits)
qed

definition sound_result :: "session_outcome res option \<Rightarrow> bool" where
  "sound_result r \<longleftrightarrow> (\<nexists>m. r = Some (Inl (LogicError m))) \<and>
     (\<forall>out. r = Some (Inr out) \<longrightarrow> result out \<noteq> SessionSensorConfiguration)"

lemma receive_turn_valid:
  assumes "valid_session s" and "benign_turn t" and "receive_turn P os t deadline valid s = (r, s', smp)"
  shows "valid_session s' \<and> (case r of
      TurnReturns out \<Rightarrow> sound_result (Some (Inr out)) | TurnThrows e \<Rightarrow> sound_result (Some (Inl e)) | _ \<Rightarrow> True)"
proof -
  let ?s = "t_interference t s"
  have v: "valid_session ?s" using assms(1,2) by (simp add: benign_turn_def benign_valid_session)
  have c: "valid_session s2 \<and> result x \<noteq> SessionSensorConfiguration" if "count_timeout b w ?s = (x, s2)" for b w x s2
    using v that valid_session_frame(1) [of b w ?s] by (auto simp: count_timeout_def session_end_def split: if_splits)
  have m: "valid_session s2" if "count_malformed ?s = (x, s2)" for x s2
    using v that valid_session_frame(2) [of ?s] by simp
  have d: "checked_deadline P a b \<noteq> Inl (LogicError m)" for a b m
    by (auto simp: checked_deadline_def checked_duration_def res_bind_def Let_def)
  have h: "(\<forall>e. q \<noteq> Inl e) \<and> q \<noteq> Inr (Some SessionSensorConfiguration) \<and> valid_session s2"
    if "decode_record (Some bytes) n = Inr rec"
      "handle_record P (t_callback t) rec tm (?s\<lparr>c_consecutive_malformed := 0\<rparr>) = (q, s2, z)" for bytes n rec tm q s2 z
    using handle_record_valid [OF _ decoded_record_ok [OF that(1)] _ that(2)] v assms(2)
    by (auto simp: valid_session_frame benign_turn_def)
  show ?thesis
    using assms(3) v d unfolding receive_turn_defs Let_def
    by (auto simp: sound_result_def session_end_def stopped_or_def valid_session_frame
        split: if_splits option.splits sum.splits prod.splits dest: c m h)
qed

lemma receive_loop_valid:
  assumes "valid_session s" and "list_all benign_turn ts"
  shows "sound_result (fst (receive_loop P os ts deadline valid s))"
  using assms
proof (induction ts arbitrary: deadline valid s)
  case (Cons t ts)
  obtain r s1 smp where t: "receive_turn P os t deadline valid s = (r, s1, smp)" by (metis prod_cases3)
  have v: "valid_session s1" "case r of
      TurnReturns out \<Rightarrow> sound_result (Some (Inr out)) | TurnThrows e \<Rightarrow> sound_result (Some (Inl e)) | _ \<Rightarrow> True"
    using receive_turn_valid [OF Cons.prems(1) _ t] Cons.prems(2) by auto
  show ?case
  proof (cases r)
    case (TurnContinues d w)
    then show ?thesis using Cons.IH [OF v(1)] Cons.prems(2) t by (auto simp: split_beta)
  qed (use v t in \<open>auto simp: sound_result_def\<close>)
qed (simp add: sound_result_def)

text \<open>The configuration of a session is valid, whether it is the validated override or discovered.\<close>

lemma configuration_for_session_valid:
  assumes "configuration_for_session P calls http s = (Some (Inr sc), s1)"
    and "\<forall>k. calibration_override (c_config s) = Some k \<longrightarrow> validate_calibration k = Inr ()"
  shows "validate_calibration (calibration sc) = Inr ()"
proof (cases "calibration_override (c_config s)")
  case None
  then obtain r m st where d: "discover_sensor P calls http (discovery_options_of (c_config s)) (c_curl_once s) = (Some (Inr sc, m), st)"
    using assms(1) by (auto simp: configuration_for_session_def split: prod.splits)
  show ?thesis using discover_sensor_cases [OF d] by simp
next
  case (Some k)
  then show ?thesis using assms by (auto simp: configuration_for_session_def)
qed

lemma configuration_for_session_error:
  assumes "configuration_for_session P calls http s = (Some (Inl e), s1)"
  shows "is_discovery_error e"
proof -
  obtain r m st where d: "discover_sensor P calls http (discovery_options_of (c_config s)) (c_curl_once s) = (Some (Inl e, m), st)"
    using assms by (auto simp: configuration_for_session_def split: option.splits prod.splits)
  show ?thesis using discover_sensor_cases [OF d] by simp
qed

lemma apply_configuration_valid:
  "validate_calibration (calibration sc) = Inr () \<Longrightarrow> valid_session (apply_configuration sc s)"
  by (auto simp: apply_configuration_def valid_session_def Let_def split: option.splits)

text \<open>
  C4. The configuration of a session is sound from discovery to delivery. With a validated
  configuration, whatever the network, the HTTP library, the callback and other threads do, a session
  ends with the result SensorConfiguration only because discovery itself reported an error, and it
  never ends with a logic error: no record is handled without a configuration, and no record scales
  to an infinite or undefined value.
\<close>

theorem session_configuration_sound:
  assumes "\<forall>k. calibration_override (c_config s) = Some k \<longrightarrow> validate_calibration k = Inr ()"
    and "list_all benign_turn (si_turns io)" and "receive_session P os io s = (Some r, s', smps)"
  shows "(\<nexists>m. r = Inl (LogicError m)) \<and>
    (\<forall>out. r = Inr out \<longrightarrow> result out = SessionSensorConfiguration \<longrightarrow>
       (\<exists>m. fst (configuration_for_session P (si_fenv io) (si_http io) s) = Some (Inl (DiscoveryError m)) \<and> message out = m))"
proof -
  let ?s = "s\<lparr>c_health := (c_health s)\<lparr>h_state := Connecting\<rparr>\<rparr>"
  obtain q s1 where c: "configuration_for_session P (si_fenv io) (si_http io) ?s = (q, s1)" by fastforce
  then have q: "q = fst (configuration_for_session P (si_fenv io) (si_http io) s)"
    by (auto simp: configuration_for_session_def Let_def split: option.splits prod.splits)
  have e: "is_discovery_error e" if "q = Some (Inl e)" for e using configuration_for_session_error c that by blast
  have v: "validate_calibration (calibration sc) = Inr ()" if "q = Some (Inr sc)" for sc
    using configuration_for_session_valid [of P _ _ ?s sc s1] c that assms(1) by simp
  have o: "valid_session (snd (open_session os io (apply_configuration sc s1)))" if "q = Some (Inr sc)" for sc
    using apply_configuration_valid [OF v [OF that]] by (simp add: valid_session_frame)
  have os: "fst (open_session os io x) \<noteq> Inl (LogicError m)"
    "fst (open_session os io x) = Inr (Some out) \<Longrightarrow> result out \<noteq> SessionSensorConfiguration" for x m out
    by (auto simp: open_session_def Let_def session_end_def stopped_or_def split: prod.splits sum.splits if_splits)
  have d: "checked_deadline P a b \<noteq> Inl (LogicError m)" for a b m
    by (auto simp: checked_deadline_def checked_duration_def res_bind_def Let_def)
  have l: "sound_result res"
    if "receive_loop P os (si_turns io) dl False (s3\<lparr>c_rdt_sequence := x, c_ft_sequence := y\<rparr>) = (res, s4, w)"
      "valid_session s3" for dl s3 x y res s4 w
    using receive_loop_valid [OF _ assms(2)] that by (metis fst_conv valid_session_frame(8))
  show ?thesis
  proof (cases "si_stop_start io \<or> q = None")
    case True
    then show ?thesis using assms(3) c by (auto simp: receive_session_defs Let_def session_end_def split: if_splits)
  next
    case False
    then obtain z where z: "q = Some z" "\<not> si_stop_start io" by blast
    show ?thesis
    proof (cases z)
      case (Inl x)
      then obtain m where "x = DiscoveryError m" using e z by (cases x) auto
      then show ?thesis
        using assms(3) c z Inl q by (auto simp: receive_session_defs Let_def session_end_def stopped_or_def split: if_splits)
    next
      case (Inr sc)
      obtain y s3 where y: "open_session os io (apply_configuration sc s1) = (y, s3)" by fastforce
      have "sound_result (Some r)"
        using assms(3) c z Inr y os [of "apply_configuration sc s1"] d o [of sc]
        by (auto simp: receive_session_defs Let_def session_end_def split: if_splits sum.splits option.splits prod.splits
            dest: l) (auto simp: sound_result_def)
      then show ?thesis by (auto simp: sound_result_def)
    qed
  qed
qed

theorem session_configuration_sound_witness:
  "\<exists>m s1. receive_session linux_x86_64 Windows example_session (example_policy_impl FailStop) =
     (Some (Inr (session_end SessionSocket m False)), s1, []) \<and>
     validate_calibration (calibration example_configuration) = Inr () \<and>
     (\<nexists>m'. Inr (session_end SessionSocket m False) = (Inl (LogicError m') :: session_outcome res))"
proof -
  obtain s1 where r: "receive_session linux_x86_64 Windows example_session (example_policy_impl FailStop) =
     (Some (Inr (session_end SessionSocket (''failed to resolve sensor (WinSock error '' @ show_int 11001 @ '')'') False)), s1, [])"
    using example_session_fails by blast
  have o: "\<forall>k. calibration_override (c_config (example_policy_impl FailStop)) = Some k \<longrightarrow> validate_calibration k = Inr ()"
    "list_all benign_turn (si_turns example_session)"
    using example_configuration_valid by (simp_all add: example_policy_impl_def example_session_def)
  show ?thesis using session_configuration_sound [OF o r] r example_configuration_valid by blast
qed

section \<open>From the wire to the reader\<close>

lemma record_predicates_frame [simp]:
  "suppressed rec (s\<lparr>c_consecutive_malformed := n\<rparr>) = suppressed rec s"
  "limited P tm (s\<lparr>c_consecutive_malformed := n\<rparr>) = limited P tm s"
  "record_outcome rec (s\<lparr>c_consecutive_malformed := n\<rparr>) = record_outcome rec s"
  by (simp_all add: suppressed_def limited_def record_outcome_def)

lemma decode_wire: "raw_record_ok rec \<Longrightarrow> decode_record (Some (wire_record rec)) 36 = Inr rec"
  using read_be_i32 [of "tz rec" "[]"]
  by (cases rec) (simp add: decode_record_def wire_record_def raw_record_ok_def codec_simps numeral_eq_Suc)

lemma length_wire_record: "length (wire_record rec) = 36"
  by (simp add: wire_record_def)

text \<open>A sample pushed into an empty open queue is what the next read returns.\<close>

lemma push_then_read:
  assumes "open_queue q" and "q_samples q = []"
  shows "read_for_locked (queue_generation q) ws (push smp q) = Some (\<lparr>rr_status = ReadSample, rr_sample = Some smp\<rparr>, q)"
proof -
  have p: "push smp q = q\<lparr>q_samples := [smp]\<rparr>" using assms by (simp add: push_def open_queue_def queue_ok_def)
  have "read_ready (queue_generation q) (push smp q)" by (simp add: p read_ready_def)
  then show ?thesis
    using assms wait_for_ready [of "read_ready (queue_generation q)"]
    by (simp add: read_for_locked_def take_sample_def p queue_generation_def open_queue_def)
qed

text \<open>
  C3. A good datagram reaches the reader unchanged. When the transport delivers the 36 bytes of a
  record that is in order, allowed by the rate limit and free of faults, the turn continues with a
  renewed deadline and hands the callback one sample with the record's own sequence numbers, status and
  counts and six finite values, which becomes the latest sample; the count of deliveries grows by one,
  unless the callback or another thread changes it meanwhile; pushed into an open queue by the Python
  client's callback it is the newest sample there, and the next read of an empty queue returns it.
\<close>

theorem datagram_reaches_reader:
  assumes "h_sensor_configuration (c_health s) = Some sc" and "validate_calibration (calibration sc) = Inr ()"
    and "raw_record_ok rec" and "\<not> suppressed rec s" and "\<not> limited P (t_received_at t) s"
    and "record_outcome rec s = None" and "c_callback s = Some push_callback"
    and "t_interference t = id" and "\<not> t_stop_loop t" and "\<not> t_stop_received t" and "t_now t < deadline"
    and "cb_throws (t_callback t) = None"
    and "transport_receive P os bufferSize (seconds_of_ticks (rounding_mode P) (deadline - t_now t)) (t_wait t)
           (c_transport s) = Some (Inr (wire_record rec))"
    and "checked_deadline P (t_received_at t) (receive_timeout (c_config s)) = Inr deadline'"
    and "open_queue q"
  shows "\<exists>s' smp. receive_turn P os t deadline valid s = (TurnContinues deadline' True, s', Some smp) \<and>
    c_latest s' = Some smp \<and> c_delivered_generation s' = c_generation s' \<and>
    ((\<forall>x. h_delivered_count (c_health (cb_interference (t_callback t) x)) = h_delivered_count (c_health x)) \<longrightarrow>
       h_delivered_count (c_health s') = h_delivered_count (c_health s) + 1) \<and>
    s_rdt_sequence smp = r_rdt_sequence rec \<and> s_ft_sequence smp = r_ft_sequence rec \<and> s_status smp = r_status rec \<and>
    s_raw_wrench smp = [fx rec, fy rec, fz rec, tx rec, ty rec, tz rec] \<and>
    list_all is_finite (s_force smp) \<and> list_all is_finite (s_torque smp) \<and>
    last (q_samples (push smp q)) = smp \<and>
    (q_samples q = [] \<longrightarrow>
       read_for_locked (queue_generation q) ws (push smp q) = Some (\<lparr>rr_status = ReadSample, rr_sample = Some smp\<rparr>, q))"
proof -
  let ?s = "s\<lparr>c_consecutive_malformed := 0\<rparr>" and ?smp = "make_sample P rec (t_received_at t) sc"
  let ?counted = "\<lambda>s'. (\<forall>x. h_delivered_count (c_health (cb_interference (t_callback t) x)) = h_delivered_count (c_health x)) \<longrightarrow>
      h_delivered_count (c_health s') = h_delivered_count (c_health s) + 1"
  have h: "\<exists>s'. handle_record P (t_callback t) rec (t_received_at t) ?s = (Inr None, s', Some ?smp) \<and>
      c_latest s' = Some ?smp \<and> c_delivered_generation s' = c_generation s' \<and> ?counted s'"
    using handle_record_cases [of ?s sc rec P "t_callback t" "t_received_at t"] assms(1-7,12)
      observe_record_counts [of ?s sc P rec "t_received_at t"]
    by (simp add: Let_def record_delivery_def)
  have w: "wire_record rec \<noteq> []" using length_wire_record [of rec] by auto
  have "\<exists>s'. receive_turn P os t deadline valid s = (TurnContinues deadline' True, s', Some ?smp) \<and>
      c_latest s' = Some ?smp \<and> c_delivered_generation s' = c_generation s' \<and> ?counted s'"
    using h w assms(8-11,13,14) decode_wire [OF assms(3)] length_wire_record [of rec]
    by (auto simp: receive_turn_defs Let_def)
  moreover have "list_all is_finite (s_force ?smp) \<and> list_all is_finite (s_torque ?smp)"
    using make_sample_finite [OF assms(2,3)] by blast
  moreover have "last (q_samples (push ?smp q)) = ?smp" by (simp add: push_samples spec_put_def)
  ultimately show ?thesis
    using push_then_read [OF assms(15)] by (fastforce simp: make_sample_def Let_def)
qed

definition patient_impl :: impl where
  "patient_impl = example_impl\<lparr>c_config := (c_config example_impl)\<lparr>receive_timeout := Fin 1\<rparr>\<rparr>"

definition record_turn :: turn where
  "record_turn = (example_turn 0)\<lparr>t_wait := PosixWait
     \<lparr>pw_now = 0, pw_polls = [PollReady False], pw_shutdown = False, pw_recv = Received (wire_record example_record)\<rparr>\<rparr>"

theorem datagram_reaches_reader_witness:
  "\<exists>s' smp deadline'. receive_turn linux_x86_64 (Posix \<lparr>strerror_text = (\<lambda>_. []), gai_text = (\<lambda>_. [])\<rparr>) record_turn
       1000000000 False patient_impl =
       (TurnContinues deadline' True, s', Some smp) \<and>
     h_delivered_count (c_health s') = h_delivered_count (c_health patient_impl) + 1 \<and>
     read_for_locked (queue_generation queue_of_two) [] (push smp queue_of_two) =
       Some (\<lparr>rr_status = ReadSample, rr_sample = Some smp\<rparr>, queue_of_two)"
proof -
  have i: "fl_round binary64 ToNearest 1000000000 = Fin 1000000000" "fl_round binary64 ToNearest 1 = Fin 1"
    using fl_round_int [of binary64 1000000000 ToNearest] fl_round_int [of binary64 1 ToNearest] by simp_all
  then have one: "seconds_of_ticks ToNearest 1000000000 = Fin 1" by (simp add: seconds_of_ticks_def fl_of_int_def)
  obtain k where "checked_duration linux_x86_64 (Fin 1) = Inr k" "k \<le> 2 ^ 49"
    using checked_duration_ordinary [of linux_x86_64 1] by auto
  then have d: "checked_deadline linux_x86_64 0 (Fin 1) = Inr k" by (simp add: checked_deadline_def steady_max_def)
  have l: "rounding_mode linux_x86_64 = ToNearest" by (simp add: linux_x86_64_def)
  have r: "transport_receive linux_x86_64 (Posix x) bufferSize (seconds_of_ticks (rounding_mode linux_x86_64)
      (1000000000 - t_now record_turn)) (t_wait record_turn) (c_transport patient_impl) = Some (Inr (wire_record example_record))" for x
    by (simp add: l record_turn_def example_turn_def one d posix_receive_def install_socket_def bufferSize_def
        patient_impl_def example_impl_def length_wire_record)
  have s: "h_sensor_configuration (c_health patient_impl) = Some example_configuration" "raw_record_ok example_record"
    "\<not> suppressed example_record patient_impl" "\<not> limited P tm patient_impl"
    "record_outcome example_record patient_impl = None" "c_callback patient_impl = Some push_callback" for P tm
    using example_impl_ok
    by (simp_all add: patient_impl_def suppressed_def limited_def rate_limited_def record_outcome_def example_impl_def
        config_default_def push_callback_def example_record_def classify_status_def)
  have q: "open_queue queue_of_two" "q_samples queue_of_two = []"
    by (simp_all add: open_queue_def queue_ok_def queue_of_two_def)
  have t: "t_interference record_turn = id" "\<not> t_stop_loop record_turn" "\<not> t_stop_received record_turn"
    "t_now record_turn < 1000000000" "cb_throws (t_callback record_turn) = None"
    "checked_deadline linux_x86_64 (t_received_at record_turn) (receive_timeout (c_config patient_impl)) = Inr k"
    using d by (simp_all add: record_turn_def example_turn_def example_callback_def patient_impl_def)
  have i: "cb_interference (t_callback record_turn) x = x" for x
    by (simp add: record_turn_def example_turn_def example_callback_def)
  from datagram_reaches_reader [OF s(1) example_configuration_valid s(2-6) t(1-5) r [of "\<lparr>strerror_text = (\<lambda>_. []), gai_text = (\<lambda>_. [])\<rparr>"] t(6) q(1), of False "[]"] q(2)
  show ?thesis unfolding i by blast
qed

end
